(* ===== verification/Prelude.thy ===== *)
theory Prelude
  imports Main "HOL-Library.Word"
begin

section \<open>Prelude: outcomes, checked memory and the generic lemmas\<close>

text \<open>
  What every component shares: the ways a C or C++ operation can go wrong, sequencing of
  operations that may go wrong, byte buffers with checked reads and writes, and the lemma
  collections used by the component proofs.

  A component whose code can only fail by a programming error (a null dereference, a write
  outside an array, an assertion) returns a value of type \<open>ub + 'a\<close>; a component whose code
  also throws C++ exceptions uses \<open>exn + 'a\<close>, where \<open>Thrown\<close> carries the exception's text.
\<close>

named_theorems res_simps \<comment> \<open>how sequencing computes on outcomes\<close>
named_theorems buf_simps \<comment> \<open>checked buffer accesses\<close>

datatype ub =
    OutOfBounds
  | NullDeref
  | UseAfterFree
  | SelfDeadlock
  | AssertFailed
  | UninitRead

datatype exn = Ub ub | Thrown string | Aborted

text \<open>Sequencing: the first failure ends the computation, as a trap or a throw does.\<close>

fun ebind :: "'e + 'a \<Rightarrow> ('a \<Rightarrow> 'e + 'b) \<Rightarrow> 'e + 'b" where
  "ebind (Inl e) f = Inl e"
| "ebind (Inr x) f = f x"

declare ebind.simps [res_simps]

lemma ebind_eq_Inr [res_simps]:
  "ebind m f = Inr y \<longleftrightarrow> (\<exists>x. m = Inr x \<and> f x = Inr y)"
  by (cases m) auto

lemma ebind_eq_Inl:
  "ebind m f = Inl e \<longleftrightarrow> m = Inl e \<or> (\<exists>x. m = Inr x \<and> f x = Inl e)"
  by (cases m) auto

lemma ebind_assoc: "ebind (ebind m f) g = ebind m (\<lambda>x. ebind (f x) g)"
  by (cases m) auto

lemma ebind_cong: "(\<And>x. m = Inr x \<Longrightarrow> f x = g x) \<Longrightarrow> ebind m f = ebind m g"
  by (cases m) auto

lemma ebind_Inr_right [simp]: "ebind m Inr = m"
  by (cases m) auto

text \<open>A trap inside code that can also throw.\<close>

fun lift_ub :: "ub + 'a \<Rightarrow> exn + 'a" where
  "lift_ub (Inl u) = Inl (Ub u)"
| "lift_ub (Inr x) = Inr x"

lemma lift_ub_eq_Inr [res_simps, simp]: "lift_ub m = Inr x \<longleftrightarrow> m = Inr x"
  by (cases m) auto

subsection \<open>Byte buffers\<close>

abbreviation NUL :: char where "NUL \<equiv> CHR 0x00"

text \<open>An allocated block is the list of its bytes. Every access names its index.\<close>

definition peek :: "'a list \<Rightarrow> nat \<Rightarrow> ub + 'a" where
  "peek buf i = (if i < length buf then Inr (buf ! i) else Inl OutOfBounds)"

definition poke :: "'a list \<Rightarrow> nat \<Rightarrow> 'a \<Rightarrow> ub + 'a list" where
  "poke buf i c = (if i < length buf then Inr (buf[i := c]) else Inl OutOfBounds)"

text \<open>Copying a run of bytes to index \<open>i\<close>: \<open>memcpy(&buf[i], src, length src)\<close>.\<close>

definition blit :: "'a list \<Rightarrow> nat \<Rightarrow> 'a list \<Rightarrow> ub + 'a list" where
  "blit buf i src =
     (if i + length src \<le> length buf
      then Inr (take i buf @ src @ drop (i + length src) buf)
      else Inl OutOfBounds)"

lemma peek_ok [buf_simps]: "i < length buf \<Longrightarrow> peek buf i = Inr (buf ! i)"
  by (simp add: peek_def)

lemma poke_ok [buf_simps]: "i < length buf \<Longrightarrow> poke buf i c = Inr (buf[i := c])"
  by (simp add: poke_def)

lemma poke_fails [buf_simps]: "length buf \<le> i \<Longrightarrow> poke buf i c = Inl OutOfBounds"
  by (simp add: poke_def)

lemma poke_length: "poke buf i c = Inr buf' \<Longrightarrow> length buf' = length buf"
  by (auto simp: poke_def split: if_splits)

lemma blit_ok [buf_simps]:
  "i + length src \<le> length buf \<Longrightarrow>
     blit buf i src = Inr (take i buf @ src @ drop (i + length src) buf)"
  by (simp add: blit_def)

lemma blit_fails [buf_simps]:
  "length buf < i + length src \<Longrightarrow> blit buf i src = Inl OutOfBounds"
  by (simp add: blit_def)

lemma blit_Nil [simp]: "i \<le> length buf \<Longrightarrow> blit buf i [] = Inr buf"
  by (simp add: blit_def)

text \<open>Writing bytes one after the other is one copy of all of them.\<close>

lemma poke_then_blit:
  "ebind (poke buf i c) (\<lambda>b. blit b (Suc i) cs) = blit buf i (c # cs)"
proof (cases "i < length buf")
  case True
  then have "take (Suc i) (buf[i := c]) = take i buf @ [c]"
    by (simp add: take_Suc_conv_app_nth)
  with True show ?thesis by (auto simp: poke_def blit_def)
next
  case False
  then show ?thesis by (simp add: poke_def blit_def)
qed

lemma poke_then_blit_bind:
  "ebind (poke buf i c) (\<lambda>b. ebind (blit b (Suc i) cs) g) = ebind (blit buf i (c # cs)) g"
  by (simp add: poke_then_blit [symmetric] ebind_assoc)

lemma poke_eq_blit: "poke buf i c = blit buf i [c]"
  by (cases "i < length buf") (auto simp: poke_def blit_def upd_conv_take_nth_drop)

lemma blit_length: "blit buf i src = Inr buf' \<Longrightarrow> length buf' = length buf"
  by (auto simp: blit_def split: if_splits)

text \<open>A byte written at the end of the filled part extends that part by one byte.\<close>

lemma take_Suc_update: "i < length xs \<Longrightarrow> take (Suc i) (xs[i := c]) = take i xs @ [c]"
  by (simp add: take_Suc_conv_app_nth)

lemma take_poke:
  assumes "poke buf i c = Inr buf'"
  shows "take (Suc i) buf' = take i buf @ [c]"
  using assms by (auto simp: poke_def take_Suc_update split: if_splits)

lemma take_blit:
  assumes "blit buf i src = Inr buf'"
  shows "take (i + length src) buf' = take i buf @ src"
  using assms by (auto simp: blit_def split: if_splits)

lemma blit_blit:
  "ebind (blit buf i xs) (\<lambda>b. blit b (i + length xs) ys) = blit buf i (xs @ ys)"
proof (induction xs arbitrary: buf i)
  case Nil
  then show ?case by (cases "i \<le> length buf") (auto simp: blit_def)
next
  case (Cons x xs)
  have "ebind (blit buf i (x # xs)) (\<lambda>b. blit b (i + length (x # xs)) ys) =
        ebind (poke buf i x) (\<lambda>b. ebind (blit b (Suc i) xs) (\<lambda>b. blit b (Suc i + length xs) ys))"
    by (simp add: poke_then_blit [symmetric] ebind_assoc)
  also have "\<dots> = ebind (poke buf i x) (\<lambda>b. blit b (Suc i) (xs @ ys))"
    by (simp only: Cons.IH)
  also have "\<dots> = blit buf i (x # (xs @ ys))"
    by (rule poke_then_blit)
  finally show ?case by simp
qed

lemma blit_blit_bind:
  "j = i + length xs \<Longrightarrow>
     ebind (blit buf i xs) (\<lambda>b. ebind (blit b j ys) g) = ebind (blit buf i (xs @ ys)) g"
  by (simp add: blit_blit [symmetric] ebind_assoc)

text \<open>A terminator that the next piece overwrites leaves no trace.\<close>

lemma blit_overwrite:
  assumes "ys \<noteq> []"
  shows "ebind (blit buf i (xs @ [c])) (\<lambda>b. blit b (i + length xs) ys) = blit buf i (xs @ ys)"
proof -
  obtain y zs where ys: "ys = y # zs" using assms by (cases ys) auto
  have same: "ebind (poke b j c) (\<lambda>b. poke b j y) = poke b j y" for b j
    by (simp add: poke_def)
  have "ebind (blit buf i (xs @ [c])) (\<lambda>b. blit b (i + length xs) ys) =
        ebind (blit buf i xs) (\<lambda>b. ebind (poke b (i + length xs) c) (\<lambda>b. blit b (i + length xs) ys))"
    by (simp add: poke_eq_blit blit_blit_bind)
  also have "\<dots> = ebind (blit buf i xs) (\<lambda>b. blit b (i + length xs) ys)"
  proof (rule ebind_cong)
    fix b
    have "ebind (poke b (i + length xs) c) (\<lambda>b. blit b (i + length xs) ys) =
      ebind (ebind (poke b (i + length xs) c) (\<lambda>b. poke b (i + length xs) y))
        (\<lambda>b. blit b (Suc (i + length xs)) zs)"
      by (simp add: ys poke_then_blit [symmetric] ebind_assoc)
    also have "\<dots> = blit b (i + length xs) ys"
      by (simp add: same ys poke_then_blit)
    finally show "ebind (poke b (i + length xs) c) (\<lambda>b. blit b (i + length xs) ys) =
      blit b (i + length xs) ys" .
  qed
  finally show ?thesis by (simp add: blit_blit)
qed

lemma blit_overwrite_bind:
  assumes "ys \<noteq> []" and "j = i + length xs"
  shows "ebind (blit buf i (xs @ [c])) (\<lambda>b. ebind (blit b j ys) g) = ebind (blit buf i (xs @ ys)) g"
proof -
  have "ebind (blit buf i (xs @ [c])) (\<lambda>b. ebind (blit b j ys) g) =
        ebind (ebind (blit buf i (xs @ [c])) (\<lambda>b. blit b (i + length xs) ys)) g"
    by (simp only: ebind_assoc assms(2))
  then show ?thesis by (simp only: blit_overwrite [OF assms(1)])
qed

lemma blit_from_start:
  "j = length xs \<Longrightarrow> ebind (blit buf 0 xs) (\<lambda>b. blit b j ys) = blit buf 0 (xs @ ys)"
  using blit_blit [of buf 0 xs ys] by simp

lemma blit_after_prefix:
  assumes "i + length src \<le> length buf"
  shows "\<exists>buf'. blit buf i src = Inr buf' \<and> length buf' = length buf \<and>
           take (i + length src) buf' = take i buf @ src"
  using assms by (simp add: blit_def)

subsection \<open>Lists\<close>

lemma nth_takeWhile_not:
  "length (takeWhile P xs) < length xs \<Longrightarrow> \<not> P (xs ! length (takeWhile P xs))"
  by (rule nth_length_takeWhile)

lemma takeWhile_all: "(\<And>x. x \<in> set xs \<Longrightarrow> P x) \<Longrightarrow> takeWhile P (xs @ ys) = xs @ takeWhile P ys"
  by (rule takeWhile_append2)

lemma dropWhile_rev_last:
  "dropWhile P (rev xs) = y # ys \<Longrightarrow> \<not> P y"
  by (metis hd_dropWhile list.distinct(1) list.sel(1))

lemma fold_append_acc:
  assumes "\<And>x s. f x s = s @ g x"
  shows "fold f xs s = s @ concat (map g xs)"
  by (induction xs arbitrary: s) (simp_all add: assms)

subsection \<open>Hash maps\<close>

text \<open>\<open>unordered_map::emplace\<close> keeps an entry that is already there.\<close>

definition emplace :: "('k \<Rightarrow> 'v option) \<Rightarrow> 'k \<Rightarrow> 'v \<Rightarrow> ('k \<Rightarrow> 'v option)" where
  "emplace m k v = (case m k of None \<Rightarrow> m(k \<mapsto> v) | Some _ \<Rightarrow> m)"

lemma emplace_fresh [simp]: "m k = None \<Longrightarrow> emplace m k v = m(k \<mapsto> v)"
  by (simp add: emplace_def)

lemma emplace_taken [simp]: "m k = Some w \<Longrightarrow> emplace m k v = m"
  by (simp add: emplace_def)

lemma emplace_SomeD: "emplace m k v q = Some w \<Longrightarrow> m q = Some w \<or> (q = k \<and> w = v)"
  by (auto simp: emplace_def split: option.splits if_splits)

subsection \<open>Words\<close>

lemma unat_Suc_word: "unat (w :: 64 word) + 1 < 2 ^ 64 \<Longrightarrow> unat (w + 1) = unat w + 1"
  by (subst unat_add_lem [THEN iffD1]) simp_all

lemma word_less_Suc_self: "w + 1 \<noteq> 0 \<Longrightarrow> (w :: 64 word) < w + 1"
  using unatSuc [of w] by (simp add: word_less_nat_alt add.commute)

lemma word_less_Suc: "q < w \<Longrightarrow> w + 1 \<noteq> 0 \<Longrightarrow> (q :: 64 word) < w + 1"
  using word_less_Suc_self [of w] by (rule order_less_trans [rotated])

text \<open>Below another word there is no wrap-around.\<close>

lemma unat_Suc_below: "w < v \<Longrightarrow> unat (w + 1 :: 'a::len word) = unat w + 1"
proof -
  assume "w < v"
  then have "1 + w \<noteq> 0" by (metis add.commute max_word_wrap not_less word_order.extremum)
  then show ?thesis using unatSuc [of w] by (simp add: add.commute)
qed

end
