(* ===== verification/CLib.thy ===== *)
theory CLib
  imports Prelude
begin

section \<open>The C library functions the program uses\<close>

text \<open>
  C strings inside byte buffers (\<open>strlen\<close>, \<open>strncpy\<close>, \<open>snprintf\<close>, \<open>memcmp\<close>, \<open>strrchr\<close>),
  character classes of the C locale and the decimal conversions (\<open>atoi\<close>, \<open>strtoul\<close>, \<open>%d\<close>).
  These are the standard library's functions; the definitions here state what the standard
  (and, for out-of-range values of \<open>atoi\<close>, the GNU C library) says they do.
\<close>

subsection \<open>C strings\<close>

text \<open>The C string at the start of a block: the bytes before the first NUL.\<close>

definition cstr :: "char list \<Rightarrow> string" where
  "cstr buf = takeWhile (\<lambda>c. c \<noteq> NUL) buf"

definition has_nul :: "char list \<Rightarrow> bool" where
  "has_nul buf \<longleftrightarrow> NUL \<in> set buf"

text \<open>\<open>strlen\<close> on a block with no terminator reads past its end.\<close>

definition c_strlen :: "char list \<Rightarrow> ub + nat" where
  "c_strlen buf = (if has_nul buf then Inr (length (cstr buf)) else Inl OutOfBounds)"

text \<open>\<open>strncpy(dst, src, n)\<close> writes exactly \<open>n\<close> bytes and pads with NUL bytes.\<close>

definition strncpy_bytes :: "string \<Rightarrow> nat \<Rightarrow> char list" where
  "strncpy_bytes src n = take n (src @ replicate n NUL)"

definition strncpy :: "char list \<Rightarrow> string \<Rightarrow> nat \<Rightarrow> ub + char list" where
  "strncpy dst src n = blit dst 0 (strncpy_bytes src n)"

text \<open>
  The usual idiom \<open>strncpy(a, s, sizeof(a) - 1); a[sizeof(a) - 1] = 0;\<close> on an array \<open>a\<close>.
\<close>

definition copy_bounded :: "char list \<Rightarrow> string \<Rightarrow> ub + char list" where
  "copy_bounded dst src =
     ebind (strncpy dst src (length dst - 1)) (\<lambda>d. poke d (length dst - 1) NUL)"

text \<open>The C string left in an array of \<open>sz\<close> bytes by \<open>snprintf\<close> of the text \<open>s\<close>.\<close>

definition snprintf_str :: "nat \<Rightarrow> string \<Rightarrow> string" where
  "snprintf_str sz s = take (sz - 1) s"

text \<open>\<open>memcmp(p, lit, length lit) == 0\<close>, with the bytes read checked.\<close>

definition memcmp_eq :: "char list \<Rightarrow> string \<Rightarrow> ub + bool" where
  "memcmp_eq buf lit =
     (if length lit \<le> length buf then Inr (take (length lit) buf = lit) else Inl OutOfBounds)"

text \<open>The part after the last occurrence of a character (\<open>strrchr\<close>), and its index.\<close>

fun strrchr_idx :: "string \<Rightarrow> char \<Rightarrow> nat option" where
  "strrchr_idx [] c = None"
| "strrchr_idx (x # xs) c =
     (case strrchr_idx xs c of
        Some i \<Rightarrow> Some (Suc i)
      | None \<Rightarrow> (if x = c then Some 0 else None))"

lemma cstr_append [simp]: "NUL \<notin> set s \<Longrightarrow> cstr (s @ NUL # rest) = s"
  by (simp add: cstr_def takeWhile_append)

lemma cstr_no_nul [simp]: "NUL \<notin> set (cstr buf)"
  by (auto simp: cstr_def dest: set_takeWhileD)

lemma cstr_id: "NUL \<notin> set s \<Longrightarrow> cstr s = s"
  by (auto simp: cstr_def)

lemma c_strlen_ok: "has_nul buf \<Longrightarrow> c_strlen buf = Inr (length (cstr buf))"
  by (simp add: c_strlen_def)

lemma length_strncpy_bytes [simp]: "length (strncpy_bytes src n) = n"
  by (simp add: strncpy_bytes_def)

lemma strncpy_bytes_eq: "strncpy_bytes src n = take n src @ replicate (n - length src) NUL"
  by (simp add: strncpy_bytes_def)

lemma cstr_replicate_nul [simp]: "cstr (replicate n NUL @ rest) = (if n = 0 then cstr rest else [])"
  by (cases n) (simp_all add: cstr_def)

lemma cstr_take_append: "NUL \<notin> set s \<Longrightarrow> cstr (take n s @ rest) = take n s @ cstr rest"
  by (auto simp: cstr_def takeWhile_append dest: in_set_takeD)

text \<open>
  The bounded copy never writes outside the array, always leaves a terminator, and keeps
  exactly the part of the text that fits.
\<close>

lemma copy_bounded_ok:
  assumes "dst \<noteq> []" and "NUL \<notin> set src"
  shows "\<exists>d. copy_bounded dst src = Inr d \<and> length d = length dst \<and> has_nul d \<and>
           cstr d = take (length dst - 1) src"
proof -
  let ?n = "length dst - 1"
  let ?b = "strncpy_bytes src ?n @ drop ?n dst"
  from assms(1) have n: "Suc ?n = length dst" by (cases dst) auto
  have b: "strncpy dst src ?n = Inr ?b"
    by (simp add: strncpy_def blit_def)
  have "drop ?n dst = [last dst]"
    using assms(1) by (metis append_butlast_last_id append_eq_conv_conj length_butlast)
  then have p: "poke ?b ?n NUL = Inr (strncpy_bytes src ?n @ [NUL])"
    by (simp add: poke_def list_update_append)
  have "cstr (strncpy_bytes src ?n @ [NUL]) = take ?n src"
    using assms(2) by (simp add: strncpy_bytes_eq cstr_take_append) (simp add: cstr_def)
  with b p n show ?thesis
    by (simp add: copy_bounded_def has_nul_def)
qed

lemma strrchr_idx_None [simp]: "strrchr_idx s c = None \<longleftrightarrow> c \<notin> set s"
proof (induction s)
  case (Cons x xs)
  then show ?case by (cases "strrchr_idx xs c") auto
qed simp

lemma strrchr_idx_Some:
  "strrchr_idx s c = Some i \<Longrightarrow> i < length s \<and> s ! i = c \<and> c \<notin> set (drop (Suc i) s)"
  by (induction s arbitrary: i) (auto split: option.splits if_splits simp: nth_Cons')

subsection \<open>Character classes of the C locale\<close>

definition isspace :: "char \<Rightarrow> bool" where
  "isspace c \<longleftrightarrow> c \<in> {CHR '' '', CHR 0x09, CHR 0x0A, CHR 0x0B, CHR 0x0C, CHR 0x0D}"

definition isdigit :: "char \<Rightarrow> bool" where
  "isdigit c \<longleftrightarrow> 48 \<le> (of_char c :: nat) \<and> (of_char c :: nat) \<le> 57"

definition digit_val :: "char \<Rightarrow> nat" where
  "digit_val c = of_char c - 48"

lemma isspace_simps [simp]:
  "isspace (CHR '' '')" "\<not> isspace NUL" "isdigit c \<Longrightarrow> \<not> isspace c"
  by (auto simp: isspace_def isdigit_def)

subsection \<open>Decimal conversions\<close>

fun dec_val :: "nat \<Rightarrow> string \<Rightarrow> nat" where
  "dec_val acc [] = acc"
| "dec_val acc (c # cs) =
     (if isdigit c then dec_val (acc * 10 + digit_val c) cs else acc)"

text \<open>Optional sign, then digits; the result is the sign and the magnitude.\<close>

definition scan_signed :: "string \<Rightarrow> bool \<times> nat" where
  "scan_signed s =
     (case dropWhile isspace s of
        [] \<Rightarrow> (False, 0)
      | c # cs \<Rightarrow>
          (if c = CHR ''-'' then (True, dec_val 0 cs)
           else if c = CHR ''+'' then (False, dec_val 0 cs)
           else (False, dec_val 0 (c # cs))))"

definition strtol10 :: "string \<Rightarrow> int" where
  "strtol10 s =
     (case scan_signed s of (neg, m) \<Rightarrow>
        (if neg then max (- (2 ^ 63)) (- int m) else min (2 ^ 63 - 1) (int m)))"

text \<open>\<open>atoi\<close> of the GNU C library: \<open>(int) strtol(s, NULL, 10)\<close>.\<close>

definition atoi :: "string \<Rightarrow> 32 word" where
  "atoi s = word_of_int (strtol10 s)"

text \<open>\<open>strtoul(s, NULL, 10)\<close>: saturates, and negates modulo \<open>2 ^ 64\<close> after a minus sign.\<close>

definition strtoul10 :: "string \<Rightarrow> 64 word" where
  "strtoul10 s =
     (case scan_signed s of (neg, m) \<Rightarrow>
        (if 2 ^ 64 \<le> m then - 1
         else if neg then - (word_of_nat m) else word_of_nat m))"

definition digit_char :: "nat \<Rightarrow> char" where
  "digit_char d = char_of (48 + d)"

fun dec_nat :: "nat \<Rightarrow> string" where
  "dec_nat n = (if n < 10 then [digit_char n] else dec_nat (n div 10) @ [digit_char (n mod 10)])"

declare dec_nat.simps [simp del]

definition dec_int :: "int \<Rightarrow> string" where
  "dec_int i = (if i < 0 then CHR ''-'' # dec_nat (nat (- i)) else dec_nat (nat i))"

lemma of_char_digit: "d < 10 \<Longrightarrow> of_char (digit_char d) = (48 + d :: nat)"
  by (simp add: digit_char_def)

lemma digit_char_props [simp]:
  "d < 10 \<Longrightarrow> isdigit (digit_char d)" "d < 10 \<Longrightarrow> digit_val (digit_char d) = d"
  by (simp_all add: isdigit_def digit_val_def of_char_digit)

lemma dec_val_append:
  "(\<And>c. c \<in> set s \<Longrightarrow> isdigit c) \<Longrightarrow> dec_val acc (s @ t) = dec_val (dec_val acc s) t"
  by (induction s arbitrary: acc) auto

lemma dec_nat_digits: "c \<in> set (dec_nat n) \<Longrightarrow> isdigit c"
proof (induction n arbitrary: c rule: dec_nat.induct)
  case (1 n)
  then show ?case
    by (subst (asm) (2) dec_nat.simps) (auto split: if_splits)
qed

lemma dec_val_dec_nat [simp]: "dec_val 0 (dec_nat n) = n"
proof (induction n rule: dec_nat.induct)
  case (1 n)
  show ?case
  proof (cases "n < 10")
    case True
    then show ?thesis by (simp add: dec_nat.simps [of n])
  next
    case False
    with 1 show ?thesis
      by (simp add: dec_nat.simps [of n] dec_val_append dec_nat_digits)
  qed
qed

lemma dec_nat_not_Nil [simp]: "dec_nat n \<noteq> []"
  by (simp add: dec_nat.simps [of n])

lemma not_isdigit_sign [simp]: "\<not> isdigit (CHR ''-'')" "\<not> isdigit (CHR ''+'')" "\<not> isdigit NUL"
  by (simp_all add: isdigit_def)

lemma scan_signed_dec_nat [simp]: "scan_signed (dec_nat n) = (False, n)"
proof -
  obtain c cs where d: "dec_nat n = c # cs"
    by (cases "dec_nat n") simp_all
  then have c: "isdigit c" using dec_nat_digits [of c n] by simp
  then have "c \<noteq> CHR ''-''" and "c \<noteq> CHR ''+''" and "\<not> isspace c" by auto
  with d show ?thesis
    using dec_val_dec_nat [of n] by (simp add: scan_signed_def)
qed

text \<open>Reading back what \<open>%d\<close> printed, as long as the value fits.\<close>

lemma strtol10_dec_nat: "n < 2 ^ 63 \<Longrightarrow> strtol10 (dec_nat n) = int n"
  by (simp add: strtol10_def)

lemma atoi_dec_nat: "n < 2 ^ 63 \<Longrightarrow> atoi (dec_nat n) = word_of_nat n"
  by (simp add: atoi_def strtol10_dec_nat)

lemma strtoul10_dec_nat: "n < 2 ^ 64 \<Longrightarrow> strtoul10 (dec_nat n) = word_of_nat n"
  by (simp add: strtoul10_def)

subsection \<open>Reading files line by line\<close>

abbreviation NL :: char where "NL \<equiv> CHR 0x0A"

text \<open>
  \<open>fgets(buf, n, f)\<close> on the unread part of a file: at most \<open>n - 1\<close> bytes, up to and including
  a newline, and what is left; \<open>None\<close> at the end. A file system gives for a path either the
  error number of \<open>fopen\<close> or the contents.
\<close>

definition fgets :: "nat \<Rightarrow> string \<Rightarrow> (string \<times> string) option" where
  "fgets n s =
     (if s = [] then None
      else let k = min (n - 1) (Suc (length (takeWhile (\<lambda>c. c \<noteq> NL) s)))
           in Some (take k s, drop k s))"

type_synonym fs = "string \<Rightarrow> int + string"

lemma fgets_None [simp]: "fgets n [] = None"
  by (simp add: fgets_def)

lemma fgets_shorter: "1 < n \<Longrightarrow> fgets n s = Some (line, rest) \<Longrightarrow> length rest < length s"
  by (auto simp: fgets_def Let_def split: if_splits)

lemma fgets_line:
  "1 < n \<Longrightarrow> fgets n s = Some (line, rest) \<Longrightarrow>
     line \<noteq> [] \<and> length line \<le> n - 1 \<and> s = line @ rest \<and> set line \<subseteq> set s \<and> set rest \<subseteq> set s"
  by (auto simp: fgets_def Let_def split: if_splits dest: in_set_takeD in_set_dropD)

end
