(* ===== verification/Helpers.thy ===== *)
theory Helpers
  imports CLib
begin

section \<open>String helpers of TeaBot (TeaBot/helpers.cpp, TeaBot/helpers.hpp)\<close>

text \<open>
  \<open>escapeshellarg\<close> writes a single-quoted copy of its argument into a block of memory,
  \<open>trim_len\<close> and \<open>trim_len_cpy\<close> strip blanks from a block in place, \<open>mock_string\<close>
  alternates the case of letters, and \<open>shell_exec\<close> runs a command through \<open>popen\<close>.
  Every write is checked against the size of the block. The meaning of quoting is fixed by
  \<open>sh_word\<close>, the reader of one word of the POSIX shell; the meaning of trimming by \<open>trimmed\<close>.
\<close>

subsection \<open>escapeshellarg\<close>

abbreviation Q :: char where "Q \<equiv> CHR 0x27"
abbreviation BS :: char where "BS \<equiv> CHR 0x5C"

text \<open>The loop over the argument; \<open>y\<close> is the next index to write.\<close>

fun esc_loop :: "char list \<Rightarrow> nat \<Rightarrow> char list \<Rightarrow> ub + (char list \<times> nat)" where
  "esc_loop cmd y [] = Inr (cmd, y)"
| "esc_loop cmd y (c # cs) =
     (if c = Q then
        ebind (poke cmd y Q) (\<lambda>cmd.
        ebind (poke cmd (y + 1) BS) (\<lambda>cmd.
        ebind (poke cmd (y + 2) Q) (\<lambda>cmd.
        ebind (poke cmd (y + 3) c) (\<lambda>cmd. esc_loop cmd (y + 4) cs))))
      else ebind (poke cmd y c) (\<lambda>cmd. esc_loop cmd (y + 1) cs))"

text \<open>
  \<open>alloc\<close> is a block and the index the destination pointer points to, or \<open>None\<close> for a
  null pointer, when a block of \<open>l * 4 + 1\<close> bytes is allocated (\<open>fill\<close> stands for its
  indeterminate contents). \<open>str\<close> is the source block. The result is the written block
  and \<open>*res_len\<close>.
\<close>

definition escapeshellarg ::
  "char \<Rightarrow> (char list \<times> nat) option \<Rightarrow> char list \<Rightarrow> nat \<Rightarrow> ub + (char list \<times> nat)" where
  "escapeshellarg fill alloc str len =
     ebind (if 0 < len then Inr len else c_strlen str) (\<lambda>l.
       if length str < l then Inl OutOfBounds
       else
         (case (case alloc of None \<Rightarrow> (replicate (l * 4 + 1) fill, 0) | Some a \<Rightarrow> a) of
            (cmd, base) \<Rightarrow>
              ebind (poke cmd base Q) (\<lambda>cmd.
              ebind (esc_loop cmd (base + 1) (take l str)) (\<lambda>(cmd, y).
              ebind (poke cmd y Q) (\<lambda>cmd.
              ebind (poke cmd (y + 1) NUL) (\<lambda>cmd. Inr (cmd, y + 1 - base)))))))"

text \<open>What the loop computes: the text it appends, and nothing else is changed.\<close>

definition esc_char :: "char \<Rightarrow> string" where
  "esc_char c = (if c = Q then [Q, BS, Q, Q] else [c])"

definition esc_text :: "string \<Rightarrow> string" where
  "esc_text s = Q # concat (map esc_char s) @ [Q]"

lemma esc_char_simps [simp]: "esc_char Q = [Q, BS, Q, Q]" "c \<noteq> Q \<Longrightarrow> esc_char c = [c]"
  by (simp_all add: esc_char_def)

text \<open>The loop is one copy of the escaped text.\<close>

lemma esc_loop_Cons:
  "esc_loop cmd y (c # cs) =
     ebind (blit cmd y (esc_char c)) (\<lambda>b. esc_loop b (y + length (esc_char c)) cs)"
proof (cases "c = Q")
  case True
  have "poke cmd i x = blit cmd i [x]" for cmd :: "char list" and i x by (rule poke_eq_blit)
  with True show ?thesis
    by (simp add: blit_blit_bind eval_nat_numeral)
next
  case False
  then show ?thesis by (simp add: poke_eq_blit)
qed

lemma esc_loop_eq:
  "y \<le> length cmd \<Longrightarrow>
   esc_loop cmd y s =
     ebind (blit cmd y (concat (map esc_char s)))
       (\<lambda>b. Inr (b, y + length (concat (map esc_char s))))"
proof (induction s arbitrary: cmd y)
  case Nil
  then show ?case by simp
next
  case (Cons c cs)
  let ?r = "concat (map esc_char cs)" and ?e = "esc_char c"
  have "esc_loop cmd y (c # cs) =
        ebind (blit cmd y ?e) (\<lambda>b. esc_loop b (y + length ?e) cs)"
    by (rule esc_loop_Cons)
  also have "\<dots> = ebind (blit cmd y ?e) (\<lambda>b. ebind (blit b (y + length ?e) ?r)
                    (\<lambda>b. Inr (b, y + length ?e + length ?r)))"
    by (rule ebind_cong, rule Cons.IH) (auto simp: blit_def split: if_splits)
  finally show ?case
    by (simp add: blit_blit_bind add.assoc)
qed

text \<open>
  \<open>escapeshellarg\<close> is one copy of \<open>esc_text\<close> and a terminator, when the source is long
  enough; the result length leaves the terminator out.
\<close>

definition esc_dest :: "char \<Rightarrow> (char list \<times> nat) option \<Rightarrow> nat \<Rightarrow> char list \<times> nat" where
  "esc_dest fill alloc l = (case alloc of None \<Rightarrow> (replicate (l * 4 + 1) fill, 0) | Some a \<Rightarrow> a)"

lemma escapeshellarg_eq:
  assumes l: "(if 0 < len then Inr len else c_strlen str) = Inr l" and "l \<le> length str"
    and d: "esc_dest fill alloc l = (cmd, base)"
  shows "escapeshellarg fill alloc str len =
    ebind (blit cmd base (esc_text (take l str) @ [NUL]))
      (\<lambda>b. Inr (b, length (esc_text (take l str))))"
proof -
  let ?b = "concat (map esc_char (take l str))"
  have "escapeshellarg fill alloc str len =
      ebind (poke cmd base Q) (\<lambda>cmd. ebind (esc_loop cmd (base + 1) (take l str)) (\<lambda>(cmd, y).
        ebind (poke cmd y Q) (\<lambda>cmd. ebind (poke cmd (y + 1) NUL) (\<lambda>cmd. Inr (cmd, y + 1 - base)))))"
    using assms by (simp add: escapeshellarg_def esc_dest_def)
  also have "\<dots> = ebind (poke cmd base Q) (\<lambda>cmd.
      ebind (ebind (blit cmd (Suc base) ?b) (\<lambda>b. Inr (b, Suc base + length ?b))) (\<lambda>(cmd, y).
        ebind (poke cmd y Q) (\<lambda>cmd. ebind (poke cmd (y + 1) NUL) (\<lambda>cmd. Inr (cmd, y + 1 - base)))))"
    by (rule ebind_cong) (auto simp: esc_loop_eq poke_def split: if_splits)
  also have "\<dots> = ebind (blit cmd base (esc_text (take l str) @ [NUL]))
      (\<lambda>b. Inr (b, length (esc_text (take l str))))"
    by (simp add: ebind_assoc poke_eq_blit blit_blit_bind esc_text_def)
  finally show ?thesis .
qed


subsection \<open>How much room the escaped text needs\<close>

definition quotes :: "string \<Rightarrow> nat" where
  "quotes s = length (filter (\<lambda>c. c = Q) s)"

lemma length_esc_body: "length (concat (map esc_char s)) = length s + 3 * quotes s"
  by (induction s) (auto simp: quotes_def esc_char_def)

lemma length_esc_text: "length (esc_text s) = length s + 3 * quotes s + 2"
  by (simp add: esc_text_def length_esc_body)

lemma quotes_le: "quotes s \<le> length s"
  by (simp add: quotes_def)

lemma quotes_eq_length: "quotes s = length s \<longleftrightarrow> set s \<subseteq> {Q}"
proof (induction s)
  case (Cons c s)
  have "quotes (c # s) = (if c = Q then Suc (quotes s) else quotes s)"
    by (simp add: quotes_def)
  with Cons quotes_le [of s] show ?case by auto
qed (simp add: quotes_def)

lemma esc_text_no_nul: "NUL \<notin> set s \<Longrightarrow> NUL \<notin> set (esc_text s)"
  by (auto simp: esc_text_def esc_char_def split: if_splits)

subsection \<open>Reading a word of the shell\<close>

text \<open>
  The POSIX shell reads a word character by character: between single quotes every character
  stands for itself; outside, a backslash quotes the next character, an operator character
  or a blank ends the word. Characters that would start an expansion or another kind of
  quoting give \<open>None\<close>, as does a quote that is never closed: \<open>Some (w, rest)\<close> therefore says
  that the word is \<open>w\<close>, literally, and that \<open>rest\<close> follows.
\<close>

definition sh_meta :: "char \<Rightarrow> bool" where
  "sh_meta c \<longleftrightarrow> c \<in> set '' |&;<>()'' \<or> c = CHR 0x09 \<or> c = CHR 0x0A"

definition sh_special :: "char \<Rightarrow> bool" where
  "sh_special c \<longleftrightarrow> c \<in> set ''$*?[#~{}!=%'' \<or> c = CHR 0x22 \<or> c = CHR 0x60"

definition sh_push :: "char \<Rightarrow> (string \<times> string) option \<Rightarrow> (string \<times> string) option" where
  "sh_push c r = map_option (apfst (Cons c)) r"

fun sh_word :: "bool \<Rightarrow> string \<Rightarrow> (string \<times> string) option" where
  "sh_word True [] = None"
| "sh_word True (c # cs) = (if c = Q then sh_word False cs else sh_push c (sh_word True cs))"
| "sh_word False [] = Some ([], [])"
| "sh_word False (c # cs) =
     (if c = Q then sh_word True cs
      else if c = BS then
        (case cs of
           [] \<Rightarrow> None
         | d # ds \<Rightarrow> (if d = CHR 0x0A then None else sh_push d (sh_word False ds)))
      else if sh_special c then None
      else if sh_meta c then Some ([], c # cs)
      else sh_push c (sh_word False cs))"

definition ends_word :: "string \<Rightarrow> bool" where
  "ends_word rest \<longleftrightarrow> (case rest of [] \<Rightarrow> True | c # _ \<Rightarrow> sh_meta c)"

lemma sh_meta_plain: "sh_meta c \<Longrightarrow> c \<noteq> Q \<and> c \<noteq> BS \<and> \<not> sh_special c"
  by (auto simp: sh_meta_def sh_special_def)

lemma sh_word_end: "ends_word rest \<Longrightarrow> sh_word False rest = Some ([], rest)"
  by (cases rest) (auto simp: ends_word_def dest: sh_meta_plain)

lemma sh_word_quoted_body:
  "sh_word True (concat (map esc_char s) @ Q # rest) =
     map_option (apfst ((@) s)) (sh_word False rest)"
proof (induction s)
  case Nil
  then show ?case by (cases "sh_word False rest") auto
next
  case (Cons c cs)
  then show ?case
    by (cases "sh_word False rest") (auto simp: sh_push_def esc_char_def)
qed

lemma sh_word_esc_text:
  "ends_word rest \<Longrightarrow> sh_word False (esc_text s @ rest) = Some (s, rest)"
  by (simp add: esc_text_def sh_word_quoted_body sh_word_end)

subsection \<open>tolower, toupper and mock_string\<close>

text \<open>\<open>char\<close> is signed in the source: bytes above 127 are negative there and in no letter range.\<close>

definition tolower :: "char \<Rightarrow> char" where
  "tolower x = (if 65 \<le> (of_char x :: nat) \<and> (of_char x :: nat) \<le> 90
                then char_of ((of_char x :: nat) + 32) else x)"

definition toupper :: "char \<Rightarrow> char" where
  "toupper x = (if 97 \<le> (of_char x :: nat) \<and> (of_char x :: nat) \<le> 122
                then char_of ((of_char x :: nat) - 32) else x)"

fun mock_loop :: "bool \<Rightarrow> string \<Rightarrow> string" where
  "mock_loop c [] = []"
| "mock_loop c (x # xs) = (if c then tolower x else toupper x) # mock_loop (\<not> c) xs"

definition mock_string :: "string \<Rightarrow> string" where
  "mock_string s = mock_loop True s"

lemma of_char_upd: "n < 256 \<Longrightarrow> of_char (char_of n :: char) = (n :: nat)"
  by simp

lemma case_idem [simp]:
  "tolower (tolower x) = tolower x" "toupper (toupper x) = toupper x"
  "tolower (toupper x) = tolower x" "toupper (tolower x) = toupper x"
  by (auto simp: tolower_def toupper_def)

lemma length_mock_loop [simp]: "length (mock_loop c s) = length s"
  by (induction s arbitrary: c) auto

lemma mock_loop_nth:
  "i < length s \<Longrightarrow>
     mock_loop c s ! i = (if even i = c then tolower (s ! i) else toupper (s ! i))"
proof (induction s arbitrary: c i)
  case (Cons x xs)
  then show ?case by (cases i) auto
qed simp

subsection \<open>trim_len and trim_len_cpy\<close>

definition is_trim :: "char \<Rightarrow> bool" where
  "is_trim c \<longleftrightarrow> c = CHR '' '' \<or> c = CHR 0x0A \<or> c = CHR 0x0D \<or> c = CHR 0x0B"

text \<open>The first loop moves \<open>head\<close> over blanks, the second moves \<open>tail\<close> back over blanks.\<close>

fun trim_head :: "char list \<Rightarrow> nat \<Rightarrow> nat \<Rightarrow> ub + (nat \<times> nat)" where
  "trim_head buf head 0 = Inr (head, 0)"
| "trim_head buf head (Suc len) =
     ebind (peek buf head) (\<lambda>c.
       if is_trim c then trim_head buf (Suc head) len else Inr (head, Suc len))"

text \<open>\<open>tail\<close> is an integer: with \<open>len = 0\<close> it points before the block and is not read.\<close>

definition peek_int :: "char list \<Rightarrow> int \<Rightarrow> ub + char" where
  "peek_int buf i = (if 0 \<le> i then peek buf (nat i) else Inl OutOfBounds)"

fun trim_tail :: "char list \<Rightarrow> int \<Rightarrow> nat \<Rightarrow> bool \<Rightarrow> ub + (int \<times> nat \<times> bool)" where
  "trim_tail buf tail 0 move_t = Inr (tail, 0, move_t)"
| "trim_tail buf tail (Suc len) move_t =
     ebind (peek_int buf tail) (\<lambda>c.
       if is_trim c then trim_tail buf (tail - 1) len True
       else Inr (tail, Suc len, move_t))"

text \<open>The result: the block, the index of the returned pointer and \<open>*res_len\<close>.\<close>

definition trim_len :: "char list \<Rightarrow> nat \<Rightarrow> nat \<Rightarrow> ub + (char list \<times> nat \<times> nat)" where
  "trim_len buf head len =
     ebind (trim_head buf head len) (\<lambda>(h, n).
     ebind (trim_tail buf (int head + int len - 1) n False) (\<lambda>(t, n, move_t).
     ebind (if 0 < n \<and> move_t then poke buf (nat (t + 1)) NUL else Inr buf) (\<lambda>buf.
       Inr (buf, h, n))))"

definition trim_len_cpy :: "char list \<Rightarrow> nat \<Rightarrow> nat \<Rightarrow> ub + (char list \<times> nat \<times> nat)" where
  "trim_len_cpy buf start len =
     ebind (trim_head buf start len) (\<lambda>(h, n).
     ebind (trim_tail buf (int start + int len - 1) n False) (\<lambda>(t, n, _).
     ebind (if start < h
            then ebind (if 0 < n then blit buf start (take n (drop h buf)) else Inr buf)
                   (\<lambda>buf. poke buf (start + n) NUL)
            else Inr buf) (\<lambda>buf.
       Inr (buf, start, n))))"

text \<open>\<open>trim\<close> and \<open>trim_cpy\<close>: the length is that of the C string.\<close>

definition trim :: "char list \<Rightarrow> ub + (char list \<times> nat \<times> nat)" where
  "trim buf = ebind (c_strlen buf) (trim_len buf 0)"

definition trim_cpy :: "char list \<Rightarrow> ub + (char list \<times> nat \<times> nat)" where
  "trim_cpy buf = ebind (c_strlen buf) (trim_len_cpy buf 0)"

text \<open>The text without its leading and trailing blanks.\<close>

definition trimmed :: "string \<Rightarrow> string" where
  "trimmed s = rev (dropWhile is_trim (rev (dropWhile is_trim s)))"

text \<open>The bytes \<open>head, \<dots>, head + len - 1\<close> of a block.\<close>

definition region :: "char list \<Rightarrow> nat \<Rightarrow> nat \<Rightarrow> string" where
  "region buf head len = take len (drop head buf)"

lemma length_region [simp]: "head + len \<le> length buf \<Longrightarrow> length (region buf head len) = len"
  by (simp add: region_def)

lemma region_0 [simp]: "region buf head 0 = []"
  by (simp add: region_def)

lemma region_Suc:
  "head < length buf \<Longrightarrow> region buf head (Suc len) = buf ! head # region buf (Suc head) len"
  by (simp add: region_def Cons_nth_drop_Suc [symmetric])

lemma region_snoc:
  "head + len < length buf \<Longrightarrow> region buf head (Suc len) = region buf head len @ [buf ! (head + len)]"
  by (simp add: region_def take_Suc_conv_app_nth)

lemma trim_head_eq:
  "head + len \<le> length buf \<Longrightarrow>
   trim_head buf head len =
     Inr (head + length (takeWhile is_trim (region buf head len)),
          length (dropWhile is_trim (region buf head len)))"
  by (induction buf head len rule: trim_head.induct)
     (auto simp: region_Suc buf_simps)

lemma trim_tail_eq:
  "head + len \<le> length buf \<Longrightarrow>
   trim_tail buf (int head + int len - 1) len move_t =
     (let k = length (dropWhile is_trim (rev (region buf head len)))
      in Inr (int head + int k - 1, k, move_t \<or> k < len))"
proof (induction len arbitrary: move_t)
  case 0
  then show ?case by (simp add: region_def)
next
  case (Suc len)
  let ?c = "buf ! (head + len)" and ?k = "length (dropWhile is_trim (rev (region buf head len)))"
  have p: "peek_int buf (int head + int (Suc len) - 1) = Inr ?c"
    using Suc.prems by (simp add: peek_int_def buf_simps nat_int_add)
  have r: "rev (region buf head (Suc len)) = ?c # rev (region buf head len)"
    using Suc.prems by (simp add: region_snoc)
  have k: "?k \<le> len"
    using Suc.prems length_dropWhile_le [of is_trim "rev (region buf head len)"] by simp
  show ?case
  proof (cases "is_trim ?c")
    case True
    with p have "trim_tail buf (int head + int (Suc len) - 1) (Suc len) move_t =
                 trim_tail buf (int head + int len - 1) len True"
      by simp
    also have "\<dots> = Inr (int head + int ?k - 1, ?k, True)"
      using Suc.IH [of True] Suc.prems by (simp add: Let_def)
    finally show ?thesis using True r k by (simp add: Let_def)
  next
    case False
    with p r Suc.prems show ?thesis by (simp add: Let_def)
  qed
qed

text \<open>After the first loop, the second one works on what the first left.\<close>

lemma region_dropWhile:
  assumes "head + len \<le> length buf"
  shows "region buf (head + length (takeWhile P (region buf head len)))
           (length (dropWhile P (region buf head len))) = dropWhile P (region buf head len)"
proof -
  let ?r = "region buf head len" and ?t = "length (takeWhile P (region buf head len))"
  have l: "?t + length (dropWhile P ?r) = len"
    using assms by (metis length_append length_region takeWhile_dropWhile_id)
  have "region buf (head + ?t) (length (dropWhile P ?r)) = drop ?t ?r"
    using l by (simp add: region_def drop_take add.commute [of head]) (metis add_diff_cancel_left')
  also have "\<dots> = dropWhile P ?r"
    by (rule dropWhile_eq_drop [symmetric])
  finally show ?thesis .
qed

lemma trim_loops:
  assumes "head + len \<le> length buf"
  defines "r \<equiv> region buf head len"
  defines "h \<equiv> head + length (takeWhile is_trim r)" and "m \<equiv> length (dropWhile is_trim r)"
  shows "trim_head buf head len = Inr (h, m)" and "h + m = head + len"
    and "trim_tail buf (int head + int len - 1) m mv =
           Inr (int h + int (length (trimmed r)) - 1, length (trimmed r),
                mv \<or> length (trimmed r) < m)"
    and "region buf h m = dropWhile is_trim r"
proof -
  show "trim_head buf head len = Inr (h, m)"
    using assms by (simp add: trim_head_eq)
  have "length (takeWhile is_trim r) + m = len"
    using assms(1) unfolding m_def r_def
    by (metis length_append length_region takeWhile_dropWhile_id)
  then show hm: "h + m = head + len" by (simp add: h_def)
  show rg: "region buf h m = dropWhile is_trim r"
    using region_dropWhile [OF assms(1)] by (simp add: r_def h_def m_def)
  have eq: "int head + int len - 1 = int h + int m - 1"
    using hm by linarith
  show "trim_tail buf (int head + int len - 1) m mv =
      Inr (int h + int (length (trimmed r)) - 1, length (trimmed r), mv \<or> length (trimmed r) < m)"
    unfolding eq using trim_tail_eq [of h m buf mv] hm assms(1)
    by (simp add: Let_def rg trimmed_def)
qed

lemma trimmed_split:
  "\<exists>pre post. s = pre @ trimmed s @ post \<and> pre = takeWhile is_trim s \<and>
     (\<forall>c\<in>set post. is_trim c)"
proof -
  let ?d = "dropWhile is_trim s"
  have "?d = rev (dropWhile is_trim (rev ?d)) @ rev (takeWhile is_trim (rev ?d))"
    by (metis rev_append rev_rev_ident takeWhile_dropWhile_id)
  then have "s = takeWhile is_trim s @ trimmed s @ rev (takeWhile is_trim (rev ?d))"
    unfolding trimmed_def by (metis takeWhile_dropWhile_id)
  moreover have "\<forall>c\<in>set (rev (takeWhile is_trim (rev ?d))). is_trim c"
    by (auto dest: set_takeWhileD)
  ultimately show ?thesis by blast
qed

lemma region_take: "k \<le> m \<Longrightarrow> region buf h k = take k (region buf h m)"
  by (simp add: region_def min_absorb1)

lemma region_update_after: "region (buf[h + k := c]) h k = region buf h k"
  by (simp add: region_def drop_update_swap)

lemma length_trimmed_le: "length (trimmed s) \<le> length (dropWhile is_trim s)"
  unfolding trimmed_def by (metis length_dropWhile_le length_rev)

lemma take_trimmed: "take (length (trimmed s)) (dropWhile is_trim s) = trimmed s"
proof -
  obtain pre post where "s = pre @ trimmed s @ post" and "pre = takeWhile is_trim s"
    using trimmed_split by blast
  then have "dropWhile is_trim s = trimmed s @ post"
    by (metis same_append_eq takeWhile_dropWhile_id)
  then show ?thesis by simp
qed

text \<open>
  The block after \<open>trim_len\<close>: unchanged but for one terminator right after the trimmed
  text, and that only when trailing blanks were cut.
\<close>

lemma trim_len_result:
  assumes "head + len \<le> length buf"
  defines "r \<equiv> region buf head len"
  defines "h \<equiv> head + length (takeWhile is_trim r)" and "k \<equiv> length (trimmed r)"
  shows "trim_len buf head len =
      Inr (if 0 < k \<and> k < length (dropWhile is_trim r) then buf[h + k := NUL] else buf, h, k)"
    and "h + k \<le> head + len" and "region buf h k = trimmed r"
proof -
  let ?m = "length (dropWhile is_trim r)"
  have L: "trim_head buf head len = Inr (h, ?m)" "h + ?m = head + len"
    "trim_tail buf (int head + int len - 1) ?m False = Inr (int h + int k - 1, k, k < ?m)"
    "region buf h ?m = dropWhile is_trim r"
    using trim_loops(1,2,4) [OF assms(1)] trim_loops(3) [OF assms(1), where mv = False]
    by (simp_all add: r_def h_def k_def)
  have k: "k \<le> ?m" using length_trimmed_le by (simp add: k_def)
  with L(2) show hk: "h + k \<le> head + len" by linarith
  show "region buf h k = trimmed r"
    using region_take [OF k, of buf h] L(4) take_trimmed [of r] by (simp add: k_def)
  have idx: "nat (int h + int k) = h + k" by simp
  have "k < ?m \<Longrightarrow> h + k < length buf" using L(2) assms(1) by linarith
  with L(1,3) show "trim_len buf head len =
      Inr (if 0 < k \<and> k < ?m then buf[h + k := NUL] else buf, h, k)"
    unfolding trim_len_def by (simp add: idx buf_simps del: of_nat_add split: if_splits)
qed

lemma trim_len_cpy_result:
  assumes "start + len \<le> length buf"
  defines "r \<equiv> region buf start len"
  shows "\<not> (r \<noteq> [] \<and> is_trim (hd r)) \<Longrightarrow>
      trim_len_cpy buf start len = Inr (buf, start, length (trimmed r))"
    and "r \<noteq> [] \<Longrightarrow> is_trim (hd r) \<Longrightarrow>
      trim_len_cpy buf start len =
        Inr (take start buf @ trimmed r @ NUL # drop (start + length (trimmed r) + 1) buf,
             start, length (trimmed r))"
proof -
  let ?h = "start + length (takeWhile is_trim r)" and ?m = "length (dropWhile is_trim r)"
    and ?k = "length (trimmed r)"
  have L: "trim_head buf start len = Inr (?h, ?m)" "?h + ?m = start + len"
    "trim_tail buf (int start + int len - 1) ?m False = Inr (int ?h + int ?k - 1, ?k, ?k < ?m)"
    using trim_loops(1,2) [OF assms(1)] trim_loops(3) [OF assms(1), where mv = False]
    by (simp_all add: r_def)
  note R = trim_len_result(2,3) [OF assms(1), folded r_def]
  { assume "\<not> (r \<noteq> [] \<and> is_trim (hd r))"
    then have "takeWhile is_trim r = []" by (cases r) auto
    with L(1,3) show "trim_len_cpy buf start len = Inr (buf, start, ?k)"
      unfolding trim_len_cpy_def by simp }
  { assume "r \<noteq> []" and "is_trim (hd r)"
    then have pos: "0 < length (takeWhile is_trim r)" by (cases r) auto
    let ?b = "take start buf @ trimmed r @ drop (start + ?k) buf"
    have fit: "start + ?k < length buf" using pos R(1) assms(1) by linarith
    have cp: "(if 0 < ?k then blit buf start (take ?k (drop ?h buf)) else Inr buf) = Inr ?b"
      using R(2) fit by (auto simp: region_def blit_def)
    have "?b[start + ?k := NUL] = take start buf @ trimmed r @ NUL # drop (Suc (start + ?k)) buf"
      using fit by (simp add: list_update_append min_absorb2 Cons_nth_drop_Suc [symmetric])
    moreover have "start + ?k < length ?b" using fit by simp
    ultimately have "poke ?b (start + ?k) NUL =
        Inr (take start buf @ trimmed r @ NUL # drop (Suc (start + ?k)) buf)"
      by (simp add: poke_def)
    with L(1,3) pos cp show "trim_len_cpy buf start len =
        Inr (take start buf @ trimmed r @ NUL # drop (start + ?k + 1) buf, start, ?k)"
      unfolding trim_len_cpy_def by (simp del: append_assoc)  }
qed

subsection \<open>shell_exec\<close>

text \<open>
  What \<open>popen\<close> and the child process give: an error (with the text of \<open>strerror\<close>) or the
  bytes the child writes. \<open>fread\<close> takes at most the size of the output array, 8096 bytes.
\<close>

datatype popen_result = PopenError string | PopenOutput string

definition out_size :: nat where "out_size = 8096"

definition shell_exec :: "char \<Rightarrow> popen_result \<Rightarrow> ub + string" where
  "shell_exec fill res =
     (let out = replicate out_size fill in
      case res of
        PopenError msg \<Rightarrow>
          ebind (blit out 0 ''Error: '') (\<lambda>out.
          ebind (blit out 7 (strncpy_bytes msg (out_size - 8))) (\<lambda>out.
          ebind (c_strlen (drop 7 out)) (\<lambda>n. Inr (take (7 + n) out))))
      | PopenOutput bytes \<Rightarrow>
          ebind (blit out 0 (take out_size bytes)) (\<lambda>out.
          ebind (trim_len out 0 (length (take out_size bytes))) (\<lambda>(out, outret, outlen).
            Inr (if outlen = 0 then ''~'' else take outlen (drop outret out)))))"

lemma shell_exec_output:
  "shell_exec fill (PopenOutput bytes) =
     Inr (if trimmed (take out_size bytes) = [] then ''~'' else trimmed (take out_size bytes))"
proof -
  let ?o = "take out_size bytes" and ?l = "length (take out_size bytes)"
  let ?b = "?o @ drop ?l (replicate out_size fill)"
  have b: "blit (replicate out_size fill) 0 ?o = Inr ?b"
    by (simp add: blit_def)
  have r: "region ?b 0 ?l = ?o" by (simp add: region_def min_def)
  have fit: "0 + ?l \<le> length ?b" by simp
  note T = trim_len_result [OF fit, unfolded r]
  show ?thesis
    using b T(1,3) region_update_after [of ?b "0 + length (takeWhile is_trim ?o)"
        "length (trimmed ?o)" NUL]
    unfolding shell_exec_def Let_def region_def
    by (simp split: if_splits)
qed

subsection \<open>Properties\<close>

lemma escapeshellarg_block:
  assumes "escapeshellarg fill (Some (blk, off)) str len = Inr (b, n)" and "0 < len"
  shows "len \<le> length str \<and> n = length (esc_text (take len str)) \<and>
    blit blk off (esc_text (take len str) @ [NUL]) = Inr b"
proof -
  have "len \<le> length str"
    using assms by (auto simp: escapeshellarg_def split: if_splits)
  with assms escapeshellarg_eq [where l = len and cmd = blk and base = off]
  show ?thesis by (auto simp: esc_dest_def ebind_eq_Inr)
qed

lemma region_blit:
  assumes "blit blk off src = Inr b"
  shows "region b off (length src) = src"
  using assms by (auto simp: blit_def region_def split: if_splits)

lemma escapeshellarg_region:
  assumes "escapeshellarg fill (Some (blk, off)) str len = Inr (b, n)" and "0 < len"
  shows "region b off n = esc_text (take len str)" and "region b off (Suc n) = esc_text (take len str) @ [NUL]"
proof -
  note B = escapeshellarg_block [OF assms]
  then show r: "region b off (Suc n) = esc_text (take len str) @ [NUL]"
    using region_blit [of blk off "esc_text (take len str) @ [NUL]" b] by simp
  then show "region b off n = esc_text (take len str)"
    using B region_take [of n "Suc n" b off] by simp
qed

text \<open>
  C3: Whatever bytes the argument holds, the shell reads the text written by
  \<open>escapeshellarg\<close>, followed by a blank, an operator or the end of the line, as exactly one
  word, and that word is the argument: nothing in it is interpreted, and nothing after it is
  swallowed.
\<close>

theorem escapeshellarg_one_word:
  assumes "escapeshellarg fill (Some (blk, off)) str len = Inr (b, n)" and "0 < len"
    and "ends_word rest"
  shows "sh_word False (region b off n @ rest) = Some (take len str, rest)"
  using escapeshellarg_region(1) [OF assms(1,2)] assms(3) by (simp add: sh_word_esc_text)

theorem escapeshellarg_one_word_witness:
  "sh_word False ([Q, CHR ''a'', Q, BS, Q, Q, CHR '';'', CHR ''b'', Q] @ '' 2>&1'') =
     Some ([CHR ''a'', Q, CHR '';'', CHR ''b''], '' 2>&1'')"
proof -
  let ?w = "[Q, CHR ''a'', Q, BS, Q, Q, CHR '';'', CHR ''b'', Q]"
    and ?str = "[CHR ''a'', Q, CHR '';'', CHR ''b'', NUL]"
  have h: "escapeshellarg NUL (Some (replicate 12 NUL, 0)) ?str 4 = Inr (?w @ [NUL, NUL, NUL], 9)"
    by code_simp
  have r: "region (?w @ [NUL, NUL, NUL]) 0 9 = ?w" by code_simp
  have e: "ends_word '' 2>&1''" by code_simp
  show ?thesis using escapeshellarg_one_word [OF h _ e] unfolding r by simp
qed

text \<open>
  C24: The block that \<open>escapeshellarg\<close> allocates itself, \<open>l * 4 + 1\<close> bytes, is too small
  exactly when every byte of the argument is a quote, and in particular for the empty
  argument: the two enclosing quotes and the terminator need up to two bytes more.
\<close>

theorem escapeshellarg_own_block_overflow:
  assumes "NUL \<notin> set s"
  shows "escapeshellarg fill None (s @ [NUL]) (length s) = Inl OutOfBounds \<longleftrightarrow> set s \<subseteq> {Q}"
proof -
  let ?l = "length s"
  have l: "(if 0 < ?l then Inr ?l else c_strlen (s @ [NUL])) = Inr ?l"
    by (auto simp: c_strlen_def has_nul_def cstr_def)
  have d: "esc_dest fill None ?l = (replicate (?l * 4 + 1) fill, 0)"
    by (simp add: esc_dest_def)
  have "escapeshellarg fill None (s @ [NUL]) ?l =
      ebind (blit (replicate (?l * 4 + 1) fill) 0 (esc_text s @ [NUL]))
        (\<lambda>b. Inr (b, length (esc_text s)))"
    using escapeshellarg_eq [OF l _ d] by simp
  also have "\<dots> = Inl OutOfBounds \<longleftrightarrow> ?l * 4 + 1 < ?l + 3 * quotes s + 3"
    by (simp add: blit_def length_esc_text)
  also have "\<dots> \<longleftrightarrow> quotes s = ?l"
    using quotes_le [of s] by linarith
  finally show ?thesis by (simp add: quotes_eq_length)
qed

theorem escapeshellarg_own_block_overflow_witness:
  "escapeshellarg NUL None ([Q, Q] @ [NUL]) 2 = Inl OutOfBounds \<and>
   escapeshellarg NUL None ([Q, CHR ''s''] @ [NUL]) 2 \<noteq> Inl OutOfBounds"
  using escapeshellarg_own_block_overflow [of "[Q, Q]" NUL]
    escapeshellarg_own_block_overflow [of "[Q, CHR ''s'']" NUL] by (simp add: numeral_2_eq_2)

text \<open>
  \<open>trim_len\<close> stays inside its block, returns the position and length of the text without
  leading and trailing blanks, leaves that text in place, and changes no byte outside the
  given range.
\<close>

theorem trim_len_trims:
  assumes "head + len \<le> length buf"
  shows "\<exists>buf' h. trim_len buf head len = Inr (buf', h, length (trimmed (region buf head len))) \<and>
    region buf' h (length (trimmed (region buf head len))) = trimmed (region buf head len) \<and>
    length buf' = length buf \<and> head \<le> h \<and>
    take head buf' = take head buf \<and> drop (head + len) buf' = drop (head + len) buf"
proof -
  let ?r = "region buf head len" and ?k = "length (trimmed (region buf head len))"
  let ?h = "head + length (takeWhile is_trim ?r)" and ?m = "length (dropWhile is_trim ?r)"
  note T = trim_len_result [OF assms]
  have "?h + ?m = head + len"
    using assms by (metis add.assoc length_append length_region takeWhile_dropWhile_id)
  then have "?k < ?m \<Longrightarrow> drop (head + len) (buf[?h + ?k := NUL]) = drop (head + len) buf"
    by simp
  moreover have "take head (buf[?h + ?k := NUL]) = take head buf" by simp
  ultimately show ?thesis
    using T region_update_after [of buf ?h ?k NUL]
    by (intro exI conjI, simp) (auto simp: T(3) region_update_after)
qed

theorem trim_len_trims_witness:
  "\<exists>buf' h. trim_len ''  hi  '' 0 6 = Inr (buf', h, 2) \<and> region buf' h 2 = ''hi''"
proof -
  have r: "region ''  hi  '' 0 6 = ''  hi  ''" by code_simp
  have t: "trimmed ''  hi  '' = ''hi''" by code_simp
  have f: "0 + 6 \<le> length ''  hi  ''" by simp
  show ?thesis using trim_len_trims [OF f] unfolding r t by (auto simp: numeral_2_eq_2)
qed

text \<open>
  \<open>trim_len_cpy\<close> on a text without a leading blank writes nothing at all, so the C string
  keeps its trailing blanks although the returned length leaves them out (and \<open>trim_cpy\<close>
  passes no place for that length).
\<close>

theorem trim_cpy_keeps_trailing:
  assumes "NUL \<notin> set s" and "s = [] \<or> \<not> is_trim (hd s)"
  shows "trim_cpy (s @ [NUL]) = Inr (s @ [NUL], 0, length (trimmed s))"
proof -
  have n: "c_strlen (s @ [NUL]) = Inr (length s)"
    using assms(1) by (simp add: c_strlen_def has_nul_def)
  have r: "region (s @ [NUL]) 0 (length s) = s" by (simp add: region_def)
  have f: "0 + length s \<le> length (s @ [NUL])" by simp
  show ?thesis
    using n trim_len_cpy_result(1) [OF f, unfolded r] assms(2) by (auto simp: trim_cpy_def)
qed

theorem trim_cpy_keeps_trailing_witness:
  "trim_cpy (''ok  '' @ [NUL]) = Inr (''ok  '' @ [NUL], 0, length (trimmed ''ok  ''))"
  by (rule trim_cpy_keeps_trailing) (simp_all add: is_trim_def)

text \<open>
  \<open>mock_string\<close> keeps the length and gives lower case at even and upper case at odd
  positions, whatever the case was before (so applying it twice changes nothing more).
\<close>

theorem mock_string_alternates:
  "length (mock_string s) = length s \<and>
   (i < length s \<longrightarrow> mock_string s ! i = (if even i then tolower (s ! i) else toupper (s ! i))) \<and>
   mock_string (mock_string s) = mock_string s"
proof -
  have "mock_loop c (mock_loop c s) = mock_loop c s" for c
    by (induction s arbitrary: c) auto
  then show ?thesis by (simp add: mock_string_def mock_loop_nth)
qed

theorem mock_string_alternates_witness:
  "mock_string ''hello'' ! 1 = CHR ''E''"
proof -
  have t: "toupper (CHR ''e'') = CHR ''E''" by code_simp
  show ?thesis using mock_string_alternates [of "''hello''" 1] by (simp add: t)
qed

end
