(* ===== verification/TdApi.thy ===== *)
theory TdApi
  imports Prelude
begin

section \<open>The TDLib objects the program exchanges\<close>

text \<open>
  The generated classes of \<open>td_api\<close> are not part of the repository; the program reads and
  writes their fields. This theory names the objects, updates and functions that appear in
  the source, with the fields the source uses, and nothing of what TDLib does with them.
  Signed identifiers and sizes are \<open>int\<close>; a constructor named \<open>\<dots>Other\<close> stands for every
  object the source does not name (the catch-all branch of its \<open>downcast_call\<close>s).
\<close>

datatype auth_state =
    AuthWaitTdlibParameters
  | AuthWaitEncryptionKey
  | AuthWaitPhoneNumber
  | AuthWaitOtherDeviceConfirmation string
  | AuthWaitCode
  | AuthWaitRegistration
  | AuthWaitPassword
  | AuthReady
  | AuthLoggingOut
  | AuthClosing
  | AuthClosed
  | AuthOther

record user =
  u_id :: int
  u_username :: string
  u_first_name :: string
  u_last_name :: string

record chat =
  c_id :: int
  c_title :: string

record chats =
  cs_total_count :: int
  cs_chat_ids :: "int list"

record td_file =
  f_id :: int
  f_size :: int
  f_path :: string
  f_downloaded_size :: int
  f_remote_id :: string
  f_unique_id :: string

datatype entity_type = EntityBold | EntityPreCode | EntityOther string

datatype text_entity = TextEntity int int entity_type

record formatted_text =
  ft_text :: string
  ft_entities :: "text_entity list"

datatype message_content =
    MessageText formatted_text
  | MessagePhoto formatted_text "td_file list"
  | MessageVideo formatted_text td_file
  | MessageSticker string td_file
  | MessageAnimation formatted_text td_file
  | MessageDocument formatted_text td_file
  | MessageAudio formatted_text td_file
  | MessageChatJoinByLink
  | MessageOther

datatype message_sender = SenderUser int | SenderChat int

datatype forward_origin =
    OriginUser int
  | OriginHiddenUser string
  | OriginChannel string
  | OriginChat int string
  | OriginOther

record forward_info =
  fwd_origin :: forward_origin
  fwd_date :: int
  fwd_psa_type :: string
  fwd_from_chat_id :: int
  fwd_from_message_id :: int

record message =
  m_id :: int
  m_sender :: message_sender
  m_chat_id :: int
  m_date :: int
  m_edit_date :: int
  m_forward_info :: "forward_info option"
  m_reply_in_chat_id :: int
  m_reply_to_message_id :: int
  m_content :: "message_content option"

datatype event_action =
    EventMessageDeleted message
  | EventMessageEdited message message
  | EventOther

record chat_event =
  ev_id :: int
  ev_action :: event_action

datatype update =
    UpdateAuthorizationState auth_state
  | UpdateNewChat chat
  | UpdateChatTitle int string
  | UpdateUser user
  | UpdateNewMessage message
  | UpdateOther

datatype td_object =
    ObjError int string
  | ObjUser user
  | ObjChat chat
  | ObjChats chats
  | ObjFile td_file
  | ObjMessage message
  | ObjChatEvents "chat_event list"
  | ObjUpdate update
  | ObjOther

text \<open>\<open>get_id()\<close>: which class an object belongs to.\<close>

datatype kind =
    KError | KUser | KChat | KChats | KFile | KMessage | KChatEvents | KUpdate | KOther

fun kind_of :: "td_object \<Rightarrow> kind" where
  "kind_of (ObjError _ _) = KError"
| "kind_of (ObjUser _) = KUser"
| "kind_of (ObjChat _) = KChat"
| "kind_of (ObjChats _) = KChats"
| "kind_of (ObjFile _) = KFile"
| "kind_of (ObjMessage _) = KMessage"
| "kind_of (ObjChatEvents _) = KChatEvents"
| "kind_of (ObjUpdate _) = KUpdate"
| "kind_of ObjOther = KOther"

record tdlib_parameters =
  p_use_message_database :: bool
  p_use_secret_chats :: bool
  p_api_id :: "32 word"
  p_api_hash :: string
  p_database_directory :: string
  p_system_language_code :: string
  p_device_model :: string
  p_application_version :: string
  p_enable_storage_optimizer :: bool

datatype td_function =
    GetOption string
  | GetMe
  | CloseClient
  | DestroyClient
  | SetTdlibParameters tdlib_parameters
  | CheckDatabaseEncryptionKey string
  | SetAuthenticationPhoneNumber string
  | CheckAuthenticationCode string
  | RegisterUser string string
  | CheckAuthenticationPassword string
  | GetChats int int int
  | GetChat int
  | GetUser int
  | GetMessage int int
  | DownloadFile int int int int bool
  | GetChatEventLog int string int int
  | SendMessage int int string "text_entity list"
  | EditMessageText int int string "text_entity list"

text \<open>What \<open>ClientManager::receive\<close> returns: a request identifier and a possibly null object.\<close>

type_synonym response = "64 word \<times> td_object option"

end
