(* ===== verification/Registry.thy ===== *)
theory Registry
  imports Prelude
begin

section \<open>The interface of the query registries\<close>

text \<open>
  Both TDLib clients of the repository (\<open>Td\<close> and the older \<open>TdHandler\<close>) give every query a
  fresh 64-bit identifier and file its handler under it. What the callers of \<open>send_query\<close>
  rely on is stated here once: which identifier a query gets, that its handler can then be
  found under that identifier, and that no other handler is disturbed, as long as the
  counter has not wrapped around.
\<close>

fun send_seq ::
  "('f \<Rightarrow> 'h option \<Rightarrow> 's \<Rightarrow> ub + 's) \<Rightarrow> ('f \<times> 'h option) list \<Rightarrow> 's \<Rightarrow> ub + 's" where
  "send_seq send [] s = Inr s"
| "send_seq send ((f, h) # qs) s = ebind (send f h s) (send_seq send qs)"

locale query_registry =
  fixes send :: "'f \<Rightarrow> 'h option \<Rightarrow> 's \<Rightarrow> ub + 's"
    and lookup :: "'s \<Rightarrow> 64 word \<Rightarrow> 'h option"
    and next_id :: "'s \<Rightarrow> 64 word"
    and inv :: "'s \<Rightarrow> bool"
  assumes send_ok: "inv s \<Longrightarrow> \<exists>s'. send f h s = Inr s'"
    and send_lookup: "inv s \<Longrightarrow> send f h s = Inr s' \<Longrightarrow>
          lookup s' = (case h of None \<Rightarrow> lookup s | Some h \<Rightarrow> (lookup s)(next_id s \<mapsto> h))"
    and send_next: "inv s \<Longrightarrow> send f h s = Inr s' \<Longrightarrow> next_id s' = next_id s + 1"
    and send_inv: "inv s \<Longrightarrow> send f h s = Inr s' \<Longrightarrow> next_id s' \<noteq> 0 \<Longrightarrow> inv s'"
begin

lemma send_other: "inv s \<Longrightarrow> send f h s = Inr s' \<Longrightarrow> q \<noteq> next_id s \<Longrightarrow> lookup s' q = lookup s q"
  by (auto simp: send_lookup split: option.splits)

lemma send_own: "inv s \<Longrightarrow> send f (Some h) s = Inr s' \<Longrightarrow> lookup s' (next_id s) = Some h"
  by (simp add: send_lookup)

lemma send_seq_Cons:
  assumes "inv s" and "unat (next_id s) + Suc (length qs) < 2 ^ 64"
  obtains s1 where "send f h s = Inr s1" and "inv s1" and "next_id s1 = next_id s + 1"
    and "unat (next_id s1) = unat (next_id s) + 1"
    and "send_seq send ((f, h) # qs) s = send_seq send qs s1"
proof -
  from send_ok [OF assms(1)] obtain s1 where s1: "send f h s = Inr s1" by blast
  have n: "next_id s1 = next_id s + 1" using send_next [OF assms(1) s1] .
  then have u: "unat (next_id s1) = unat (next_id s) + 1"
    using assms(2) by (simp add: unat_Suc_word)
  then have "next_id s1 \<noteq> 0" by auto
  then have "inv s1" by (rule send_inv [OF assms(1) s1])
  with s1 n u that show ?thesis by simp
qed

text \<open>A burst of queries: every handler ends up under its own identifier.\<close>

lemma send_seq_registered:
  "inv s \<Longrightarrow> unat (next_id s) + length qs < 2 ^ 64 \<Longrightarrow>
   \<exists>s'. send_seq send qs s = Inr s' \<and> inv s' \<and>
     (\<forall>q. q < next_id s \<longrightarrow> lookup s' q = lookup s q) \<and>
     (\<forall>i h. i < length qs \<longrightarrow> snd (qs ! i) = Some h \<longrightarrow>
        lookup s' (next_id s + word_of_nat i) = Some h)"
proof (induction qs arbitrary: s)
  case Nil
  then show ?case by simp
next
  case (Cons p qs)
  obtain f h where p: "p = (f, h)" by (cases p)
  obtain s1 where s1: "send f h s = Inr s1" "inv s1" "next_id s1 = next_id s + 1"
    "unat (next_id s1) = unat (next_id s) + 1"
    "send_seq send ((f, h) # qs) s = send_seq send qs s1"
    using send_seq_Cons [of s qs f h] Cons.prems by auto
  obtain s' where s': "send_seq send qs s1 = Inr s'" "inv s'"
    "\<And>q. q < next_id s1 \<Longrightarrow> lookup s' q = lookup s1 q"
    "\<And>i h. i < length qs \<Longrightarrow> snd (qs ! i) = Some h \<Longrightarrow>
       lookup s' (next_id s1 + word_of_nat i) = Some h"
    using Cons.IH [OF s1(2)] s1(4) Cons.prems(2) by auto
  have lt: "next_id s < next_id s1"
    using s1(4) by (simp add: word_less_nat_alt)
  have old: "lookup s' q = lookup s q" if "q < next_id s" for q
    using that lt s'(3) [of q] send_other [OF Cons.prems(1) s1(1), of q] by auto
  have new: "lookup s' (next_id s + word_of_nat i) = Some g"
    if "i < length (p # qs)" and "snd ((p # qs) ! i) = Some g" for i g
  proof (cases i)
    case 0
    with that p have "h = Some g" by simp
    with s1(1) have "lookup s1 (next_id s) = Some g"
      using send_own [OF Cons.prems(1)] by simp
    with 0 lt s'(3) show ?thesis by simp
  next
    case (Suc j)
    with that s'(4) [of j g] s1(3) show ?thesis by (simp add: algebra_simps)
  qed
  show ?case using s1(5) s'(1,2) old new p by auto
qed

end

end
