(* ===== verification/Td.thy ===== *)
theory Td
  imports TdApi Registry
begin

section \<open>The TDLib client of tgvisd (Td/Td.hpp, Td/Td.cpp, Td/Callback.hpp)\<close>

text \<open>
  The class \<open>Td\<close>: its members are the record \<open>td\<close>, each method is a function on it. Calls
  that can trap return \<open>ub + td\<close>: a null \<open>client_manager_\<close> or \<open>authorization_state_\<close>,
  locking the non-recursive \<open>on_auth_update_mutex\<close> twice, and a call of a handler whose
  captured stack frame is gone.

  TDLib itself is outside: the queries it was sent are kept in \<open>sent\<close>, and what
  \<open>receive(timeout)\<close> returns is a function argument of \<open>loop\<close>. The \<open>std::function\<close>
  handlers are the constructors of \<open>handler\<close>, one for each lambda the source registers.
\<close>

subsection \<open>State\<close>

datatype handler =
    HAuth "64 word"       \<comment> \<open>\<open>create_authentication_query_handler\<close>, with its captured id\<close>
  | HGetMe                \<comment> \<open>the callback of \<open>getMe\<close>\<close>
  | HSync nat kind        \<comment> \<open>the callback of \<open>send_query_sync\<close>, with the frame it captures\<close>

text \<open>The locals of a running \<open>send_query_sync\<close> that its callback captures by reference.\<close>

record frame =
  fr_live :: bool
  fr_finished :: bool
  fr_ret :: "td_object option"

text \<open>The class \<open>Callback\<close>: which of its five functions are set.\<close>

record callbacks =
  cb_updateAuthorizationState :: bool
  cb_updateNewChat :: bool
  cb_updateChatTitle :: bool
  cb_updateUser :: bool
  cb_updateNewMessage :: bool

record td =
  callback :: callbacks
  api_id :: "32 word"
  api_hash :: "string option"
  data_path :: "string option"
  closed :: bool
  need_restart :: bool
  is_authorized :: bool
  user_id :: int
  client_id :: int
  current_query_id :: "64 word"
  authentication_query_id :: "64 word"
  auth_mutex :: bool
  client_manager :: bool
  authorization_state :: "auth_state option"
  chat_title :: "int \<Rightarrow> string option"
  handlers :: "64 word \<Rightarrow> handler option"
  users :: "32 word \<Rightarrow> user option"
  stdin :: "string list"
  sent :: "(int \<times> 64 word \<times> td_function) list"
  fired :: "update list"
  frames :: "nat \<Rightarrow> frame option"

subsection \<open>Queries\<close>

text \<open>\<open>atomic_fetch_add\<close> returns the value before the addition.\<close>

definition next_query_id :: "td \<Rightarrow> 64 word \<times> td" where
  "next_query_id s = (current_query_id s, s\<lparr>current_query_id := current_query_id s + 1\<rparr>)"

definition send_query :: "td_function \<Rightarrow> handler option \<Rightarrow> td \<Rightarrow> ub + td" where
  "send_query f h s =
     (case next_query_id s of (query_id, s) \<Rightarrow>
        let s = (case h of
                   None \<Rightarrow> s
                 | Some h \<Rightarrow> s\<lparr>handlers := emplace (handlers s) query_id h\<rparr>)
        in if client_manager s
           then Inr (s\<lparr>sent := sent s @ [(client_id s, query_id, f)]\<rparr>)
           else Inl NullDeref)"

text \<open>The constructor; \<open>cid\<close> is what \<open>create_client_id\<close> returns.\<close>

definition no_callbacks :: callbacks where
  "no_callbacks = \<lparr>cb_updateAuthorizationState = False, cb_updateNewChat = False,
     cb_updateChatTitle = False, cb_updateUser = False, cb_updateNewMessage = False\<rparr>"

definition td_new ::
  "int \<Rightarrow> string list \<Rightarrow> 32 word \<Rightarrow> string option \<Rightarrow> string option \<Rightarrow> ub + td" where
  "td_new cid input ai ah dp =
     send_query (GetOption ''version'') None
       \<lparr>callback = no_callbacks, api_id = ai, api_hash = ah, data_path = dp,
        closed = False, need_restart = False, is_authorized = False, user_id = 0,
        client_id = cid, current_query_id = 0, authentication_query_id = 0,
        auth_mutex = False, client_manager = True, authorization_state = None,
        chat_title = Map.empty, handlers = Map.empty, users = Map.empty,
        stdin = input, sent = [], fired = [], frames = Map.empty\<rparr>"

definition restart :: "td \<Rightarrow> td" where
  "restart s = s\<lparr>client_manager := False, closed := False, need_restart := False,
     is_authorized := False, current_query_id := 0, authentication_query_id := 0\<rparr>"

subsection \<open>Authorization\<close>

definition create_authentication_query_handler :: "td \<Rightarrow> handler" where
  "create_authentication_query_handler s = HAuth (authentication_query_id s)"

text \<open>\<open>std::getline(std::cin, line)\<close> leaves the string empty at the end of the input.\<close>

definition getline :: "td \<Rightarrow> string \<times> td" where
  "getline s = (case stdin s of [] \<Rightarrow> ([], s) | l # ls \<Rightarrow> (l, s\<lparr>stdin := ls\<rparr>))"

definition send_auth :: "td_function \<Rightarrow> td \<Rightarrow> ub + td" where
  "send_auth f s = send_query f (Some (create_authentication_query_handler s)) s"

text \<open>Assigning a null pointer to a \<open>std::string\<close> field reads through it.\<close>

definition tdlib_params :: "td \<Rightarrow> ub + tdlib_parameters" where
  "tdlib_params s =
     (case (api_hash s, data_path s) of
        (Some hash, Some dir) \<Rightarrow>
          Inr \<lparr>p_use_message_database = True, p_use_secret_chats = False, p_api_id = api_id s,
            p_api_hash = hash, p_database_directory = dir,
            p_system_language_code = ''en'', p_device_model = ''Desktop'',
            p_application_version = ''1.0'', p_enable_storage_optimizer = True\<rparr>
      | _ \<Rightarrow> Inl NullDeref)"

text \<open>The branch of \<open>downcast_call(*authorization_state_, \<dots>)\<close> for each state.\<close>

fun auth_branch :: "auth_state \<Rightarrow> td \<Rightarrow> ub + td" where
  "auth_branch AuthReady s = send_query GetMe (Some HGetMe) (s\<lparr>is_authorized := True\<rparr>)"
| "auth_branch AuthLoggingOut s = Inr (s\<lparr>is_authorized := False\<rparr>)"
| "auth_branch AuthClosing s = Inr s"
| "auth_branch AuthClosed s =
     Inr (s\<lparr>closed := True, need_restart := True, is_authorized := False\<rparr>)"
| "auth_branch AuthWaitCode s =
     (case getline s of (code, s) \<Rightarrow> send_auth (CheckAuthenticationCode code) s)"
| "auth_branch AuthWaitRegistration s =
     (case getline s of (fn, s) \<Rightarrow> case getline s of (ln, s) \<Rightarrow> send_auth (RegisterUser fn ln) s)"
| "auth_branch AuthWaitPassword s =
     (case getline s of (pass, s) \<Rightarrow> send_auth (CheckAuthenticationPassword pass) s)"
| "auth_branch (AuthWaitOtherDeviceConfirmation link) s = Inr s"
| "auth_branch AuthWaitPhoneNumber s =
     (case getline s of (pn, s) \<Rightarrow> send_auth (SetAuthenticationPhoneNumber pn) s)"
| "auth_branch AuthWaitEncryptionKey s = send_auth (CheckDatabaseEncryptionKey []) s"
| "auth_branch AuthWaitTdlibParameters s =
     ebind (tdlib_params s) (\<lambda>par. send_auth (SetTdlibParameters par) s)"
| "auth_branch AuthOther s = Inr s"

definition on_authorization_state_update :: "td \<Rightarrow> ub + td" where
  "on_authorization_state_update s =
     (if auth_mutex s then Inl SelfDeadlock
      else case authorization_state s of
             None \<Rightarrow> Inl NullDeref
           | Some st \<Rightarrow>
               ebind (auth_branch st (s\<lparr>auth_mutex := True\<rparr>))
                 (\<lambda>s. Inr (s\<lparr>auth_mutex := False\<rparr>)))"

definition check_authentication_error :: "td_object \<Rightarrow> td \<Rightarrow> ub + td" where
  "check_authentication_error obj s =
     (if kind_of obj = KError then on_authorization_state_update s else Inr s)"

subsection \<open>Responses and updates\<close>

text \<open>The callback of \<open>send_query_sync\<close>: writes to the frame it captured.\<close>

definition sync_callback :: "nat \<Rightarrow> kind \<Rightarrow> td_object \<Rightarrow> td \<Rightarrow> ub + td" where
  "sync_callback k want obj s =
     (case frames s k of
        None \<Rightarrow> Inl UseAfterFree
      | Some f \<Rightarrow>
          if \<not> fr_live f then Inl UseAfterFree
          else
            let ret = (if kind_of obj = KError then fr_ret f
                       else if kind_of obj \<noteq> want then fr_ret f
                       else Some obj)
            in Inr (s\<lparr>frames := (frames s)(k \<mapsto> f\<lparr>fr_finished := True, fr_ret := ret\<rparr>)\<rparr>))"

fun run_handler :: "handler \<Rightarrow> td_object \<Rightarrow> td \<Rightarrow> ub + td" where
  "run_handler (HAuth qid) obj s =
     (if qid = authentication_query_id s then check_authentication_error obj s else Inr s)"
| "run_handler HGetMe obj s =
     (case obj of ObjUser u \<Rightarrow> Inr (s\<lparr>user_id := u_id u\<rparr>) | _ \<Rightarrow> Inr s)"
| "run_handler (HSync k want) obj s = sync_callback k want obj s"

text \<open>\<open>Callback::execute\<close>, overloaded on the update.\<close>

definition callback_set :: "callbacks \<Rightarrow> update \<Rightarrow> bool" where
  "callback_set c u =
     (case u of
        UpdateAuthorizationState _ \<Rightarrow> cb_updateAuthorizationState c
      | UpdateNewChat _ \<Rightarrow> cb_updateNewChat c
      | UpdateChatTitle _ _ \<Rightarrow> cb_updateChatTitle c
      | UpdateUser _ \<Rightarrow> cb_updateUser c
      | UpdateNewMessage _ \<Rightarrow> cb_updateNewMessage c
      | UpdateOther \<Rightarrow> False)"

definition callback_execute :: "update \<Rightarrow> td \<Rightarrow> td" where
  "callback_execute u s = (if callback_set (callback s) u then s\<lparr>fired := fired s @ [u]\<rparr> else s)"

text \<open>The key of \<open>users_\<close> is an \<open>int32_t\<close>: the identifier is converted to 32 bits.\<close>

definition user_key :: "int \<Rightarrow> 32 word" where
  "user_key i = word_of_int i"

fun process_update :: "td_object \<Rightarrow> td \<Rightarrow> ub + td" where
  "process_update (ObjUpdate (UpdateAuthorizationState st)) s =
     ebind (on_authorization_state_update (s\<lparr>authorization_state := Some st\<rparr>))
       (\<lambda>s. Inr (callback_execute (UpdateAuthorizationState st) s))"
| "process_update (ObjUpdate (UpdateNewChat c)) s =
     Inr (callback_execute (UpdateNewChat c)
            (s\<lparr>chat_title := (chat_title s)(c_id c \<mapsto> c_title c)\<rparr>))"
| "process_update (ObjUpdate (UpdateChatTitle i t)) s =
     Inr (callback_execute (UpdateChatTitle i t) (s\<lparr>chat_title := (chat_title s)(i \<mapsto> t)\<rparr>))"
| "process_update (ObjUpdate (UpdateUser u)) s =
     Inr (callback_execute (UpdateUser u) (s\<lparr>users := (users s)(user_key (u_id u) \<mapsto> u)\<rparr>))"
| "process_update (ObjUpdate (UpdateNewMessage m)) s =
     Inr (callback_execute (UpdateNewMessage m) s)"
| "process_update _ s = Inr s"

definition process_response :: "response \<Rightarrow> td \<Rightarrow> ub + td" where
  "process_response r s =
     (case r of (request_id, obj) \<Rightarrow>
        (case obj of
           None \<Rightarrow> Inr s
         | Some obj \<Rightarrow>
             if request_id = 0 then process_update obj s
             else case handlers s request_id of
                    None \<Rightarrow> Inr s
                  | Some h \<Rightarrow> run_handler h obj s))"

definition loop :: "int \<Rightarrow> (int \<Rightarrow> response) \<Rightarrow> td \<Rightarrow> ub + td" where
  "loop timeout receive s =
     (if need_restart s then Inr (restart s)
      else if \<not> is_authorized s then
        (if client_manager s then process_response (receive 10) s else Inl NullDeref)
      else if \<not> client_manager s then Inl NullDeref
      else if snd (receive timeout) = None then Inr s
      else process_response (receive timeout) s)"

definition close :: "(int \<Rightarrow> response) \<Rightarrow> td \<Rightarrow> ub + td" where
  "close receive s = ebind (send_query CloseClient None s) (loop 5 receive)"

text \<open>Repeated calls of \<open>loop(1)\<close>, as \<open>Main::run\<close> makes them.\<close>

fun run_loops :: "(int \<Rightarrow> response) list \<Rightarrow> td \<Rightarrow> ub + td" where
  "run_loops [] s = Inr s"
| "run_loops (r # rs) s = ebind (loop 1 r s) (run_loops rs)"

subsection \<open>The registry of queries\<close>

text \<open>
  While the client manager lives and no identifier has been reused, \<open>send_query\<close> meets the
  contract of \<open>query_registry\<close>; \<open>restart\<close> leaves that region, since it resets the counter
  and keeps the old handlers.
\<close>

definition reg_inv :: "td \<Rightarrow> bool" where
  "reg_inv s \<longleftrightarrow> client_manager s \<and> (\<forall>q h. handlers s q = Some h \<longrightarrow> q < current_query_id s)"

lemma send_query_eq:
  "send_query f h s =
     (if client_manager s
      then Inr (s\<lparr>current_query_id := current_query_id s + 1,
                  handlers := (case h of None \<Rightarrow> handlers s
                               | Some h \<Rightarrow> emplace (handlers s) (current_query_id s) h),
                  sent := sent s @ [(client_id s, current_query_id s, f)]\<rparr>)
      else Inl NullDeref)"
  by (simp add: send_query_def next_query_id_def Let_def split: option.split)

lemma reg_inv_fresh: "reg_inv s \<Longrightarrow> handlers s (current_query_id s) = None"
  by (metis less_irrefl option.exhaust reg_inv_def)

interpretation td_reg: query_registry send_query handlers current_query_id reg_inv
proof (unfold_locales, goal_cases)
  case (1 s f h)
  then show ?case by (simp add: send_query_eq reg_inv_def)
next
  case (2 s f h s')
  then show ?case
    by (auto simp: send_query_eq reg_inv_fresh split: if_splits option.splits)
next
  case (3 s f h s')
  then show ?case by (auto simp: send_query_eq split: if_splits)
next
  case (4 s f h s')
  then have "current_query_id s + 1 \<noteq> 0" and cm: "client_manager s"
    by (auto simp: send_query_eq split: if_splits)
  then have self: "current_query_id s < current_query_id s + 1"
    by (simp add: word_less_Suc_self)
  from 4(1) have "q < current_query_id s" if "handlers s q = Some g" for q g
    using that by (simp add: reg_inv_def)
  then have old: "q < current_query_id s + 1" if "handlers s q = Some g" for q g
    using that self order_less_trans by blast
  have "handlers s' q = Some g \<Longrightarrow> handlers s q = Some g \<or> q = current_query_id s" for q g
    using 4(2) cm by (auto simp: send_query_eq dest!: emplace_SomeD split: option.splits)
  moreover have "client_manager s'" "current_query_id s' = current_query_id s + 1"
    using 4(2) cm by (auto simp: send_query_eq)
  ultimately show ?case using old self by (auto simp: reg_inv_def)
qed

subsection \<open>Invariants of the event loop\<close>

definition handler_ok :: "td \<Rightarrow> handler \<Rightarrow> bool" where
  "handler_ok s h \<longleftrightarrow>
     (case h of
        HAuth a \<Rightarrow> a = 0 \<and> authorization_state s \<noteq> None
      | HGetMe \<Rightarrow> True
      | HSync k want \<Rightarrow> (case frames s k of None \<Rightarrow> False | Some f \<Rightarrow> fr_live f))"

text \<open>
  The region in which the client can go on: it has a manager, holds no lock, has not been told to
  restart, and no authentication query precedes the first authorization state. Every new client is
  in it.
\<close>

definition td_up :: "td \<Rightarrow> bool" where
  "td_up s \<longleftrightarrow> client_manager s \<and> \<not> auth_mutex s \<and> \<not> need_restart s \<and>
     authentication_query_id s = 0 \<and> authorization_state s \<noteq> Some AuthClosed \<and>
     (authorization_state s = Some AuthReady \<longrightarrow> is_authorized s) \<and>
     (authorization_state s = Some AuthLoggingOut \<longrightarrow> \<not> is_authorized s) \<and>
     (\<forall>q a. handlers s q = Some (HAuth a) \<longrightarrow> a = 0 \<and> authorization_state s \<noteq> None)"

definition has_credentials :: "td \<Rightarrow> bool" where
  "has_credentials s \<longleftrightarrow> api_hash s \<noteq> None \<and> data_path s \<noteq> None"

definition live_frame :: "td \<Rightarrow> nat \<Rightarrow> bool" where
  "live_frame s k \<longleftrightarrow> (\<exists>f. frames s k = Some f \<and> fr_live f)"

text \<open>The same with what nobody guarantees: credentials, and no blocking call given up.\<close>

definition td_ok :: "td \<Rightarrow> bool" where
  "td_ok s \<longleftrightarrow> client_manager s \<and> api_hash s \<noteq> None \<and> data_path s \<noteq> None \<and> \<not> auth_mutex s \<and> \<not> need_restart s \<and>
     authentication_query_id s = 0 \<and> authorization_state s \<noteq> Some AuthClosed \<and>
     (authorization_state s = Some AuthReady \<longrightarrow> is_authorized s) \<and>
     (authorization_state s = Some AuthLoggingOut \<longrightarrow> \<not> is_authorized s) \<and>
     (\<forall>q h. handlers s q = Some h \<longrightarrow> handler_ok s h)"

text \<open>
  What an authorization state does to the login flag: ready sets it, logging out and closed
  clear it, all the others leave it.
\<close>

fun flag_after :: "auth_state \<Rightarrow> bool \<Rightarrow> bool" where
  "flag_after AuthReady a = True"
| "flag_after AuthLoggingOut a = False"
| "flag_after AuthClosed a = False"
| "flag_after _ a = a"

lemma flag_after_idem [simp]: "flag_after st (flag_after st a) = flag_after st a"
  by (cases st) simp_all

text \<open>The effect of one authorization branch, on the fields the other lemmas need.\<close>

lemma auth_branch_ok:
  assumes "client_manager s" "st = AuthWaitTdlibParameters \<Longrightarrow> has_credentials s"
  shows "\<exists>t. auth_branch st s = Inr t \<and>
     is_authorized t = flag_after st (is_authorized s) \<and>
     need_restart t = (need_restart s \<or> st = AuthClosed) \<and>
     (\<forall>q h. handlers t q = Some h \<longrightarrow>
        handlers s q = Some h \<or> h = HAuth (authentication_query_id s) \<or> h = HGetMe) \<and>
     client_manager t \<and> api_hash t = api_hash s \<and> data_path t = data_path s \<and>
     auth_mutex t = auth_mutex s \<and>
     authentication_query_id t = authentication_query_id s \<and>
     authorization_state t = authorization_state s \<and> chat_title t = chat_title s \<and>
     users t = users s \<and> frames t = frames s \<and> callback t = callback s \<and> fired t = fired s"
  using assms
  by (cases st) (auto simp: send_auth_def send_query_eq getline_def tdlib_params_def has_credentials_def
      create_authentication_query_handler_def dest!: emplace_SomeD split: prod.splits list.splits)

lemma handler_ok_mono:
  assumes "handler_ok s h" and "authorization_state s \<noteq> None \<Longrightarrow> authorization_state t \<noteq> None"
    and "\<And>k f. frames s k = Some f \<Longrightarrow> fr_live f \<Longrightarrow> \<exists>g. frames t k = Some g \<and> fr_live g"
  shows "handler_ok t h"
  using assms by (cases h) (fastforce simp: handler_ok_def split: option.splits)+

lemma handler_ok_simps [simp]:
  "handler_ok s (HAuth a) \<longleftrightarrow> a = 0 \<and> authorization_state s \<noteq> None"
  "handler_ok s HGetMe"
  "handler_ok s (HSync k want) \<longleftrightarrow> (\<exists>f. frames s k = Some f \<and> fr_live f)"
  by (auto simp: handler_ok_def split: option.splits)

text \<open>The members on which the invariant does not depend.\<close>

lemma handler_ok_frame [simp]:
  "handler_ok (s\<lparr>fired := a\<rparr>) h = handler_ok s h"
  "handler_ok (s\<lparr>user_id := i\<rparr>) h = handler_ok s h"
  "handler_ok (s\<lparr>chat_title := b\<rparr>) h = handler_ok s h"
  "handler_ok (s\<lparr>users := c\<rparr>) h = handler_ok s h"
  "handler_ok (s\<lparr>auth_mutex := d\<rparr>) h = handler_ok s h"
  by (cases h; simp)+

lemma on_auth_ok:
  assumes "client_manager s" "\<not> auth_mutex s" "authorization_state s = Some st"
    "st = AuthWaitTdlibParameters \<Longrightarrow> has_credentials s" "authentication_query_id s = 0"
  shows "\<exists>t. on_authorization_state_update s = Inr t \<and>
     is_authorized t = flag_after st (is_authorized s) \<and>
     need_restart t = (need_restart s \<or> st = AuthClosed) \<and>
     (\<forall>q h. handlers t q = Some h \<longrightarrow> handlers s q = Some h \<or> h = HAuth 0 \<or> h = HGetMe) \<and>
     client_manager t \<and> \<not> auth_mutex t \<and> authentication_query_id t = 0 \<and> frames t = frames s \<and>
     api_hash t = api_hash s \<and> data_path t = data_path s \<and> authorization_state t = Some st \<and> chat_title t = chat_title s \<and>
     users t = users s \<and> callback t = callback s \<and> fired t = fired s"
proof -
  let ?s = "s\<lparr>auth_mutex := True\<rparr>"
  have "client_manager ?s" and creds: "st = AuthWaitTdlibParameters \<Longrightarrow> has_credentials ?s"
    using assms(1,4) by (simp_all add: has_credentials_def)
  from auth_branch_ok [OF this(1), of st, OF creds] obtain t where "auth_branch st ?s = Inr t"
    "is_authorized t = flag_after st (is_authorized s)"
    "need_restart t = (need_restart s \<or> st = AuthClosed)"
    "\<And>q h. handlers t q = Some h \<Longrightarrow>
       handlers s q = Some h \<or> h = HAuth (authentication_query_id s) \<or> h = HGetMe"
    "client_manager t" "api_hash t = api_hash s" "data_path t = data_path s"
    "authentication_query_id t = authentication_query_id s"
    "authorization_state t = authorization_state s" "chat_title t = chat_title s"
    "users t = users s" "frames t = frames s" "callback t = callback s" "fired t = fired s"
    by auto
  with assms show ?thesis by (auto simp: on_authorization_state_update_def)
qed

text \<open>What a step leaves as it is, so that a client in good order stays so.\<close>

definition keeps :: "td \<Rightarrow> td \<Rightarrow> bool" where
  "keeps s t \<longleftrightarrow> api_hash t = api_hash s \<and> data_path t = data_path s \<and>
     (\<forall>k. live_frame s k \<longrightarrow> live_frame t k) \<and>
     (\<forall>q k w. handlers t q = Some (HSync k w) \<longrightarrow> handlers s q = Some (HSync k w))"

lemma td_ok_iff:
  "td_ok s \<longleftrightarrow> td_up s \<and> has_credentials s \<and> (\<forall>q k w. handlers s q = Some (HSync k w) \<longrightarrow> live_frame s k)"
proof -
  have "(\<forall>q h. handlers s q = Some h \<longrightarrow> handler_ok s h) \<longleftrightarrow>
      (\<forall>q a. handlers s q = Some (HAuth a) \<longrightarrow> a = 0 \<and> authorization_state s \<noteq> None) \<and>
      (\<forall>q k w. handlers s q = Some (HSync k w) \<longrightarrow> live_frame s k)"
    (is "?all \<longleftrightarrow> ?auth \<and> ?sync")
  proof
    assume ?all
    then show "?auth \<and> ?sync" by (fastforce simp: live_frame_def)
  next
    assume parts: "?auth \<and> ?sync"
    have "handler_ok s h" if "handlers s q = Some h" for q h
      using that parts by (cases h) (auto simp: live_frame_def, blast)
    then show ?all by blast
  qed
  then show ?thesis by (auto simp: td_ok_def td_up_def has_credentials_def)
qed

lemma keeps_ok: "td_ok s \<Longrightarrow> td_up t \<Longrightarrow> keeps s t \<Longrightarrow> td_ok t"
  by (auto simp: td_ok_iff keeps_def has_credentials_def) blast

subsection \<open>What an observer sees\<close>

text \<open>
  The specification of the event loop: whether the account is logged in, the last known
  titles and users, and the callbacks fired, each a fold over the objects received.
\<close>

record view =
  v_authorized :: bool
  v_title :: "int \<Rightarrow> string option"
  v_users :: "32 word \<Rightarrow> user option"
  v_callback :: callbacks
  v_fired :: "update list"

definition view_of :: "td \<Rightarrow> view" where
  "view_of s = \<lparr>v_authorized = is_authorized s, v_title = chat_title s, v_users = users s,
     v_callback = callback s, v_fired = fired s\<rparr>"

fun learn :: "update \<Rightarrow> view \<Rightarrow> view" where
  "learn (UpdateAuthorizationState st) v = v\<lparr>v_authorized := flag_after st (v_authorized v)\<rparr>"
| "learn (UpdateNewChat c) v = v\<lparr>v_title := (v_title v)(c_id c \<mapsto> c_title c)\<rparr>"
| "learn (UpdateChatTitle i t) v = v\<lparr>v_title := (v_title v)(i \<mapsto> t)\<rparr>"
| "learn (UpdateUser u) v = v\<lparr>v_users := (v_users v)(user_key (u_id u) \<mapsto> u)\<rparr>"
| "learn _ v = v"

definition tell :: "update \<Rightarrow> view \<Rightarrow> view" where
  "tell u v = v\<lparr>v_fired := v_fired v @ (if callback_set (v_callback v) u then [u] else [])\<rparr>"

text \<open>Only an update (an object with request identifier 0) changes the view.\<close>

definition observe :: "response \<Rightarrow> view \<Rightarrow> view" where
  "observe r v = (case r of
     (q, Some (ObjUpdate u)) \<Rightarrow> if q = 0 then tell u (learn u v) else v
   | _ \<Rightarrow> v)"

definition closes :: "response \<Rightarrow> bool" where
  "closes r \<longleftrightarrow> r = (0, Some (ObjUpdate (UpdateAuthorizationState AuthClosed)))"

text \<open>
  What the client cannot survive before it is closed: TDLib asks for the parameters and there are
  none (\<open>entry.cpp\<close> lets a null hash or path through), or answers a blocking call that has given up.
\<close>

definition hazard :: "response \<Rightarrow> td \<Rightarrow> ub option" where
  "hazard r s = (case r of
     (q, Some obj) \<Rightarrow>
       if q = 0 then
         (if obj = ObjUpdate (UpdateAuthorizationState AuthWaitTdlibParameters) \<and> \<not> has_credentials s
          then Some NullDeref else None)
       else (case handlers s q of
           Some (HSync k w) \<Rightarrow> if live_frame s k then None else Some UseAfterFree
         | Some (HAuth a) \<Rightarrow>
             if kind_of obj = KError \<and> authorization_state s = Some AuthWaitTdlibParameters \<and> \<not> has_credentials s
             then Some NullDeref else None
         | _ \<Rightarrow> None)
   | _ \<Rightarrow> None)"

lemma auth_update_up:
  assumes "td_up s" and "st = AuthWaitTdlibParameters \<Longrightarrow> has_credentials s"
  shows "\<exists>t. process_update (ObjUpdate (UpdateAuthorizationState st)) s = Inr t \<and>
     (if st = AuthClosed then need_restart t else td_up t) \<and> keeps s t \<and>
     view_of t = tell (UpdateAuthorizationState st)
                   (learn (UpdateAuthorizationState st) (view_of s))"
proof -
  let ?s = "s\<lparr>authorization_state := Some st\<rparr>"
  obtain t where t: "on_authorization_state_update ?s = Inr t"
    "is_authorized t = flag_after st (is_authorized s)"
    "need_restart t = (st = AuthClosed)"
    "\<And>q h. handlers t q = Some h \<Longrightarrow> handlers s q = Some h \<or> h = HAuth 0 \<or> h = HGetMe"
    "client_manager t" "\<not> auth_mutex t" "authentication_query_id t = 0" "frames t = frames s"
    "api_hash t = api_hash s" "data_path t = data_path s"
    "authorization_state t = Some st" "chat_title t = chat_title s"
    "users t = users s" "callback t = callback s" "fired t = fired s"
    using on_auth_ok [of ?s st] assms by (auto simp: td_up_def has_credentials_def)
  have "keeps s (callback_execute u t)" for u
    using t(4,8,9,10) by (fastforce simp: keeps_def live_frame_def callback_execute_def)
  moreover have "td_up (callback_execute u t)" if "st \<noteq> AuthClosed" for u
    using t assms(1) that by (cases st) (fastforce simp: td_up_def callback_execute_def)+
  ultimately show ?thesis
    using t by (auto simp: view_of_def tell_def callback_execute_def)
qed

lemma auth_update_ok:
  assumes "td_ok s"
  shows "\<exists>t. process_update (ObjUpdate (UpdateAuthorizationState st)) s = Inr t \<and>
     (if st = AuthClosed then need_restart t else td_ok t) \<and>
     view_of t = tell (UpdateAuthorizationState st)
                   (learn (UpdateAuthorizationState st) (view_of s))"
proof -
  have up: "td_up s" "st = AuthWaitTdlibParameters \<Longrightarrow> has_credentials s" using assms by (auto simp: td_ok_iff)
  from auth_update_up [of s st, OF up] keeps_ok [OF assms] show ?thesis by metis
qed

lemma process_update_up:
  assumes "td_up s" and "\<not> closes (0, Some obj)" and "hazard (0, Some obj) s = None"
  shows "\<exists>t. process_update obj s = Inr t \<and> td_up t \<and> keeps s t \<and>
     view_of t = observe (0, Some obj) (view_of s)"
proof (cases obj)
  case (ObjUpdate u)
  show ?thesis
  proof (cases u)
    case (UpdateAuthorizationState st)
    with assms(2,3) ObjUpdate have "st \<noteq> AuthClosed" "st = AuthWaitTdlibParameters \<Longrightarrow> has_credentials s"
      by (auto simp: closes_def hazard_def split: if_split_asm)
    with auth_update_up [OF assms(1), of st] ObjUpdate UpdateAuthorizationState
    show ?thesis by (auto simp: observe_def)
  qed (use assms(1) ObjUpdate in
      \<open>auto simp: td_up_def keeps_def live_frame_def callback_execute_def view_of_def tell_def observe_def
        callback_set_def\<close>)
qed (use assms in \<open>auto simp: observe_def keeps_def\<close>)

lemma run_handler_up:
  assumes "td_up s" and "handlers s q = Some h" and "q \<noteq> 0" and "hazard (q, Some obj) s = None"
  shows "\<exists>t. run_handler h obj s = Inr t \<and> td_up t \<and> keeps s t \<and> view_of t = view_of s"
proof (cases h)
  case (HAuth a)
  with assms(1,2) obtain st where st: "authorization_state s = Some st" "a = 0" by (auto simp: td_up_def)
  show ?thesis
  proof (cases "kind_of obj = KError")
    case True
    with assms(2-4) HAuth st have "st = AuthWaitTdlibParameters \<Longrightarrow> has_credentials s"
      by (auto simp: hazard_def split: if_split_asm)
    with on_auth_ok [of s st] assms(1) st obtain t where t: "on_authorization_state_update s = Inr t"
      "is_authorized t = flag_after st (is_authorized s)"
      "need_restart t = (need_restart s \<or> st = AuthClosed)"
      "\<And>q h. handlers t q = Some h \<Longrightarrow> handlers s q = Some h \<or> h = HAuth 0 \<or> h = HGetMe"
      "client_manager t" "\<not> auth_mutex t" "authentication_query_id t = 0" "frames t = frames s"
      "api_hash t = api_hash s" "data_path t = data_path s"
      "authorization_state t = Some st" "chat_title t = chat_title s"
      "users t = users s" "callback t = callback s" "fired t = fired s"
      by (auto simp: td_up_def)
    have flag: "flag_after st (is_authorized s) = is_authorized s"
      using assms(1) st by (cases st) (auto simp: td_up_def)
    have "keeps s t"
      using t(4,8,9,10) by (fastforce simp: keeps_def live_frame_def)
    moreover have "td_up t"
      using t assms(1) st flag by (fastforce simp: td_up_def)
    ultimately show ?thesis
      using True HAuth st t assms(1) flag
      by (auto simp: td_up_def view_of_def check_authentication_error_def)
  qed (use HAuth st assms in \<open>auto simp: check_authentication_error_def keeps_def td_up_def\<close>)
next
  case HGetMe
  with assms show ?thesis
    by (cases obj) (auto simp: td_up_def view_of_def keeps_def live_frame_def)
next
  case (HSync k want)
  with assms(2-4) obtain f where f: "frames s k = Some f" "fr_live f"
    by (auto simp: hazard_def live_frame_def split: if_split_asm)
  then have "keeps s (s\<lparr>frames := (frames s)(k \<mapsto> f\<lparr>fr_finished := b, fr_ret := r\<rparr>)\<rparr>)" for b r
    by (auto simp: keeps_def live_frame_def)
  with HSync f assms(1) show ?thesis
    by (auto simp: sync_callback_def td_up_def view_of_def Let_def)
qed

lemma process_response_up:
  assumes "td_up s" and "\<not> closes r" and "hazard r s = None"
  shows "\<exists>t. process_response r s = Inr t \<and> td_up t \<and> keeps s t \<and> view_of t = observe r (view_of s)"
proof -
  obtain q o' where r: "r = (q, o')" by (cases r)
  have self: "keeps s s" by (simp add: keeps_def)
  show ?thesis
  proof (cases o')
    case None
    with r assms self show ?thesis by (simp add: process_response_def observe_def)
  next
    case (Some obj)
    show ?thesis
    proof (cases "q = 0")
      case True
      with process_update_up [of s obj] r Some assms show ?thesis
        by (simp add: process_response_def)
    next
      case False
      have o: "observe r v = v" for v
        using r False by (simp add: observe_def split: option.split td_object.split)
      show ?thesis
      proof (cases "handlers s q")
        case None
        with r Some False o assms self show ?thesis by (simp add: process_response_def)
      next
        case h: (Some h)
        from run_handler_up [OF assms(1) h False, of obj] h r Some False o assms(3) show ?thesis
          by (simp add: process_response_def)
      qed
    qed
  qed
qed

lemma process_response_hazard:
  assumes "td_up s" and "hazard r s = Some e"
  shows "process_response r s = Inl e"
proof -
  obtain q obj where r: "r = (q, Some obj)" using assms(2) by (auto simp: hazard_def split: prod.splits option.splits)
  show ?thesis
  proof (cases "q = 0")
    case True
    with r assms have "obj = ObjUpdate (UpdateAuthorizationState AuthWaitTdlibParameters)" "e = NullDeref"
      "\<not> has_credentials s"
      by (auto simp: hazard_def split: if_split_asm)
    with True r assms(1) show ?thesis
      by (auto simp: process_response_def on_authorization_state_update_def td_up_def tdlib_params_def
          has_credentials_def split: option.split)
  next
    case False
    with r assms(2) obtain h where h: "handlers s q = Some h" by (auto simp: hazard_def split: option.splits)
    show ?thesis
    proof (cases h)
      case (HAuth a)
      with r assms False h have "kind_of obj = KError" "authorization_state s = Some AuthWaitTdlibParameters"
        "\<not> has_credentials s" "e = NullDeref" "a = authentication_query_id s"
        by (auto simp: hazard_def td_up_def split: if_split_asm)
      with r False h HAuth assms(1) show ?thesis
        by (auto simp: process_response_def check_authentication_error_def on_authorization_state_update_def
            td_up_def tdlib_params_def has_credentials_def split: option.split)
    next
      case HGetMe
      with r assms(2) False h show ?thesis by (simp add: hazard_def)
    next
      case (HSync k w)
      with r assms(2) False h show ?thesis
        by (auto simp: hazard_def process_response_def sync_callback_def live_frame_def split: option.split if_split_asm)
    qed
  qed
qed

lemma ok_no_hazard: "td_ok s \<Longrightarrow> hazard r s = None"
  by (auto simp: hazard_def td_ok_iff split: prod.split option.split handler.split)

lemma process_response_ok:
  assumes "td_ok s" and "\<not> closes r"
  shows "\<exists>t. process_response r s = Inr t \<and> td_ok t \<and> view_of t = observe r (view_of s)"
proof -
  have "td_up s" using assms(1) by (simp add: td_ok_iff)
  from process_response_up [OF this assms(2) ok_no_hazard [OF assms(1)]] keeps_ok [OF assms(1)] show ?thesis by blast
qed

lemma loop_up:
  assumes "td_up s" and "\<not> closes r"
  shows "case hazard r s of
      Some e \<Rightarrow> loop n (\<lambda>_. r) s = Inl e
    | None \<Rightarrow> \<exists>t. loop n (\<lambda>_. r) s = Inr t \<and> td_up t \<and> keeps s t \<and> view_of t = observe r (view_of s)"
proof -
  have silent: "process_response r s = Inr s" if "snd r = None"
    using that by (cases r) (simp add: process_response_def)
  have "loop n (\<lambda>_. r) s = process_response r s"
    using assms(1) silent by (auto simp: loop_def td_up_def)
  with process_response_up [OF assms] process_response_hazard [OF assms(1)] show ?thesis
    by (simp split: option.split)
qed

lemma loop_ok:
  assumes "td_ok s" and "\<not> closes r"
  shows "\<exists>t. loop n (\<lambda>_. r) s = Inr t \<and> td_ok t \<and> view_of t = observe r (view_of s)"
proof -
  have "process_response r s = Inr s" "observe r v = v" if "snd r = None" for v
    using that by (cases r; simp add: process_response_def observe_def)+
  with process_response_ok [OF assms] assms(1) show ?thesis
    by (auto simp: loop_def td_ok_def)
qed

text \<open>The program's main loop on a given sequence of responses.\<close>

definition feed :: "response list \<Rightarrow> td \<Rightarrow> ub + td" where
  "feed rs = run_loops (map (\<lambda>r _. r) rs)"

lemma feed_Nil [simp]: "feed [] s = Inr s"
  and feed_Cons [simp]: "feed (r # rs) s = ebind (loop 1 (\<lambda>_. r) s) (feed rs)"
  by (simp_all add: feed_def)

lemma feed_append: "feed (rs @ qs) s = ebind (feed rs s) (feed qs)"
proof (induction rs arbitrary: s)
  case (Cons r rs)
  then show ?case by (cases "loop 1 (\<lambda>_. r) s") simp_all
qed simp

lemma feed_ok:
  "td_ok s \<Longrightarrow> (\<forall>r \<in> set rs. \<not> closes r) \<Longrightarrow>
   \<exists>t. feed rs s = Inr t \<and> td_ok t \<and> view_of t = fold observe rs (view_of s)"
proof (induction rs arbitrary: s)
  case Nil
  then show ?case by simp
next
  case (Cons r rs)
  then obtain u where u: "loop 1 (\<lambda>_. r) s = Inr u" "td_ok u" "view_of u = observe r (view_of s)"
    using loop_ok [of s r 1] by auto
  with Cons.IH [OF u(2)] Cons.prems show ?case by auto
qed

lemma feed_up:
  "td_up s \<Longrightarrow> (\<forall>r \<in> set rs. \<not> closes r) \<Longrightarrow>
   (\<exists>t. feed rs s = Inr t \<and> td_up t \<and> view_of t = fold observe rs (view_of s)) \<or>
   (\<exists>pre r post u e. rs = pre @ r # post \<and> feed pre s = Inr u \<and> td_up u \<and>
      view_of u = fold observe pre (view_of s) \<and> hazard r u = Some e \<and> feed rs s = Inl e)"
proof (induction rs arbitrary: s)
  case Nil
  then show ?case by simp
next
  case (Cons r rs)
  then have "\<not> closes r" by simp
  note step = loop_up [OF Cons.prems(1) this, of 1]
  show ?case
  proof (cases "hazard r s")
    case (Some e)
    with step have "feed (r # rs) s = Inl e" by simp
    with Some Cons.prems(1) show ?thesis
      by (intro disjI2 exI [of _ "[]"] exI [of _ r] exI [of _ rs] exI [of _ s] exI [of _ e]) simp
  next
    case None
    with step obtain v where v: "loop 1 (\<lambda>_. r) s = Inr v" "td_up v" "view_of v = observe r (view_of s)" by auto
    from Cons.IH [OF v(2)] Cons.prems(2) consider
        t where "feed rs v = Inr t" "td_up t" "view_of t = fold observe rs (view_of v)"
      | pre r' post u e where "rs = pre @ r' # post" "feed pre v = Inr u" "td_up u"
          "view_of u = fold observe pre (view_of v)" "hazard r' u = Some e" "feed rs v = Inl e"
      by auto
    then show ?thesis
    proof cases
      case 1
      with v show ?thesis by simp
    next
      case 2
      with v show ?thesis
        by (intro disjI2 exI [of _ "r # pre"] exI [of _ r'] exI [of _ post] exI [of _ u] exI [of _ e]) simp
    qed
  qed
qed

lemma feed_no_hazard:
  assumes "td_up s" and "\<forall>r \<in> set rs. \<not> closes r" and "feed rs s = Inr t"
    and "rs = pre @ r # post" and "feed pre s = Inr u"
  shows "hazard r u = None"
proof (cases "hazard r u")
  case (Some e)
  have "td_up u" using feed_up [OF assms(1), of pre] assms(2,4,5) by auto
  moreover have "\<not> closes r" using assms(2,4) by simp
  ultimately have "loop 1 (\<lambda>_. r) u = Inl e" using loop_up [of u r 1] Some by simp
  with assms(3-5) show ?thesis by (simp add: feed_append)
qed

lemma closing_response:
  assumes "td_ok s" and "closes r"
  shows "\<exists>t. loop n (\<lambda>_. r) s = Inr t \<and> need_restart t"
  using assms auth_update_ok [OF assms(1), of AuthClosed]
  by (auto simp: loop_def td_ok_def closes_def process_response_def)

lemma restarted_loop:
  "need_restart s \<Longrightarrow> loop n rv s = Inr (restart s)"
  "loop n rv (restart s) = Inl NullDeref"
  by (simp_all add: loop_def restart_def)

text \<open>The constructor puts the client into the region of the invariants.\<close>

lemma td_new_eq:
  "td_new cid input ai ah dp =
     Inr \<lparr>callback = no_callbacks, api_id = ai, api_hash = ah, data_path = dp,
          closed = False, need_restart = False, is_authorized = False, user_id = 0,
          client_id = cid, current_query_id = 1, authentication_query_id = 0,
          auth_mutex = False, client_manager = True, authorization_state = None,
          chat_title = Map.empty, handlers = Map.empty, users = Map.empty,
          stdin = input, sent = [(cid, 0, GetOption ''version'')], fired = [],
          frames = Map.empty\<rparr>"
  by (simp add: td_new_def send_query_eq)

lemma td_new_up: "td_new cid input ai ah dp = Inr s \<Longrightarrow> td_up s"
  by (auto simp: td_new_eq td_up_def)

lemma td_new_ok:
  "td_new cid input ai (Some ah) (Some dp) = Inr s \<Longrightarrow> td_ok s \<and> reg_inv s"
  by (auto simp: td_new_eq td_ok_def reg_inv_def)

lemma td_ok_callback [simp]: "td_ok (s\<lparr>callback := c\<rparr>) = td_ok s"
proof -
  have "handler_ok (s\<lparr>callback := c\<rparr>) h = handler_ok s h" for h by (cases h) simp_all
  then show ?thesis by (simp add: td_ok_def)
qed

lemma td_ok_send:
  assumes "td_ok s" and "send_query f h s = Inr t" and "\<And>g. h = Some g \<Longrightarrow> handler_ok s g"
  shows "td_ok t \<and> view_of t = view_of s"
proof -
  have "handler_ok t g" if "handlers t q = Some g" for q g
  proof -
    have "handlers s q = Some g \<or> h = Some g"
      using assms(2) that by (auto simp: send_query_eq dest!: emplace_SomeD split: if_splits option.splits)
    with assms(1,3) have "handler_ok s g" by (auto simp: td_ok_def)
    then show ?thesis
      by (rule handler_ok_mono) (use assms(2) in \<open>auto simp: send_query_eq split: if_splits\<close>)
  qed
  with assms(1,2) show ?thesis
    by (auto simp: td_ok_def send_query_eq view_of_def split: if_splits)
qed

subsection \<open>Properties\<close>

text \<open>
  C1: Until TDLib reports \<open>authorizationStateClosed\<close>, the main loop traps in two ways only: TDLib asks
  for the parameters, or refuses a query while it waits for them, and the API hash or the data path
  is null, which \<open>entry.cpp\<close> lets through (a null dereference), or it answers a blocking call that has given up (its dead stack frame is
  written). It always traps then, and never otherwise: no other null object is dereferenced and
  the authorization mutex is never locked twice. Up to that point, the login flag, the chat titles,
  the users and the callbacks fired are exactly the fold of the updates received, in order;
  responses to queries change none of them. With credentials and while every blocking call that was
  made is still waiting (\<open>td_ok\<close>), neither happens.
\<close>

theorem event_loop_refines_view:
  assumes "td_up s" and "\<forall>r \<in> set rs. \<not> closes r"
  shows "((\<exists>t. feed rs s = Inr t \<and> td_up t \<and> view_of t = fold observe rs (view_of s) \<and>
         (\<forall>pre r post u. rs = pre @ r # post \<longrightarrow> feed pre s = Inr u \<longrightarrow> hazard r u = None)) \<or>
      (\<exists>pre r post u e. rs = pre @ r # post \<and> feed pre s = Inr u \<and> td_up u \<and>
         view_of u = fold observe pre (view_of s) \<and> hazard r u = Some e \<and> feed rs s = Inl e)) \<and>
    (td_ok s \<longrightarrow> (\<exists>t. feed rs s = Inr t \<and> td_ok t \<and> view_of t = fold observe rs (view_of s)))"
  using feed_up [OF assms] feed_ok [OF _ assms(2)] feed_no_hazard [OF assms] by blast

definition td_start :: td where
  "td_start = (case td_new 1 [''+62'', ''12345''] 7 (Some ''hash'') (Some ''/data'') of Inr s \<Rightarrow> s)"

lemma td_start_eq: "td_new 1 [''+62'', ''12345''] 7 (Some ''hash'') (Some ''/data'') = Inr td_start"
  by (simp add: td_start_def td_new_eq)

lemma td_start_val:
  "td_start =
     \<lparr>callback = no_callbacks, api_id = 7, api_hash = Some ''hash'', data_path = Some ''/data'',
      closed = False, need_restart = False, is_authorized = False, user_id = 0,
      client_id = 1, current_query_id = 1, authentication_query_id = 0,
      auth_mutex = False, client_manager = True, authorization_state = None,
      chat_title = Map.empty, handlers = Map.empty, users = Map.empty,
      stdin = [''+62'', ''12345''], sent = [(1, 0, GetOption ''version'')], fired = [],
      frames = Map.empty\<rparr>"
  by (simp add: td_start_def td_new_eq)

lemma td_start_ok: "td_ok td_start" "reg_inv td_start"
  using td_new_ok [OF td_start_eq] by auto

definition login_updates :: "response list" where
  "login_updates =
     [(0, Some (ObjUpdate (UpdateAuthorizationState AuthWaitTdlibParameters))),
      (1, Some (ObjError 400 ''x'')),
      (0, Some (ObjUpdate (UpdateAuthorizationState AuthReady))),
      (0, Some (ObjUpdate (UpdateChatTitle 5 ''general'')))]"

lemma login_updates_open: "\<forall>r \<in> set login_updates. \<not> closes r"
  by (simp add: login_updates_def closes_def)

theorem event_loop_refines_view_witness:
  "\<exists>t. feed login_updates td_start = Inr t \<and> td_ok t \<and>
     view_of t = fold observe login_updates (view_of td_start)"
proof -
  have "td_up td_start" using td_start_ok(1) by (simp add: td_ok_iff)
  from event_loop_refines_view [OF this login_updates_open] td_start_ok(1) show ?thesis by blast
qed

text \<open>
  C23: Once \<open>authorizationStateClosed\<close> has been handled, the next call of \<open>loop\<close> restarts the
  client, which drops its manager and never creates another one, and the call after that
  dereferences the null manager, whatever was received before and whatever comes after.
\<close>

theorem closed_then_null_manager:
  assumes "td_ok s" and "\<forall>r \<in> set rs. \<not> closes r" and "closes c"
  shows "\<exists>t. feed (rs @ [c, r1]) s = Inr t \<and> \<not> client_manager t \<and>
     feed (rs @ c # r1 # r2 # qs) s = Inl NullDeref"
proof -
  obtain u where u: "feed rs s = Inr u" "td_ok u" using feed_ok [OF assms(1,2)] by auto
  obtain v where v: "loop 1 (\<lambda>_. c) u = Inr v" "need_restart v"
    using closing_response [OF u(2) assms(3)] by blast
  then show ?thesis
    using u by (simp add: feed_append restarted_loop restart_def loop_def)
qed

theorem closed_then_null_manager_witness:
  "\<exists>t. feed (login_updates @ [(0, Some (ObjUpdate (UpdateAuthorizationState AuthClosed))), (0, None)])
         td_start = Inr t \<and> \<not> client_manager t \<and>
     feed (login_updates @ (0, Some (ObjUpdate (UpdateAuthorizationState AuthClosed))) #
             (0, None) # (0, None) # []) td_start = Inl NullDeref"
  by (rule closed_then_null_manager [OF td_start_ok(1) login_updates_open]) (simp add: closes_def)

text \<open>
  C16: A burst of queries sent while the counter does not wrap around is registered so that the
  response to the i-th query is handed to the i-th handler and to no other; the one exception
  is the query with identifier 0 (the first one a new client sends), whose response is taken
  for an update.
\<close>

theorem burst_is_dispatched:
  assumes "reg_inv s" and "unat (current_query_id s) + length qs < 2 ^ 64"
  shows "\<exists>t. send_seq send_query qs s = Inr t \<and> reg_inv t \<and>
     (\<forall>i h obj. i < length qs \<longrightarrow> snd (qs ! i) = Some h \<longrightarrow>
        process_response (current_query_id s + word_of_nat i, Some obj) t =
          (if current_query_id s + word_of_nat i = 0 then process_update obj t
           else run_handler h obj t))"
proof -
  from td_reg.send_seq_registered [OF assms] obtain t where
    t: "send_seq send_query qs s = Inr t" "reg_inv t"
    "\<And>i h. i < length qs \<Longrightarrow> snd (qs ! i) = Some h \<Longrightarrow>
       handlers t (current_query_id s + word_of_nat i) = Some h"
    by blast
  show ?thesis
    using t by (intro exI [of _ t]) (simp add: process_response_def)
qed

theorem burst_is_dispatched_witness:
  "\<exists>t. send_seq send_query [(GetMe, Some HGetMe), (GetUser 3, None)] td_start = Inr t \<and> reg_inv t \<and>
     (\<forall>i h obj. i < length [(GetMe, Some HGetMe), (GetUser 3, None)] \<longrightarrow>
        snd ([(GetMe, Some HGetMe), (GetUser 3, None)] ! i) = Some h \<longrightarrow>
        process_response (current_query_id td_start + word_of_nat i, Some obj) t =
          (if current_query_id td_start + word_of_nat i = 0 then process_update obj t
           else run_handler h obj t))"
proof (rule burst_is_dispatched [OF td_start_ok(2)])
  show "unat (current_query_id td_start) + length [(GetMe, Some HGetMe), (GetUser 3, None)] < 2 ^ 64"
    by (simp add: td_start_val)
qed

text \<open>
  What each authorization state asks for: the query sent, and what is left of the input. At the end
  of the input every line is empty.
\<close>

definition input_line :: "string list \<Rightarrow> string" where
  "input_line ls = (case ls of [] \<Rightarrow> [] | l # _ \<Rightarrow> l)"

fun asked :: "auth_state \<Rightarrow> td \<Rightarrow> (td_function list \<times> string list)" where
  "asked AuthWaitPhoneNumber s = ([SetAuthenticationPhoneNumber (input_line (stdin s))], tl (stdin s))"
| "asked AuthWaitCode s = ([CheckAuthenticationCode (input_line (stdin s))], tl (stdin s))"
| "asked AuthWaitPassword s = ([CheckAuthenticationPassword (input_line (stdin s))], tl (stdin s))"
| "asked AuthWaitRegistration s =
     ([RegisterUser (input_line (stdin s)) (input_line (tl (stdin s)))], tl (tl (stdin s)))"
| "asked AuthWaitEncryptionKey s = ([CheckDatabaseEncryptionKey []], stdin s)"
| "asked AuthWaitTdlibParameters s =
     ((case tdlib_params s of Inr par \<Rightarrow> [SetTdlibParameters par] | Inl _ \<Rightarrow> []), stdin s)"
| "asked AuthReady s = ([GetMe], stdin s)"
| "asked _ s = ([], stdin s)"

text \<open>
  C25: \<open>authentication_query_id_\<close> is never advanced, so the guard of the authentication handlers
  never drops anything: whatever the authorization state is by then, an error answer to any
  authentication query, however old, asks for that state again: it reads the phone number, the
  code, the password or the names from the input (empty lines at its end) and sends them, or sends
  the key, the parameters or \<open>getMe\<close> once more. So while a code is awaited, a second line is read
  and sent even if the error answers the phone number that was already accepted.
\<close>

theorem late_auth_error_prompts_again:
  assumes "td_ok s" and "handlers s q = Some (HAuth a)" and "q \<noteq> 0"
  shows "\<exists>st t. authorization_state s = Some st \<and> loop n (\<lambda>_. (q, Some (ObjError c m))) s = Inr t \<and> td_ok t \<and>
     stdin t = snd (asked st s) \<and>
     sent t = sent s @ map (\<lambda>f. (client_id s, current_query_id s, f)) (fst (asked st s))"
proof -
  from assms(1,2) have "handler_ok s (HAuth a)" unfolding td_ok_def by blast
  then obtain st where st: "a = 0" "authorization_state s = Some st" by auto
  have "\<not> closes (q, Some (ObjError c m))" by (simp add: closes_def)
  from loop_ok [OF assms(1) this, of n] obtain t where t: "loop n (\<lambda>_. (q, Some (ObjError c m))) s = Inr t" "td_ok t"
    by blast
  have "loop n (\<lambda>_. (q, Some (ObjError c m))) s = on_authorization_state_update s"
    using assms st by (simp add: td_ok_def loop_def process_response_def check_authentication_error_def)
  with t(1) st(2) assms(1) obtain u where u: "auth_branch st (s\<lparr>auth_mutex := True\<rparr>) = Inr u" "t = u\<lparr>auth_mutex := False\<rparr>"
    by (cases "auth_branch st (s\<lparr>auth_mutex := True\<rparr>)") (auto simp: on_authorization_state_update_def td_ok_def)
  have "tdlib_params (s\<lparr>auth_mutex := True\<rparr>) = tdlib_params s" by (simp add: tdlib_params_def split: option.split)
  moreover have "\<exists>par. tdlib_params s = Inr par" using assms(1) by (auto simp: td_ok_def tdlib_params_def)
  ultimately have "stdin t = snd (asked st s) \<and>
      sent t = sent s @ map (\<lambda>f. (client_id s, current_query_id s, f)) (fst (asked st s))"
    using u assms(1)
    by (cases st) (auto simp: td_ok_def getline_def input_line_def send_auth_def send_query_eq
        split: list.splits prod.splits)
  with t st(2) show ?thesis by blast
qed

definition after_phone :: "td option" where
  "after_phone =
     (case feed [(0, Some (ObjUpdate (UpdateAuthorizationState AuthWaitPhoneNumber))),
                 (0, Some (ObjUpdate (UpdateAuthorizationState AuthWaitCode)))]
            (td_start\<lparr>stdin := [''+62'', ''12345'', ''99'']\<rparr>) of
        Inl _ \<Rightarrow> None | Inr s \<Rightarrow> Some s)"

lemma after_phone_state:
  "\<exists>s. after_phone = Some s \<and> td_ok s \<and> handlers s 1 = Some (HAuth 0) \<and>
     authorization_state s = Some AuthWaitCode \<and> stdin s = [''99'']"
proof -
  let ?s = "td_start\<lparr>stdin := [''+62'', ''12345'', ''99'']\<rparr>"
  have "td_ok ?s"
    by (simp add: td_ok_def td_start_val)
  from feed_ok [OF this, of "[(0, Some (ObjUpdate (UpdateAuthorizationState AuthWaitPhoneNumber))),
      (0, Some (ObjUpdate (UpdateAuthorizationState AuthWaitCode)))]"]
  obtain t where t: "after_phone = Some t" "td_ok t"
    by (auto simp: after_phone_def closes_def simp del: feed_Cons)
  have "authorization_state t = Some AuthWaitCode \<and> stdin t = [''99''] \<and> handlers t 1 = Some (HAuth 0)"
    using t(1)
    by (auto simp: after_phone_def td_start_val loop_def process_response_def getline_def
        on_authorization_state_update_def send_auth_def send_query_eq callback_execute_def
        create_authentication_query_handler_def emplace_def callback_set_def no_callbacks_def)
  with t show ?thesis by blast
qed

theorem late_auth_error_prompts_again_witness:
  "\<exists>s t. after_phone = Some s \<and> loop 1 (\<lambda>_. (1, Some (ObjError 400 ''PHONE_NUMBER_INVALID''))) s = Inr t \<and>
     td_ok t \<and> stdin t = [] \<and>
     sent t = sent s @ [(client_id s, current_query_id s, CheckAuthenticationCode ''99'')]"
proof -
  obtain s where s: "after_phone = Some s" "td_ok s" "handlers s 1 = Some (HAuth 0)"
    "authorization_state s = Some AuthWaitCode" "stdin s = [''99'']"
    using after_phone_state by blast
  from late_auth_error_prompts_again [OF s(2,3), of 1 400 "''PHONE_NUMBER_INVALID''"] s(1,4,5) show ?thesis
    by (auto simp: input_line_def)
qed

text \<open>
  The users are filed under the low 32 bits of their identifiers: when two accounts whose
  identifiers agree modulo 2 to the 32 are announced, only the later one can be found, under
  either identifier.
\<close>

theorem users_collide:
  assumes "td_ok s" and "u_id u mod 2 ^ 32 = u_id w mod 2 ^ 32"
  shows "\<exists>t. feed [(0, Some (ObjUpdate (UpdateUser u))), (0, Some (ObjUpdate (UpdateUser w)))] s = Inr t \<and>
     users t (user_key (u_id u)) = Some w \<and> users t (user_key (u_id w)) = Some w"
proof -
  have k: "user_key (u_id u) = user_key (u_id w)"
    using assms(2) by (simp add: user_key_def word_of_int_eq_iff take_bit_eq_mod)
  from feed_ok [OF assms(1), of "[(0, Some (ObjUpdate (UpdateUser u))), (0, Some (ObjUpdate (UpdateUser w)))]"]
  obtain t where t: "feed [(0, Some (ObjUpdate (UpdateUser u))), (0, Some (ObjUpdate (UpdateUser w)))] s = Inr t"
    "view_of t = fold observe [(0, Some (ObjUpdate (UpdateUser u))), (0, Some (ObjUpdate (UpdateUser w)))] (view_of s)"
    by (auto simp: closes_def simp del: feed_Cons)
  from arg_cong [OF t(2), of v_users] have "users t = (users s)(user_key (u_id u) \<mapsto> u, user_key (u_id w) \<mapsto> w)"
    by (simp add: view_of_def observe_def tell_def)
  with t(1) k show ?thesis by simp
qed

definition example_user :: "int \<Rightarrow> user" where
  "example_user i = \<lparr>u_id = i, u_username = ''a'', u_first_name = [], u_last_name = []\<rparr>"

theorem users_collide_witness:
  "\<exists>t. feed [(0, Some (ObjUpdate (UpdateUser (example_user 7)))),
        (0, Some (ObjUpdate (UpdateUser (example_user (7 + 2 ^ 32)))))] td_start = Inr t \<and>
     users t (user_key 7) = Some (example_user (7 + 2 ^ 32))"
  using users_collide [OF td_start_ok(1), of "example_user 7" "example_user (7 + 2 ^ 32)"]
  by (auto simp: example_user_def simp del: feed_Cons)

end
