(* ===== verification/TdSync.thy ===== *)
theory TdSync
  imports Td
begin

section \<open>The blocking query (Td::send_query_sync)\<close>

text \<open>
  The template \<open>send_query_sync\<close> registers a callback that writes to its own locals and then
  waits, at most one second at a time, until the callback has run or the timeout is reached.
  What the other threads do to the client during one such wait is an action, and the model
  takes the list of them; when the list runs out the caller is still waiting. The locals are
  the frame \<open>k\<close>, which dies when the function returns.
\<close>

datatype outcome = Waiting td | Returned "td_object option" td

definition frame_finished :: "nat \<Rightarrow> td \<Rightarrow> bool" where
  "frame_finished k s = (case frames s k of None \<Rightarrow> False | Some f \<Rightarrow> fr_finished f)"

definition leave_frame :: "nat \<Rightarrow> td \<Rightarrow> outcome" where
  "leave_frame k s =
     (case frames s k of
        None \<Rightarrow> Returned None s
      | Some f \<Rightarrow> Returned (fr_ret f) (s\<lparr>frames := (frames s)(k \<mapsto> f\<lparr>fr_live := False\<rparr>)\<rparr>))"

fun sync_loop ::
  "32 word \<Rightarrow> nat \<Rightarrow> 32 word \<Rightarrow> (td \<Rightarrow> ub + td) list \<Rightarrow> td \<Rightarrow> ub + outcome" where
  "sync_loop timeout k warn acts s =
     (if frame_finished k s then Inr (leave_frame k s)
      else case acts of
             [] \<Rightarrow> Inr (Waiting s)
           | act # acts \<Rightarrow>
               ebind (act s) (\<lambda>s.
                 let warn = warn + 1
                 in if 0 < sint timeout \<and> timeout \<le> warn then Inr (leave_frame k s)
                    else sync_loop timeout k warn acts s))"

declare sync_loop.simps [simp del]

definition new_frame :: frame where
  "new_frame = \<lparr>fr_live = True, fr_finished = False, fr_ret = None\<rparr>"

definition send_query_sync ::
  "nat \<Rightarrow> td_function \<Rightarrow> kind \<Rightarrow> 32 word \<Rightarrow> (td \<Rightarrow> ub + td) list \<Rightarrow> td \<Rightarrow> ub + outcome" where
  "send_query_sync k f want timeout acts s =
     ebind (send_query f (Some (HSync k want)) (s\<lparr>frames := (frames s)(k \<mapsto> new_frame)\<rparr>))
       (sync_loop timeout k 0 acts)"

subsection \<open>What the event loop leaves alone\<close>

text \<open>
  Registered handlers stay, new ones are never callbacks of blocking calls, and a frame is
  only written by the callback that captured it.
\<close>

definition extends :: "td \<Rightarrow> td \<Rightarrow> bool" where
  "extends s t \<longleftrightarrow> handlers s \<subseteq>\<^sub>m handlers t \<and>
     (\<forall>q k w. handlers t q = Some (HSync k w) \<longrightarrow> handlers s q = Some (HSync k w))"

lemma extends_refl [simp]: "extends s s"
  by (simp add: extends_def)

lemma extends_trans [trans]: "extends s t \<Longrightarrow> extends t u \<Longrightarrow> extends s u"
  by (auto simp: extends_def intro: map_le_trans)

lemma extends_same: "handlers t = handlers s \<Longrightarrow> extends s t"
  by (simp add: extends_def)

lemma le_emplace [simp]: "m \<subseteq>\<^sub>m emplace m k v"
  by (auto simp: emplace_def map_le_def split: option.splits)

lemma extends_send:
  assumes "send_query f h s = Inr t" and "\<forall>k w. h \<noteq> Some (HSync k w)"
  shows "extends s t \<and> frames t = frames s"
  using assms by (auto simp: send_query_eq extends_def dest!: emplace_SomeD
      split: if_splits option.splits)

lemma getline_state: "getline s = (l, t) \<Longrightarrow> handlers t = handlers s \<and> frames t = frames s"
  by (auto simp: getline_def split: list.splits)

lemma extends_send_auth: "send_auth f s = Inr t \<Longrightarrow> extends s t \<and> frames t = frames s"
  unfolding send_auth_def by (rule extends_send) (auto simp: create_authentication_query_handler_def)

lemma extends_auth_branch: "auth_branch st s = Inr t \<Longrightarrow> extends s t \<and> frames t = frames s"
  by (cases st)
    (auto split: prod.splits simp: ebind_eq_Inr dest!: extends_send_auth extends_send getline_state
      simp: extends_def)


lemma extends_on_auth:
  "on_authorization_state_update s = Inr t \<Longrightarrow> extends s t \<and> frames t = frames s"
  by (auto simp: on_authorization_state_update_def extends_def
      split: if_splits option.splits sum.splits simp: ebind_eq_Inr dest!: extends_auth_branch)

lemma callback_execute_frame [simp]:
  "handlers (callback_execute u s) = handlers s" "frames (callback_execute u s) = frames s"
  by (simp_all add: callback_execute_def)

lemma extends_process_update:
  assumes "process_update obj s = Inr t"
  shows "extends s t \<and> frames t = frames s"
proof (cases obj)
  case (ObjUpdate u)
  with assms show ?thesis
    by (cases u) (auto simp: extends_def ebind_eq_Inr dest!: extends_on_auth)
qed (use assms in auto)

lemma extends_run_handler:
  assumes "run_handler h obj s = Inr t"
  shows "extends s t \<and> (\<forall>k. (\<forall>w. h \<noteq> HSync k w) \<longrightarrow> frames t k = frames s k)"
proof (cases h)
  case (HAuth a)
  with assms show ?thesis
    by (auto simp: check_authentication_error_def split: if_splits dest!: extends_on_auth)
next
  case HGetMe
  with assms show ?thesis by (auto simp: extends_def split: td_object.splits)
next
  case (HSync k w)
  with assms show ?thesis
    by (auto simp: sync_callback_def extends_def Let_def split: option.splits if_splits)
qed

lemma extends_loop:
  assumes "loop n (\<lambda>_. (p, ob)) s = Inr t" and "\<And>w. handlers s p \<noteq> Some (HSync k w)"
  shows "extends s t \<and> frames t k = frames s k"
proof -
  have "extends s t \<and> frames t k = frames s k" if "process_response (p, ob) s = Inr t"
    using that assms(2)
    by (auto simp: process_response_def split: option.splits if_splits
        dest!: extends_process_update extends_run_handler)
  with assms(1) show ?thesis
    by (auto simp: loop_def restart_def extends_same split: if_splits)
qed

lemma loop_some: "td_ok s \<Longrightarrow> loop n (\<lambda>_. (q, Some obj)) s = process_response (q, Some obj) s"
  by (simp add: loop_def td_ok_def)

text \<open>Responses to other queries leave a blocking call waiting.\<close>

definition waits_for :: "nat \<Rightarrow> 64 word \<Rightarrow> kind \<Rightarrow> td \<Rightarrow> bool" where
  "waits_for k q want s \<longleftrightarrow> td_ok s \<and> q \<noteq> 0 \<and> handlers s q = Some (HSync k want) \<and>
     (\<forall>q' w. handlers s q' = Some (HSync k w) \<longrightarrow> q' = q) \<and> frames s k = Some new_frame"

lemma waits_for_feed:
  assumes "waits_for k q want s" and "\<forall>r \<in> set rs. \<not> closes r \<and> fst r \<noteq> q"
  shows "\<exists>t. feed rs s = Inr t \<and> waits_for k q want t"
  using assms
proof (induction rs arbitrary: s)
  case Nil
  then show ?case by simp
next
  case (Cons r rs)
  obtain p ob where r: "r = (p, ob)" by (cases r)
  from Cons.prems have ok: "td_ok s" "\<not> closes r" by (auto simp: waits_for_def)
  from loop_ok [OF ok, of 1] obtain u where u: "loop 1 (\<lambda>_. r) s = Inr u" "td_ok u" by blast
  have "handlers s p \<noteq> Some (HSync k w)" for w
    using Cons.prems r by (auto simp: waits_for_def)
  with u(1) r have "extends s u \<and> frames u k = frames s k"
    by (intro extends_loop [of 1 p ob]) auto
  with u Cons.prems(1) have "waits_for k q want u"
    by (auto simp: waits_for_def extends_def map_le_def dom_def)
  with Cons.IH [of u] Cons.prems(2) u(1) show ?case by auto
qed

lemma waits_for_unfinished: "waits_for k q want s \<Longrightarrow> \<not> frame_finished k s"
  by (simp add: waits_for_def frame_finished_def new_frame_def)

definition unrelated :: "64 word \<Rightarrow> response list \<Rightarrow> bool" where
  "unrelated q rs \<longleftrightarrow> (\<forall>r \<in> set rs. \<not> closes r \<and> fst r \<noteq> q)"

lemma sync_loop_waits:
  assumes "waits_for k q want s" and "\<forall>rs \<in> set rss. unrelated q rs"
    and "0 < sint timeout \<Longrightarrow> unat warn + length rss < unat timeout"
  shows "\<exists>t. waits_for k q want t \<and>
     sync_loop timeout k warn (map feed rss @ acts) s =
     sync_loop timeout k (warn + word_of_nat (length rss)) acts t"
  using assms
proof (induction rss arbitrary: s warn)
  case Nil
  then show ?case by auto
next
  case (Cons rs rss)
  from waits_for_feed [OF Cons.prems(1), of rs] Cons.prems(2)
  obtain u where u: "feed rs s = Inr u" "waits_for k q want u" by (auto simp: unrelated_def)
  have on: "unat (warn + 1) = unat warn + 1" "\<not> timeout \<le> warn + 1" if "0 < sint timeout"
  proof -
    from Cons.prems(3) [OF that] have "warn < timeout" by (simp add: word_less_nat_alt)
    then show "unat (warn + 1) = unat warn + 1" by (rule unat_Suc_below)
    with Cons.prems(3) [OF that] show "\<not> timeout \<le> warn + 1" by (simp add: word_le_nat_alt)
  qed
  then have "0 < sint timeout \<Longrightarrow> unat (warn + 1) + length rss < unat timeout"
    using Cons.prems(3) by simp
  with Cons.IH [OF u(2)] Cons.prems(2) obtain t where t: "waits_for k q want t"
    "sync_loop timeout k (warn + 1) (map feed rss @ acts) u =
     sync_loop timeout k (warn + 1 + word_of_nat (length rss)) acts t"
    by auto
  have "sync_loop timeout k warn (map feed (rs # rss) @ acts) s =
        sync_loop timeout k (warn + 1) (map feed rss @ acts) u"
    using waits_for_unfinished [OF Cons.prems(1)] u(1) on(2)
    by (subst sync_loop.simps) (auto simp: Let_def)
  with t show ?case by (auto simp: algebra_simps)
qed

text \<open>The call as it starts.\<close>

lemma sync_starts:
  assumes "td_ok s" "reg_inv s" "current_query_id s \<noteq> 0" "frames s k = None"
  shows "\<exists>t. waits_for k (current_query_id s) want t \<and>
     send_query_sync k f want timeout acts s = sync_loop timeout k 0 acts t"
proof -
  let ?s = "s\<lparr>frames := (frames s)(k \<mapsto> new_frame)\<rparr>"
  have no_k: "handlers s q \<noteq> Some (HSync k w)" for q w
    using assms(1,4) by (fastforce simp: td_ok_def)
  have ok: "handler_ok ?s h" if "handlers s q = Some h" for q h
    by (rule handler_ok_mono [of s])
      (use that assms(1) in \<open>auto simp: td_ok_def new_frame_def\<close>)
  then have "td_ok ?s" using assms(1) by (simp add: td_ok_def)
  obtain t where t: "send_query f (Some (HSync k want)) ?s = Inr t"
    using assms(1) by (simp add: send_query_eq td_ok_def)
  from t have h: "handlers t = (handlers s)(current_query_id s \<mapsto> HSync k want)"
    "frames t k = Some new_frame"
    using reg_inv_fresh [OF assms(2)] by (auto simp: send_query_eq split: if_splits)
  have "td_ok t"
    using td_ok_send [OF \<open>td_ok ?s\<close> t] by (simp add: new_frame_def)
  with h no_k assms(3) have "waits_for k (current_query_id s) want t"
    by (auto simp: waits_for_def)
  with t show ?thesis by (auto simp: send_query_sync_def)
qed

text \<open>After the answer, responses to other queries do not touch the frame.\<close>

lemma answered_stays:
  assumes "td_ok s" and "\<And>p w. handlers s p = Some (HSync k w) \<Longrightarrow> p = q" and "unrelated q rs"
  shows "\<exists>t. feed rs s = Inr t \<and> frames t k = frames s k"
  using assms
proof (induction rs arbitrary: s)
  case Nil
  then show ?case by simp
next
  case (Cons r rs)
  obtain p ob where r: "r = (p, ob)" by (cases r)
  from Cons.prems(3) r have p: "\<not> closes r" "p \<noteq> q" "unrelated q rs" by (auto simp: unrelated_def)
  from loop_ok [OF Cons.prems(1) p(1), of 1] obtain u where
    u: "loop 1 (\<lambda>_. r) s = Inr u" "td_ok u" by blast
  have e: "extends s u \<and> frames u k = frames s k"
    using u(1) r p(2) Cons.prems(2) by (intro extends_loop [of 1 p ob]) auto
  then have "handlers u p = Some (HSync k w) \<Longrightarrow> p = q" for p w
    using Cons.prems(2) by (auto simp: extends_def)
  from Cons.IH [OF u(2) this p(3)] u(1) e show ?case by auto
qed

lemma leave_waiting:
  "waits_for k q want s \<Longrightarrow>
     \<exists>t. leave_frame k s = Returned None t \<and> handlers t = handlers s \<and>
       frames t k = Some (new_frame\<lparr>fr_live := False\<rparr>)"
  by (simp add: waits_for_def leave_frame_def new_frame_def)

text \<open>The seconds a call with a positive timeout waits for an answer that does not come.\<close>

lemma sync_loop_times_out:
  assumes "waits_for k q want s" and "\<forall>rs \<in> set rss. unrelated q rs"
    and "0 < sint timeout" and "length rss = unat timeout"
  shows "\<exists>t. waits_for k q want t \<and>
     sync_loop timeout k 0 (map feed rss @ acts) s = Inr (leave_frame k t)"
proof -
  have "0 < unat timeout" using assms(3) by (metis gr0I sint_0 unat_eq_zero less_irrefl)
  then obtain pre rs where rss: "rss = pre @ [rs]" "length pre + 1 = unat timeout"
    using assms(4) by (cases rss rule: rev_cases) auto
  with assms(2,3) obtain t where t: "waits_for k q want t"
    "sync_loop timeout k 0 (map feed pre @ map feed [rs] @ acts) s =
     sync_loop timeout k (word_of_nat (length pre)) (map feed [rs] @ acts) t"
    using sync_loop_waits [OF assms(1), of pre timeout 0 "map feed [rs] @ acts"] by auto
  from waits_for_feed [OF t(1), of rs] assms(2) rss
  obtain u where u: "feed rs t = Inr u" "waits_for k q want u" by (auto simp: unrelated_def)
  have "word_of_nat (length pre) + 1 = timeout"
    using arg_cong [OF rss(2), of "word_of_nat :: nat \<Rightarrow> 32 word"] by (simp add: add.commute)
  with t u rss(1) waits_for_unfinished [OF t(1)] assms(3) show ?thesis
    by (intro exI [of _ u], subst (asm) (2) sync_loop.simps) (auto simp: Let_def)
qed

text \<open>The second in which the answer arrives.\<close>

lemma sync_loop_answered:
  assumes "waits_for k q want s" and "unrelated q pre" and "unrelated q post"
  shows "\<exists>t. sync_loop timeout k warn (feed (pre @ (q, Some obj) # post) # acts) s = Inr (Returned
     (if kind_of obj \<noteq> KError \<and> kind_of obj = want then Some obj else None) t)"
proof -
  from waits_for_feed [OF assms(1), of pre] assms(2)
  obtain u where u: "feed pre s = Inr u" "waits_for k q want u" by (auto simp: unrelated_def)
  let ?ret = "if kind_of obj \<noteq> KError \<and> kind_of obj = want then Some obj else None"
  let ?f = "new_frame\<lparr>fr_finished := True, fr_ret := ?ret\<rparr>"
  define v where "v = u\<lparr>frames := (frames u)(k \<mapsto> ?f)\<rparr>"
  have run: "process_response (q, Some obj) u = Inr v"
    using u(2) by (auto simp: waits_for_def process_response_def sync_callback_def
        new_frame_def v_def Let_def)
  have nc: "\<not> closes (q, Some obj)" using u(2) by (auto simp: closes_def waits_for_def)
  have lp: "loop 1 (\<lambda>_. (q, Some obj)) u = Inr v"
    using u(2) run by (simp add: waits_for_def loop_some)
  have "td_ok v"
    using process_response_ok [OF _ nc, of u] u(2) run by (simp add: waits_for_def)
  have "\<And>p w. handlers v p = Some (HSync k w) \<Longrightarrow> p = q"
    using u(2) by (simp add: waits_for_def v_def)
  with answered_stays [OF \<open>td_ok v\<close> _ assms(3), of k] obtain t where
    "feed post v = Inr t" "frames t k = frames v k" by metis
  then show ?thesis
    using u lp waits_for_unfinished [OF assms(1)]
    by (subst sync_loop.simps, subst sync_loop.simps)
      (auto simp: feed_append Let_def leave_frame_def frame_finished_def v_def)
qed

subsection \<open>Properties\<close>

text \<open>The state in which the program makes its blocking calls.\<close>

definition may_call :: "nat \<Rightarrow> td \<Rightarrow> bool" where
  "may_call k s \<longleftrightarrow> td_ok s \<and> reg_inv s \<and> current_query_id s \<noteq> 0 \<and> frames s k = None"

lemma td_start_may_call: "may_call 0 td_start" "current_query_id td_start = 1"
  using td_start_ok by (simp_all add: may_call_def td_start_val)

text \<open>A call that is answered in time.\<close>

lemma sync_answered:
  assumes "may_call k s" and "\<forall>rs \<in> set rss. unrelated (current_query_id s) rs"
    and "unrelated (current_query_id s) pre" and "unrelated (current_query_id s) post"
    and "0 < sint timeout \<longrightarrow> length rss < unat timeout"
  shows "\<exists>t. send_query_sync k f want timeout
       (map feed rss @ feed (pre @ (current_query_id s, Some obj) # post) # acts) s =
     Inr (Returned (if kind_of obj \<noteq> KError \<and> kind_of obj = want then Some obj else None) t)"
proof -
  let ?q = "current_query_id s"
  let ?acts = "feed (pre @ (?q, Some obj) # post) # acts"
  from sync_starts [of s k] assms(1) obtain u where u: "waits_for k ?q want u"
    "send_query_sync k f want timeout (map feed rss @ ?acts) s =
     sync_loop timeout k 0 (map feed rss @ ?acts) u"
    unfolding may_call_def by blast
  from sync_loop_waits [OF u(1) assms(2), of timeout 0 ?acts] assms(5) obtain v where
    "waits_for k ?q want v"
    "sync_loop timeout k 0 (map feed rss @ ?acts) u =
     sync_loop timeout k (word_of_nat (length rss)) ?acts v" by auto
  with sync_loop_answered [OF _ assms(3,4)] u(2) show ?thesis by simp
qed


definition some_chats :: td_object where
  "some_chats = ObjChats \<lparr>cs_total_count = 1, cs_chat_ids = [5]\<rparr>"


text \<open>A call that is not answered in time.\<close>

lemma sync_timed_out:
  assumes "may_call k s" and "\<forall>rs \<in> set rss. unrelated (current_query_id s) rs"
    and "0 < sint timeout" and "length rss = unat timeout"
  shows "\<exists>t. send_query_sync k f want timeout (map feed rss @ acts) s = Inr (Returned None t) \<and>
     (\<forall>obj. process_response (current_query_id s, Some obj) t = Inl UseAfterFree)"
proof -
  let ?q = "current_query_id s"
  from sync_starts [of s k] assms(1) obtain u where u: "waits_for k ?q want u"
    "send_query_sync k f want timeout (map feed rss @ acts) s =
     sync_loop timeout k 0 (map feed rss @ acts) u"
    unfolding may_call_def by blast
  from sync_loop_times_out [OF u(1) assms(2-4)] obtain v where v: "waits_for k ?q want v"
    "sync_loop timeout k 0 (map feed rss @ acts) u = Inr (leave_frame k v)" by blast
  from leave_waiting [OF v(1)] obtain t where "leave_frame k v = Returned None t"
    "handlers t = handlers v" "frames t k = Some (new_frame\<lparr>fr_live := False\<rparr>)" by blast
  with u v show ?thesis
    by (auto simp: waits_for_def process_response_def sync_callback_def)
qed



text \<open>
  Without a positive timeout (the default is -1) the call never gives up: as long as no
  answer to its query is processed by the event loop, it is still waiting, however many
  seconds have passed.
\<close>

theorem sync_call_waits_forever:
  assumes "may_call k s" and "\<forall>rs \<in> set rss. unrelated (current_query_id s) rs"
    and "sint timeout \<le> 0"
  shows "\<exists>t. send_query_sync k f want timeout (map feed rss) s = Inr (Waiting t)"
proof -
  let ?q = "current_query_id s"
  from sync_starts [of s k] assms(1) obtain u where u: "waits_for k ?q want u"
    "send_query_sync k f want timeout (map feed rss) s = sync_loop timeout k 0 (map feed rss) u"
    unfolding may_call_def by blast
  from sync_loop_waits [OF u(1) assms(2), of timeout 0 "[]"] assms(3) obtain v where
    "waits_for k ?q want v" "sync_loop timeout k 0 (map feed rss) u =
     sync_loop timeout k (word_of_nat (length rss)) [] v" by auto
  with u(2) waits_for_unfinished show ?thesis by (auto simp: sync_loop.simps)
qed

theorem sync_call_waits_forever_witness:
  "\<exists>t. send_query_sync 0 (GetChats 0 0 300) KChats (- 1) (map feed (replicate 1000 [])) td_start =
     Inr (Waiting t)"
  by (rule sync_call_waits_forever) (auto simp: td_start_may_call unrelated_def)

end
