(* ===== verification/DB.thy ===== *)
theory DB
  imports CLib
begin

section \<open>Database connections (DB.cpp, DBCommon.hpp, DBFunc/DBStatement.hpp and their old versions)\<close>

text \<open>
  The class \<open>DB\<close> keeps the credentials in fixed-size arrays and owns at most one session of the
  MySQL X client library; \<open>DBStatement\<close> owns the result of its last execution. The client
  library is outside: the model keeps its ledger of handles (which sessions, results and
  error objects have been handed out and not released), as its header documents them, and
  what the server answers is an argument of the operations.
\<close>

subsection \<open>The handles of the client library\<close>

record xapi =
  x_sessions :: "nat set"
  x_results :: "nat \<Rightarrow> nat option"     \<comment> \<open>a live result and the session it belongs to\<close>
  x_errors :: "nat set"
  x_next :: nat

definition xapi_init :: xapi where
  "xapi_init = \<lparr>x_sessions = {}, x_results = Map.empty, x_errors = {}, x_next = 0\<rparr>"

text \<open>What the server says to a login: \<open>None\<close> accepts, \<open>Some (message, code)\<close> refuses.\<close>

type_synonym server = "string \<Rightarrow> 16 word \<Rightarrow> string \<Rightarrow> string \<Rightarrow> string \<Rightarrow> (string \<times> int) option"

definition mysqlx_get_session ::
  "(string \<times> int) option \<Rightarrow> xapi \<Rightarrow> ((nat \<times> string \<times> int) + nat) \<times> xapi" where
  "mysqlx_get_session answer x =
     (let h = x_next x; x = x\<lparr>x_next := Suc h\<rparr> in
      case answer of
        None \<Rightarrow> (Inr h, x\<lparr>x_sessions := insert h (x_sessions x)\<rparr>)
      | Some (msg, code) \<Rightarrow> (Inl (h, msg, code), x\<lparr>x_errors := insert h (x_errors x)\<rparr>))"

text \<open>Closing a session releases the results that belong to it.\<close>

definition mysqlx_session_close :: "nat \<Rightarrow> xapi \<Rightarrow> xapi" where
  "mysqlx_session_close h x =
     x\<lparr>x_sessions := x_sessions x - {h},
       x_results := (\<lambda>r. if x_results x r = Some h then None else x_results x r)\<rparr>"

definition mysqlx_free_error :: "nat \<Rightarrow> xapi \<Rightarrow> xapi" where
  "mysqlx_free_error e x = x\<lparr>x_errors := x_errors x - {e}\<rparr>"

definition mysqlx_free_result :: "nat \<Rightarrow> xapi \<Rightarrow> xapi" where
  "mysqlx_free_result r x = x\<lparr>x_results := (x_results x)(r := None)\<rparr>"

definition mysqlx_execute :: "nat \<Rightarrow> xapi \<Rightarrow> nat \<times> xapi" where
  "mysqlx_execute sess x =
     (x_next x, x\<lparr>x_results := (x_results x)(x_next x \<mapsto> sess), x_next := Suc (x_next x)\<rparr>)"

subsection \<open>The class DB\<close>

record db =
  db_port :: "16 word"
  db_host :: "char list"
  db_user :: "char list"
  db_pass :: "char list"
  db_database :: "char list"
  db_sess :: "nat option"

text \<open>
  The constructors. A member array that the constructor does not write has unspecified
  contents, which \<open>uninit\<close> supplies; both versions copy with \<open>strncpy\<close> and terminate.
\<close>

definition db_default :: "db \<Rightarrow> db" where
  "db_default uninit = uninit\<lparr>db_sess := None\<rparr>"

definition db_new ::
  "db \<Rightarrow> string \<Rightarrow> 16 word \<Rightarrow> string \<Rightarrow> string \<Rightarrow> string \<Rightarrow> ub + db" where
  "db_new uninit host port user pass database =
     ebind (copy_bounded (db_host uninit) host) (\<lambda>h.
     ebind (copy_bounded (db_user uninit) user) (\<lambda>u.
     ebind (copy_bounded (db_pass uninit) pass) (\<lambda>p.
     ebind (copy_bounded (db_database uninit) database) (\<lambda>n.
       Inr \<lparr>db_port = (if port = 0 then 33060 else port), db_host = h, db_user = u,
            db_pass = p, db_database = n, db_sess = None\<rparr>))))"

definition db_close :: "db \<times> xapi \<Rightarrow> db \<times> xapi" where
  "db_close = (\<lambda>(d, x).
     case db_sess d of
       None \<Rightarrow> (d, x)
     | Some h \<Rightarrow> (d\<lparr>db_sess := None\<rparr>, mysqlx_session_close h x))"

text \<open>\<open>snprintf(buf, n, "MySQL Error: %s (code: %d)", \<dots>)\<close>.\<close>

definition mysql_error_text :: "nat \<Rightarrow> string \<Rightarrow> int \<Rightarrow> string" where
  "mysql_error_text n msg code =
     snprintf_str n (''MySQL Error: '' @ msg @ '' (code: '' @ dec_int code @ '')'')"

text \<open>A library function that reads a credential array as a C string.\<close>

definition c_arg :: "char list \<Rightarrow> exn + string" where
  "c_arg buf = (if has_nul buf then Inr (cstr buf) else Inl (Ub OutOfBounds))"

definition db_credentials :: "db \<Rightarrow> exn + (string \<times> 16 word \<times> string \<times> string \<times> string)" where
  "db_credentials d =
     ebind (c_arg (db_host d)) (\<lambda>h. ebind (c_arg (db_user d)) (\<lambda>u.
     ebind (c_arg (db_pass d)) (\<lambda>p. ebind (c_arg (db_database d)) (\<lambda>n.
       Inr (h, db_port d, u, p, n)))))"

definition db_login :: "server \<Rightarrow> db \<times> xapi \<Rightarrow> (exn + unit) \<times> db \<times> xapi" where
  "db_login server = (\<lambda>(d, x).
     case db_credentials d of
       Inl e \<Rightarrow> (Inl e, d, x)
     | Inr (h, port, u, p, n) \<Rightarrow>
         (case mysqlx_get_session (server h port u p n) x of
            (Inr sess, x) \<Rightarrow> (Inr (), d\<lparr>db_sess := Some sess\<rparr>, x)
          | (Inl (e, msg, code), x) \<Rightarrow>
              (Inl (Thrown (mysql_error_text 512 msg code)), d, mysqlx_free_error e x)))"

definition db_connect :: "server \<Rightarrow> db \<times> xapi \<Rightarrow> (exn + unit) \<times> db \<times> xapi" where
  "db_connect server = (\<lambda>(d, x).
     db_login server (if db_sess d \<noteq> None then db_close (d, x) else (d, x)))"

text \<open>
  \<open>DBChkFail\<close>: \<open>fail\<close> is the error the library call left in the session, if any; a call on
  a null session returns \<open>RESULT_ERROR\<close> and has no message (\<open>printf\<close> shows \<open>(null)\<close>).
\<close>

definition tx_outcome :: "nat option \<Rightarrow> (string \<times> int) option \<Rightarrow> (string \<times> int) option" where
  "tx_outcome sess fail = (case sess of None \<Rightarrow> Some (''(null)'', 0) | Some _ \<Rightarrow> fail)"

definition db_chk_fail :: "(string \<times> int) option \<Rightarrow> exn + unit" where
  "db_chk_fail fail =
     (case fail of
        None \<Rightarrow> Inr ()
      | Some (msg, code) \<Rightarrow> Inl (Thrown (mysql_error_text 512 msg code)))"

definition db_begin :: "(string \<times> int) option \<Rightarrow> db \<Rightarrow> exn + unit" where
  "db_begin fail d = db_chk_fail (tx_outcome (db_sess d) fail)"

definition db_commit :: "(string \<times> int) option \<Rightarrow> db \<Rightarrow> exn + unit" where
  "db_commit fail d = db_chk_fail (tx_outcome (db_sess d) fail)"

definition db_rollback :: "(string \<times> int) option \<Rightarrow> db \<Rightarrow> exn + unit" where
  "db_rollback fail d = db_chk_fail (tx_outcome (db_sess d) fail)"

definition db_destroy :: "db \<times> xapi \<Rightarrow> xapi" where
  "db_destroy s = snd (db_close s)"

text \<open>\<open>create_conn_from_env\<close>: the five variables in the order they are looked up.\<close>

definition env_or_throw :: "(string \<Rightarrow> string option) \<Rightarrow> string \<Rightarrow> exn + string" where
  "env_or_throw env name =
     (case env name of None \<Rightarrow> Inl (Thrown (''Missing '' @ name)) | Some v \<Rightarrow> Inr v)"

definition create_conn_from_env :: "(string \<Rightarrow> string option) \<Rightarrow> db \<Rightarrow> exn + db" where
  "create_conn_from_env env uninit =
     ebind (env_or_throw env ''TGVISD_DB_HOST'') (\<lambda>host.
     ebind (env_or_throw env ''TGVISD_DB_PORT'') (\<lambda>port.
     let port_num = ucast (atoi port) in
     ebind (env_or_throw env ''TGVISD_DB_USER'') (\<lambda>user.
     ebind (env_or_throw env ''TGVISD_DB_PASS'') (\<lambda>pass.
     ebind (env_or_throw env ''TGVISD_DB_NAME'') (\<lambda>database.
       lift_ub (db_new uninit host port_num user pass database))))))"

subsection \<open>The old class DB\<close>

text \<open>The arrays start zeroed, with 128, 64, 64 and 64 bytes, and the port as 33060.\<close>

definition old_db_new ::
  "string \<Rightarrow> 16 word \<Rightarrow> string \<Rightarrow> string \<Rightarrow> string \<Rightarrow> ub + db" where
  "old_db_new host port user pass database =
     ebind (copy_bounded (replicate 128 NUL) host) (\<lambda>h.
     ebind (copy_bounded (replicate 64 NUL) user) (\<lambda>u.
     ebind (copy_bounded (replicate 64 NUL) pass) (\<lambda>p.
     ebind (copy_bounded (replicate 64 NUL) database) (\<lambda>n.
       Inr \<lparr>db_port = (if port \<noteq> 0 then port else 33060), db_host = h, db_user = u,
            db_pass = p, db_database = n, db_sess = None\<rparr>))))"

definition old_db_connect :: "server \<Rightarrow> db \<times> xapi \<Rightarrow> (exn + bool) \<times> db \<times> xapi" where
  "old_db_connect server = (\<lambda>(d, x).
     (case db_credentials d of
        Inl e \<Rightarrow> (Inl e, d, x)
      | Inr (h, port, u, p, n) \<Rightarrow>
          (case mysqlx_get_session (server h port u p n) x of
             (Inr sess, x) \<Rightarrow> (Inr True, d\<lparr>db_sess := Some sess\<rparr>, x)
           | (Inl (e, msg, code), x) \<Rightarrow>
               (Inl (Thrown (mysql_error_text 2048 msg code)), d, mysqlx_free_error e x))))"

definition old_db_destroy :: "db \<times> xapi \<Rightarrow> xapi" where
  "old_db_destroy = (\<lambda>(d, x).
     case db_sess d of None \<Rightarrow> x | Some h \<Rightarrow> mysqlx_session_close h x)"

subsection \<open>Who owns the sessions\<close>

text \<open>
  The contract of an object that owns sessions: each of its operations leaves open exactly
  the sessions it still holds, and destroying it closes them. What a client may conclude is
  proved once, here: after any sequence of operations, destroying the object leaves no
  session open.
\<close>

text \<open>The handles already given out are below the next one.\<close>

definition xapi_ok :: "xapi \<Rightarrow> bool" where
  "xapi_ok x \<longleftrightarrow> (\<forall>h \<in> x_sessions x \<union> x_errors x \<union> dom (x_results x). h < x_next x)"

definition owns_all :: "nat set \<Rightarrow> xapi \<Rightarrow> bool" where
  "owns_all held x \<longleftrightarrow> x_sessions x = held \<and> xapi_ok x"

locale session_owner =
  fixes step :: "'op \<Rightarrow> 'd \<times> xapi \<Rightarrow> (exn + 'r) \<times> 'd \<times> xapi"
    and destroy :: "'d \<times> xapi \<Rightarrow> xapi"
    and held :: "'d \<Rightarrow> nat set"
  assumes step_owns: "owns_all (held d) x \<Longrightarrow> step op (d, x) = (r, d', x') \<Longrightarrow>
      owns_all (held d') x' \<and> x_errors x' = x_errors x"
    and destroy_owns: "owns_all (held d) x \<Longrightarrow>
      x_sessions (destroy (d, x)) = {} \<and> x_errors (destroy (d, x)) = x_errors x"
begin

lemma run_owns:
  "owns_all (held d) x \<Longrightarrow> fold (\<lambda>op s. snd (step op s)) ops (d, x) = (d', x') \<Longrightarrow>
   owns_all (held d') x' \<and> x_errors x' = x_errors x"
proof (induction ops arbitrary: d x)
  case (Cons op ops)
  obtain r d1 x1 where s: "step op (d, x) = (r, d1, x1)" by (metis prod_cases3)
  with step_owns [OF Cons.prems(1) s] Cons show ?case by auto
qed simp

lemma no_session_left:
  assumes "owns_all (held d) x"
  shows "x_sessions (destroy (fold (\<lambda>op s. snd (step op s)) ops (d, x))) = {} \<and>
    x_errors (destroy (fold (\<lambda>op s. snd (step op s)) ops (d, x))) = x_errors x"
proof -
  obtain d' x' where f: "fold (\<lambda>op s. snd (step op s)) ops (d, x) = (d', x')"
    by (cases "fold (\<lambda>op s. snd (step op s)) ops (d, x)")
  with run_owns [OF assms f] destroy_owns show ?thesis by simp
qed

end

datatype db_op =
    OpConnect server
  | OpClose
  | OpBegin "(string \<times> int) option"
  | OpCommit "(string \<times> int) option"
  | OpRollback "(string \<times> int) option"

fun db_step :: "db_op \<Rightarrow> db \<times> xapi \<Rightarrow> (exn + unit) \<times> db \<times> xapi" where
  "db_step (OpConnect server) s = db_connect server s"
| "db_step OpClose s = (Inr (), db_close s)"
| "db_step (OpBegin fail) (d, x) = (db_begin fail d, d, x)"
| "db_step (OpCommit fail) (d, x) = (db_commit fail d, d, x)"
| "db_step (OpRollback fail) (d, x) = (db_rollback fail d, d, x)"

definition db_held :: "db \<Rightarrow> nat set" where
  "db_held d = set_option (db_sess d)"

lemma xapi_ok_close [simp]: "xapi_ok x \<Longrightarrow> xapi_ok (mysqlx_session_close h x)"
  by (auto simp: xapi_ok_def mysqlx_session_close_def split: if_splits)

lemma db_close_owns:
  "owns_all (db_held d) x \<Longrightarrow> db_close (d, x) = (d', x') \<Longrightarrow>
     db_sess d' = None \<and> owns_all {} x' \<and> x_errors x' = x_errors x"
  by (auto simp: db_close_def db_held_def owns_all_def split: option.splits)
    (auto simp: mysqlx_session_close_def)

text \<open>A refused login hands out an error object, which is freed before the exception is thrown.\<close>

lemma get_session_accepted:
  "owns_all {} x \<Longrightarrow> mysqlx_get_session answer x = (Inr h, x') \<Longrightarrow>
     owns_all {h} x' \<and> x_errors x' = x_errors x"
  by (auto simp: mysqlx_get_session_def owns_all_def xapi_ok_def Let_def less_Suc_eq
      split: option.splits)

lemma get_session_refused:
  "owns_all H x \<Longrightarrow> mysqlx_get_session answer x = (Inl (e, m, c), x') \<Longrightarrow>
     owns_all H (mysqlx_free_error e x') \<and> x_errors (mysqlx_free_error e x') = x_errors x"
proof -
  assume o: "owns_all H x" and g: "mysqlx_get_session answer x = (Inl (e, m, c), x')"
  then have "e = x_next x" "x' = x\<lparr>x_next := Suc e, x_errors := insert e (x_errors x)\<rparr>"
    by (auto simp: mysqlx_get_session_def Let_def split: option.splits)
  moreover from o have "x_next x \<notin> x_errors x" by (auto simp: owns_all_def xapi_ok_def)
  ultimately show ?thesis
    using o by (auto simp: mysqlx_free_error_def owns_all_def xapi_ok_def less_Suc_eq)
qed

lemma db_connect_owns:
  assumes "owns_all (db_held d) x" and "db_connect server (d, x) = (r, d', x')"
  shows "owns_all (db_held d') x' \<and> x_errors x' = x_errors x"
proof -
  obtain d1 x1 where c: "(if db_sess d \<noteq> None then db_close (d, x) else (d, x)) = (d1, x1)"
    by (cases "if db_sess d \<noteq> None then db_close (d, x) else (d, x)")
  have o: "db_sess d1 = None" "owns_all {} x1" "x_errors x1 = x_errors x"
    using c db_close_owns [OF assms(1)] assms(1) by (auto simp: db_held_def split: if_splits)
  have eq: "db_connect server (d, x) = db_login server (d1, x1)"
    by (simp only: db_connect_def db_login_def prod.case c)
  show ?thesis
  proof (cases "db_credentials d1")
    case (Inl e)
    with eq o assms(2) show ?thesis by (simp add: db_login_def db_held_def)
  next
    case (Inr a)
    obtain h port u p n where a: "a = (h, port, u, p, n)" by (cases a)
    obtain ans x2 where g: "mysqlx_get_session (server h port u p n) x1 = (ans, x2)"
      by (cases "mysqlx_get_session (server h port u p n) x1")
    show ?thesis
    proof (cases ans)
      case (Inr sess)
      with g o(2) have "owns_all {sess} x2 \<and> x_errors x2 = x_errors x1"
        by (simp add: get_session_accepted)
      with Inr eq g a o \<open>db_credentials d1 = Inr a\<close> assms(2) show ?thesis
        by (auto simp: db_login_def db_held_def)
    next
      case (Inl e)
      obtain e' m c where e: "e = (e', m, c)" by (cases e)
      with Inl g o(2) have "owns_all {} (mysqlx_free_error e' x2) \<and>
          x_errors (mysqlx_free_error e' x2) = x_errors x1"
        by (simp add: get_session_refused)
      with Inl e eq g a o \<open>db_credentials d1 = Inr a\<close> assms(2) show ?thesis
        by (auto simp: db_login_def db_held_def)
    qed
  qed
qed

lemma db_connect_fails:
  assumes "db_connect server (d, x) = (Inl e, d', x')"
  shows "db_sess d' = None"
proof -
  obtain d1 x1 where c: "(if db_sess d \<noteq> None then db_close (d, x) else (d, x)) = (d1, x1)"
    by (cases "if db_sess d \<noteq> None then db_close (d, x) else (d, x)")
  then have "db_sess d1 = None" by (auto simp: db_close_def split: if_splits option.splits)
  moreover have "db_login server (d1, x1) = (Inl e, d', x')"
    using assms by (simp only: db_connect_def prod.case c)
  ultimately show ?thesis
    by (auto simp: db_login_def split: sum.splits prod.splits)
qed

interpretation db_owner: session_owner db_step db_destroy db_held
proof (unfold_locales, goal_cases)
  case (1 d x op r d' x')
  then show ?case
  proof (cases op)
    case OpClose
    with 1 db_close_owns [OF 1(1)] show ?thesis by (auto simp: db_held_def)
  qed (auto dest: db_connect_owns)
next
  case (2 d x)
  then show ?case
    using db_close_owns [OF 2] by (cases "db_close (d, x)") (simp add: db_destroy_def owns_all_def)
qed

text \<open>The old \<open>connect\<close> overwrites the session it holds.\<close>

lemma old_db_connect_accepted:
  assumes "db_credentials d = Inr (h, port, u, p, n)" and "server h port u p n = None"
  shows "old_db_connect server (d, x) =
     (Inr True, d\<lparr>db_sess := Some (x_next x)\<rparr>,
      x\<lparr>x_next := Suc (x_next x), x_sessions := insert (x_next x) (x_sessions x)\<rparr>)"
  using assms by (simp add: old_db_connect_def mysqlx_get_session_def Let_def)

lemma db_credentials_sess [simp]: "db_credentials (d\<lparr>db_sess := s\<rparr>) = db_credentials d"
  by (simp add: db_credentials_def)

definition old_reconnect :: "server \<Rightarrow> nat \<Rightarrow> db \<times> xapi \<Rightarrow> db \<times> xapi" where
  "old_reconnect server n s = ((\<lambda>s. snd (old_db_connect server s)) ^^ n) s"

lemma old_reconnects:
  assumes "db_credentials d = Inr (h, port, u, p, n)" and "server h port u p n = None"
  shows "old_reconnect server (Suc k) (d, x) =
     (d\<lparr>db_sess := Some (x_next x + k)\<rparr>,
      x\<lparr>x_next := x_next x + Suc k, x_sessions := x_sessions x \<union> {x_next x ..< x_next x + Suc k}\<rparr>)"
proof (induction k)
  case 0
  have "old_db_connect server (d, x) =
     (Inr True, d\<lparr>db_sess := Some (x_next x)\<rparr>,
      x\<lparr>x_next := Suc (x_next x), x_sessions := insert (x_next x) (x_sessions x)\<rparr>)"
    using assms by (rule old_db_connect_accepted)
  then show ?case by (simp add: old_reconnect_def)
next
  case (Suc k)
  have c: "old_db_connect server (d\<lparr>db_sess := s\<rparr>, y) =
     (Inr True, d\<lparr>db_sess := Some (x_next y)\<rparr>,
      y\<lparr>x_next := Suc (x_next y), x_sessions := insert (x_next y) (x_sessions y)\<rparr>)" for s y
    using old_db_connect_accepted [of "d\<lparr>db_sess := s\<rparr>" h port u p n server y] assms by simp
  have "old_reconnect server (Suc (Suc k)) (d, x) =
        snd (old_db_connect server (old_reconnect server (Suc k) (d, x)))"
    by (simp add: old_reconnect_def)
  also have "\<dots> = (d\<lparr>db_sess := Some (x_next x + Suc k)\<rparr>,
      x\<lparr>x_next := x_next x + Suc (Suc k),
        x_sessions := insert (x_next x + Suc k) (x_sessions x \<union> {x_next x ..< x_next x + Suc k})\<rparr>)"
    unfolding Suc by (simp add: c)
  finally show ?case by (simp add: atLeastLessThanSuc)
qed

subsection \<open>Credentials\<close>

lemma copy_128:
  "length buf = 128 \<Longrightarrow> NUL \<notin> set s \<Longrightarrow>
   \<exists>d. copy_bounded buf s = Inr d \<and> c_arg d = Inr (take 127 s)"
  using copy_bounded_ok [of buf s] by (fastforce simp: c_arg_def)

text \<open>The four arrays have 128 bytes.\<close>

definition arrays_ok :: "db \<Rightarrow> bool" where
  "arrays_ok d \<longleftrightarrow> length (db_host d) = 128 \<and> length (db_user d) = 128 \<and>
     length (db_pass d) = 128 \<and> length (db_database d) = 128"

lemma db_new_ok:
  assumes "arrays_ok uninit" and "\<forall>s \<in> {host, user, pass, database}. NUL \<notin> set s"
  shows "\<exists>d. db_new uninit host port user pass database = Inr d \<and> db_sess d = None \<and>
     db_credentials d = Inr (take 127 host, if port = 0 then 33060 else port,
       take 127 user, take 127 pass, take 127 database)"
proof -
  from assms obtain h u p n where
    "copy_bounded (db_host uninit) host = Inr h" "c_arg h = Inr (take 127 host)"
    "copy_bounded (db_user uninit) user = Inr u" "c_arg u = Inr (take 127 user)"
    "copy_bounded (db_pass uninit) pass = Inr p" "c_arg p = Inr (take 127 pass)"
    "copy_bounded (db_database uninit) database = Inr n" "c_arg n = Inr (take 127 database)"
    unfolding arrays_ok_def using copy_128 by (metis insertCI)
  then show ?thesis by (simp add: db_new_def db_credentials_def)
qed

lemma create_conn_ok:
  assumes "arrays_ok uninit"
    and "env ''TGVISD_DB_HOST'' = Some host" "env ''TGVISD_DB_PORT'' = Some port"
    and "env ''TGVISD_DB_USER'' = Some user" "env ''TGVISD_DB_PASS'' = Some pass"
    and "env ''TGVISD_DB_NAME'' = Some name"
    and "\<forall>s \<in> {host, user, pass, name}. NUL \<notin> set s"
  shows "\<exists>d. create_conn_from_env env uninit = Inr d \<and> db_sess d = None \<and>
     db_credentials d = Inr (take 127 host,
       if ucast (atoi port) = (0 :: 16 word) then 33060 else ucast (atoi port),
       take 127 user, take 127 pass, take 127 name)"
proof -
  from db_new_ok [OF assms(1,7), of "ucast (atoi port)"] assms(2-6) show ?thesis
    by (auto simp: create_conn_from_env_def env_or_throw_def Let_def)
qed

definition db_env_names :: "string list" where
  "db_env_names =
     [''TGVISD_DB_HOST'', ''TGVISD_DB_PORT'', ''TGVISD_DB_USER'', ''TGVISD_DB_PASS'', ''TGVISD_DB_NAME'']"

lemma db_new_unconnected: "db_new uninit host port user pass database = Inr d \<Longrightarrow> db_sess d = None"
  by (auto simp: db_new_def ebind_eq_Inr)

lemma create_conn_unconnected:
  assumes "create_conn_from_env env uninit = Inr d"
  shows "db_sess d = None"
  using assms
  by (auto simp: create_conn_from_env_def ebind_eq_Inr Let_def dest: db_new_unconnected)

subsection \<open>Properties\<close>

text \<open>
  When variables are missing, the exception of \<open>create_conn_from_env\<close> names the first
  missing one in the order host, port, user, password, database, and no connection object
  is made.
\<close>

theorem env_first_missing:
  assumes "find (\<lambda>n. env n = None) db_env_names = Some n"
  shows "create_conn_from_env env uninit = Inl (Thrown (''Missing '' @ n))"
  using assms
  by (auto simp: db_env_names_def create_conn_from_env_def env_or_throw_def Let_def
      split: if_splits option.splits)

theorem env_first_missing_witness:
  "create_conn_from_env [''TGVISD_DB_HOST'' \<mapsto> ''h'', ''TGVISD_DB_PORT'' \<mapsto> ''1'', ''TGVISD_DB_PASS'' \<mapsto> ''p'']
     \<lparr>db_port = 0, db_host = [], db_user = [], db_pass = [], db_database = [], db_sess = None\<rparr> =
   Inl (Thrown (''Missing '' @ ''TGVISD_DB_USER''))"
  by (rule env_first_missing) (simp add: db_env_names_def)

text \<open>
  C26: With all five variables set, \<open>create_conn_from_env\<close> makes an unconnected object whose
  credentials are the values cut to 127 bytes, whatever the arrays held before, and whose
  port is the number read by \<open>atoi\<close> cut to 16 bits, or 33060 where that is zero.
\<close>

theorem env_credentials:
  assumes "arrays_ok uninit"
    and "env ''TGVISD_DB_HOST'' = Some host" "env ''TGVISD_DB_PORT'' = Some port"
    and "env ''TGVISD_DB_USER'' = Some user" "env ''TGVISD_DB_PASS'' = Some pass"
    and "env ''TGVISD_DB_NAME'' = Some name"
    and "\<forall>s \<in> {host, user, pass, name}. NUL \<notin> set s"
  shows "\<exists>d. create_conn_from_env env uninit = Inr d \<and> db_sess d = None \<and>
     db_credentials d = Inr (take 127 host,
       if ucast (atoi port) = (0 :: 16 word) then 33060 else ucast (atoi port),
       take 127 user, take 127 pass, take 127 name)"
  using assms by (rule create_conn_ok)

definition blank_db :: db where
  "blank_db = \<lparr>db_port = 0, db_host = replicate 128 (CHR ''x''), db_user = replicate 128 (CHR ''x''),
     db_pass = replicate 128 (CHR ''x''), db_database = replicate 128 (CHR ''x''), db_sess = None\<rparr>"

definition env_65536 :: "string \<Rightarrow> string option" where
  "env_65536 = [''TGVISD_DB_HOST'' \<mapsto> ''localhost'', ''TGVISD_DB_PORT'' \<mapsto> ''65536'',
     ''TGVISD_DB_USER'' \<mapsto> ''u'', ''TGVISD_DB_PASS'' \<mapsto> ''p'', ''TGVISD_DB_NAME'' \<mapsto> ''n'']"

lemma atoi_65536: "atoi ''65536'' = 65536"
  by (simp add: atoi_def strtol10_def scan_signed_def isspace_def isdigit_def digit_val_def)

theorem env_credentials_witness:
  "\<exists>d. create_conn_from_env env_65536 blank_db = Inr d \<and>
     db_credentials d = Inr (''localhost'', 33060, ''u'', ''p'', ''n'')"
  using env_credentials [of blank_db env_65536 "''localhost''" "''65536''" "''u''" "''p''" "''n''"]
  by (auto simp: arrays_ok_def blank_db_def env_65536_def atoi_65536)

text \<open>
  C8: A connection object that starts without a session owns what it opens: after any sequence
  of connects (accepted or refused by the server), closes and transaction calls, failing or
  not, destroying it leaves no session open, and every error object of a refused login has
  been freed.
\<close>

theorem db_leaves_no_session:
  assumes "owns_all {} x" and "db_sess d = None"
  shows "x_sessions (db_destroy (fold (\<lambda>op s. snd (db_step op s)) ops (d, x))) = {} \<and>
    x_errors (db_destroy (fold (\<lambda>op s. snd (db_step op s)) ops (d, x))) = x_errors x"
  by (rule db_owner.no_session_left) (simp add: assms db_held_def)

lemma xapi_init_owned: "owns_all {} xapi_init"
  by (simp add: owns_all_def xapi_ok_def xapi_init_def)

theorem db_leaves_no_session_witness:
  "x_sessions (db_destroy (fold (\<lambda>op s. snd (db_step op s))
     [OpConnect (\<lambda>_ _ _ _ _. None), OpBegin None, OpConnect (\<lambda>_ _ _ _ _. Some (''down'', 2002)),
      OpConnect (\<lambda>_ _ _ _ _. None)] (blank_db, xapi_init))) = {} \<and>
   x_errors (db_destroy (fold (\<lambda>op s. snd (db_step op s))
     [OpConnect (\<lambda>_ _ _ _ _. None), OpBegin None, OpConnect (\<lambda>_ _ _ _ _. Some (''down'', 2002)),
      OpConnect (\<lambda>_ _ _ _ _. None)] (blank_db, xapi_init))) = x_errors xapi_init"
  by (rule db_leaves_no_session [OF xapi_init_owned]) (simp add: blank_db_def)

text \<open>
  The old class loses sessions: after \<open>k + 1\<close> accepted connects of one object, destroying
  it closes the last session only, and the \<open>k\<close> earlier ones stay open.
\<close>

theorem old_db_loses_sessions:
  assumes "owns_all {} x"
    and "db_credentials d = Inr (h, port, u, p, n)" and "server h port u p n = None"
  shows "x_sessions (old_db_destroy (old_reconnect server (Suc k) (d, x))) =
    {x_next x ..< x_next x + k}"
  using assms(1) old_reconnects [of d h port u p n server k x] assms(2,3)
  by (auto simp: old_db_destroy_def mysqlx_session_close_def
      owns_all_def)

theorem old_db_loses_sessions_witness:
  "\<exists>d. old_db_new ''localhost'' 0 ''u'' ''p'' ''n'' = Inr d \<and>
     x_sessions (old_db_destroy (old_reconnect (\<lambda>_ _ _ _ _. None) (Suc 3) (d, xapi_init))) =
     {x_next xapi_init ..< x_next xapi_init + 3}"
proof -
  from copy_bounded_ok [of "replicate 128 NUL" "''localhost''"] copy_bounded_ok [of "replicate 64 NUL" "''u''"]
    copy_bounded_ok [of "replicate 64 NUL" "''p''"] copy_bounded_ok [of "replicate 64 NUL" "''n''"]
  obtain d where d: "old_db_new ''localhost'' 0 ''u'' ''p'' ''n'' = Inr d"
    "db_credentials d = Inr (''localhost'', 33060, ''u'', ''p'', ''n'')"
    by (auto simp: old_db_new_def db_credentials_def c_arg_def)
  then show ?thesis
    using old_db_loses_sessions [OF xapi_init_owned d(2), of "\<lambda>_ _ _ _ _. None" 3] by blast
qed

end
