(* ===== verification/Statement.thy ===== *)
theory Statement
  imports DB
begin

section \<open>Prepared statements (DBFunc/DBStatement.hpp, DBt/PreparedStatement)\<close>

text \<open>
  A statement object holds the result of its last execution. Both versions release it before
  they execute again; they differ in what happens to the last one. What the server answers to
  an execution is an argument: an error message, or nothing.
\<close>

record stmt =
  st_sess :: nat
  st_res :: "nat option"

text \<open>The checks of \<open>DBCommon.hpp\<close>: \<open>what\<close> failed and the message it left.\<close>

definition mysql_chk :: "string \<Rightarrow> string option \<Rightarrow> exn + unit" where
  "mysql_chk what fail =
     (case fail of
        None \<Rightarrow> Inr ()
      | Some msg \<Rightarrow> Inl (Thrown (snprintf_str 512 (what @ '': '' @ msg))))"

definition mysql_stmt_create_chk :: "string option \<Rightarrow> exn + unit" where
  "mysql_stmt_create_chk = mysql_chk ''MySQL Statement Error''"

definition mysql_exec_chk :: "string option \<Rightarrow> exn + unit" where
  "mysql_exec_chk = mysql_chk ''MySQL Exec Error''"

definition mysql_result_chk :: "string option \<Rightarrow> exn + unit" where
  "mysql_result_chk = mysql_chk ''MySQL Result Error''"

definition mysql_fetch_chk :: "string option \<Rightarrow> exn + unit" where
  "mysql_fetch_chk = mysql_chk ''MySQL Fetch Error''"

text \<open>\<open>mysqlx_sql_new\<close> on a null session gives a null statement.\<close>

definition stmt_new :: "nat option \<Rightarrow> string option \<Rightarrow> exn + stmt" where
  "stmt_new sess fail =
     (case sess of
        None \<Rightarrow> ebind (mysql_stmt_create_chk (Some ''(null)'')) (\<lambda>_. Inl Aborted)
      | Some h \<Rightarrow> ebind (mysql_stmt_create_chk fail) (\<lambda>_. Inr \<lparr>st_sess = h, st_res = None\<rparr>))"

definition drop_result :: "stmt \<times> xapi \<Rightarrow> stmt \<times> xapi" where
  "drop_result = (\<lambda>(st, x).
     case st_res st of
       None \<Rightarrow> (st, x)
     | Some r \<Rightarrow> (st\<lparr>st_res := None\<rparr>, mysqlx_free_result r x))"

definition stmt_execute :: "string option \<Rightarrow> stmt \<times> xapi \<Rightarrow> (exn + nat) \<times> stmt \<times> xapi" where
  "stmt_execute fail s =
     (case drop_result s of (st, x) \<Rightarrow>
        (case fail of
           Some msg \<Rightarrow> (ebind (mysql_result_chk (Some msg)) (\<lambda>_. Inl Aborted), st, x)
         | None \<Rightarrow>
             (case mysqlx_execute (st_sess st) x of (r, x) \<Rightarrow>
                (Inr r, st\<lparr>st_res := Some r\<rparr>, x))))"

definition stmt_bind :: "string option \<Rightarrow> exn + unit" where
  "stmt_bind fail = mysql_exec_chk fail"

definition stmt_execute_args ::
  "string option \<Rightarrow> string option \<Rightarrow> stmt \<times> xapi \<Rightarrow> (exn + nat) \<times> stmt \<times> xapi" where
  "stmt_execute_args bind_fail fail s =
     (case stmt_bind bind_fail of Inl e \<Rightarrow> (Inl e, s) | Inr _ \<Rightarrow> stmt_execute fail s)"

text \<open>\<open>fetch\<close> on a null result returns a null row.\<close>

definition stmt_fetch :: "(nat \<Rightarrow> 'row option) \<Rightarrow> stmt \<Rightarrow> 'row option" where
  "stmt_fetch rows st = (case st_res st of None \<Rightarrow> None | Some r \<Rightarrow> rows r)"

text \<open>The destructors: defaulted in \<open>DBStatement\<close>, written out in \<open>PreparedStatement\<close>.\<close>

definition stmt_destroy :: "stmt \<times> xapi \<Rightarrow> xapi" where
  "stmt_destroy = snd"

definition old_stmt_destroy :: "stmt \<times> xapi \<Rightarrow> xapi" where
  "old_stmt_destroy s = snd (drop_result s)"

text \<open>A statement executed again and again, with or without bound arguments.\<close>

definition run_stmt :: "(string option \<times> string option) list \<Rightarrow> stmt \<times> xapi \<Rightarrow> stmt \<times> xapi" where
  "run_stmt runs = fold (\<lambda>(b, e) s. snd (stmt_execute_args b e s)) runs"

subsection \<open>The ledger of results\<close>

definition holds_over :: "(nat \<Rightarrow> nat option) \<Rightarrow> nat \<Rightarrow> stmt \<times> xapi \<Rightarrow> bool" where
  "holds_over res sess s \<longleftrightarrow>
     st_sess (fst s) = sess \<and> (\<forall>r \<in> dom res. r < x_next (snd s)) \<and>
     (case st_res (fst s) of
        None \<Rightarrow> x_results (snd s) = res
      | Some r \<Rightarrow> r \<notin> dom res \<and> r < x_next (snd s) \<and> x_results (snd s) = res(r \<mapsto> sess))"

lemma drop_result_holds:
  assumes "holds_over res sess s"
  shows "holds_over res sess (drop_result s) \<and> st_res (fst (drop_result s)) = None"
proof (cases "st_res (fst s)")
  case None
  with assms show ?thesis by (cases s) (simp add: drop_result_def)
next
  case (Some r)
  with assms have "(res(r \<mapsto> sess))(r := None) = res" by (auto simp: holds_over_def)
  with Some assms show ?thesis
    by (cases s) (simp add: drop_result_def holds_over_def mysqlx_free_result_def)
qed

lemma execute_holds:
  assumes "holds_over res sess s"
  shows "holds_over res sess (snd (stmt_execute_args b e s))"
proof -
  obtain st x where d: "drop_result s = (st, x)" by (cases "drop_result s")
  with drop_result_holds [OF assms] have "holds_over res sess (st, x)" "st_res st = None" by auto
  then show ?thesis
    using assms d
    by (auto simp: stmt_execute_args_def stmt_execute_def holds_over_def mysqlx_execute_def
        less_SucI split: sum.split option.split)
qed

lemma run_stmt_holds: "holds_over res sess s \<Longrightarrow> holds_over res sess (run_stmt runs s)"
  unfolding run_stmt_def
  by (induction runs arbitrary: s) (auto simp: execute_holds split: prod.split)

lemma new_stmt_holds:
  "xapi_ok x \<Longrightarrow> holds_over (x_results x) h (\<lparr>st_sess = h, st_res = None\<rparr>, x)"
  by (auto simp: holds_over_def xapi_ok_def)

subsection \<open>Properties\<close>

text \<open>
  C27: A statement never holds more than one result, however often it is executed and however
  often an execution or a binding fails. Its old destructor releases that result; the defaulted
  one of the current class does not, so a statement whose last execution succeeded leaves
  exactly one live result behind, until the session is closed.
\<close>

theorem statement_leaves_one_result:
  assumes "xapi_ok x"
  shows "x_results (old_stmt_destroy (run_stmt runs (\<lparr>st_sess = h, st_res = None\<rparr>, x))) = x_results x \<and>
    (\<exists>r. r \<notin> dom (x_results x) \<and>
       x_results (stmt_destroy (run_stmt (runs @ [(None, None)]) (\<lparr>st_sess = h, st_res = None\<rparr>, x))) =
       (x_results x)(r \<mapsto> h))"
proof
  let ?s = "run_stmt runs (\<lparr>st_sess = h, st_res = None\<rparr>, x)"
  have s: "holds_over (x_results x) h ?s"
    by (rule run_stmt_holds [OF new_stmt_holds [OF assms]])
  from drop_result_holds [OF s] show "x_results (old_stmt_destroy ?s) = x_results x"
    by (auto simp: holds_over_def old_stmt_destroy_def)
  obtain st y where d: "drop_result ?s = (st, y)" by (cases "drop_result ?s")
  with drop_result_holds [OF s] have "x_results y = x_results x" "st_sess st = h"
    "x_next y \<notin> dom (x_results x)"
    by (auto simp: holds_over_def)
  with d show "\<exists>r. r \<notin> dom (x_results x) \<and>
       x_results (stmt_destroy (run_stmt (runs @ [(None, None)]) (\<lparr>st_sess = h, st_res = None\<rparr>, x))) =
       (x_results x)(r \<mapsto> h)"
    by (auto simp: run_stmt_def stmt_execute_args_def stmt_bind_def mysql_exec_chk_def mysql_chk_def
        stmt_execute_def mysqlx_execute_def stmt_destroy_def)
qed

theorem statement_leaves_one_result_witness:
  "x_results (old_stmt_destroy (run_stmt [(None, None), (None, Some ''gone''), (None, None)]
     (\<lparr>st_sess = 0, st_res = None\<rparr>, xapi_init))) = x_results xapi_init \<and>
   (\<exists>r. r \<notin> dom (x_results xapi_init) \<and>
     x_results (stmt_destroy (run_stmt ([(None, None), (None, Some ''gone''), (None, None)] @ [(None, None)])
       (\<lparr>st_sess = 0, st_res = None\<rparr>, xapi_init))) = (x_results xapi_init)(r \<mapsto> 0))"
  by (rule statement_leaves_one_result) (simp add: xapi_ok_def xapi_init_def)

end
