(* ===== verification/MainLoop.thy ===== *)
theory MainLoop
  imports TdSync Statement
begin

section \<open>The program and its threads (entry.cpp, Main.cpp, Scraper.cpp, Scrapers/ChatScraper.cpp)\<close>

text \<open>
  The process runs a main thread, which drives the event loop of the client, a scraper thread,
  which waits until the client is ready, and a chat scraper thread, which makes one blocking
  call. The threads are a step relation: each rule is one atomic action of one thread, named
  by the program counter it starts from. What TDLib delivers, what the environment holds and
  what the database server answers are arguments of the rules.
\<close>

subsection \<open>The entry point\<close>

datatype entry_result =
    MissingVar string
  | StartMain "32 word" "string option" "string option"

text \<open>The three checks of \<open>main\<close>; the second and the third test \<open>api_id\<close> again.\<close>

definition entry_main :: "(string \<Rightarrow> string option) \<Rightarrow> entry_result" where
  "entry_main env =
     (let id_str = env ''TGVISD_API_ID'' in
      if id_str = None then MissingVar ''TGVISD_API_ID''
      else
        let hash = env ''TGVISD_API_HASH'' in
        if id_str = None then MissingVar ''TGVISD_API_HASH''
        else
          let path = env ''TGVISD_DATA_PATH'' in
          if id_str = None then MissingVar ''TGVISD_DATA_PATH''
          else StartMain (atoi (the id_str)) hash path)"

subsection \<open>The state of the process\<close>

datatype main_pc = MFirst | MReady | MLoop | MJoinLogger | MJoinScraper | MClosing | MExited

datatype scraper_pc = SWaiting | SRunning | SJoining | SExited

datatype chat_pc = CNone | CStart | CWaiting | CDone

record sys =
  td_obj :: td
  stop :: bool                  \<comment> \<open>\<open>stopEventLoop\<close>\<close>
  ready :: bool                 \<comment> \<open>\<open>isReady_\<close>\<close>
  main_pc :: main_pc
  scraper_pc :: scraper_pc
  chat_pc :: chat_pc
  chat_db :: "db option"        \<comment> \<open>\<open>chatScraper_->db_\<close>\<close>
  lost_dbs :: nat               \<comment> \<open>\<open>DB\<close> objects no pointer reaches any more\<close>
  mysql :: xapi
  warn :: "32 word"
  crash :: "ub option"

text \<open>\<open>Main::Main\<close>: the callback is set and the two threads are started.\<close>

definition main_new ::
  "int \<Rightarrow> string list \<Rightarrow> 32 word \<Rightarrow> string option \<Rightarrow> string option \<Rightarrow> ub + sys" where
  "main_new cid input ai hash path =
     ebind (td_new cid input ai hash path) (\<lambda>t.
       Inr \<lparr>td_obj = t\<lparr>callback := (callback t)\<lparr>cb_updateNewMessage := True\<rparr>\<rparr>,
            stop = False, ready = False, main_pc = MFirst, scraper_pc = SWaiting, chat_pc = CNone,
            chat_db = None, lost_dbs = 0, mysql = xapi_init, warn = 0, crash = None\<rparr>)"

text \<open>
  \<open>ChatScraper::ChatScraper\<close>: a connection object is made and connected. An exception of
  \<open>connect\<close> leaves the constructor, so the destructor does not run and the object is lost.
\<close>

definition chat_scraper_new ::
  "(string \<Rightarrow> string option) \<Rightarrow> server \<Rightarrow> db \<Rightarrow> xapi \<Rightarrow> (exn + db) \<times> nat \<times> xapi" where
  "chat_scraper_new env server uninit x =
     (case create_conn_from_env env uninit of
        Inl e \<Rightarrow> (Inl e, 0, x)
      | Inr d \<Rightarrow>
          (case db_connect server (d, x) of
             (Inl e, d, x) \<Rightarrow> (Inl e, 1, x)
           | (Inr _, d, x) \<Rightarrow> (Inr d, 0, x)))"

definition main_sighandler :: "sys \<Rightarrow> sys" where
  "main_sighandler s = (if \<not> stop s then s\<lparr>stop := True\<rparr> else s)"

text \<open>One call of the event loop by the main thread, with the response it receives.\<close>

definition main_loop :: "response \<Rightarrow> main_pc \<Rightarrow> sys \<Rightarrow> sys" where
  "main_loop r pc s =
     (case loop 1 (\<lambda>_. r) (td_obj s) of
        Inl u \<Rightarrow> s\<lparr>crash := Some u\<rparr>
      | Inr t \<Rightarrow> s\<lparr>td_obj := t, main_pc := pc\<rparr>)"

text \<open>\<open>ChatScraper::getChat\<close> and the use of its result in \<open>ChatScraper::run\<close>.\<close>

definition chat_send :: "sys \<Rightarrow> sys" where
  "chat_send s =
     (case send_query (GetChats (2 ^ 63 - 1) 0 300) (Some (HSync 0 KChats))
             ((td_obj s)\<lparr>frames := (frames (td_obj s))(0 \<mapsto> new_frame)\<rparr>) of
        Inl u \<Rightarrow> s\<lparr>crash := Some u\<rparr>
      | Inr t \<Rightarrow> s\<lparr>td_obj := t, chat_pc := CWaiting\<rparr>)"

definition chat_return :: "sys \<Rightarrow> sys" where
  "chat_return s =
     (case leave_frame 0 (td_obj s) of
        Waiting t \<Rightarrow> s
      | Returned None t \<Rightarrow> s\<lparr>td_obj := t, crash := Some NullDeref\<rparr>
      | Returned (Some chats) t \<Rightarrow> s\<lparr>td_obj := t, chat_pc := CDone\<rparr>)"

text \<open>The catch block of \<open>Scraper::run\<close>, or the spawning of the chat scraper.\<close>

definition run_scrapers ::
  "(string \<Rightarrow> string option) \<Rightarrow> server \<Rightarrow> db \<Rightarrow> sys \<Rightarrow> sys" where
  "run_scrapers env server uninit s =
     (case chat_scraper_new env server uninit (mysql s) of
        (Inl (Thrown msg), lost, x) \<Rightarrow>
          s\<lparr>mysql := x, lost_dbs := lost_dbs s + lost, stop := True, scraper_pc := SExited\<rparr>
      | (Inl (Ub u), lost, x) \<Rightarrow> s\<lparr>mysql := x, crash := Some u\<rparr>
      | (Inl Aborted, lost, x) \<Rightarrow> s\<lparr>mysql := x, crash := Some AssertFailed\<rparr>
      | (Inr d, lost, x) \<Rightarrow>
          s\<lparr>mysql := x, chat_db := Some d, chat_pc := CStart, scraper_pc := SJoining\<rparr>)"

text \<open>\<open>delete st\<close>: the chat scraper's destructor deletes its connection object.\<close>

definition scraper_delete :: "sys \<Rightarrow> sys" where
  "scraper_delete s =
     (case chat_db s of
        None \<Rightarrow> s\<lparr>scraper_pc := SExited\<rparr>
      | Some d \<Rightarrow> s\<lparr>mysql := db_destroy (d, mysql s), chat_db := None, scraper_pc := SExited\<rparr>)"

definition main_close :: "response \<Rightarrow> sys \<Rightarrow> sys" where
  "main_close r s =
     (case close (\<lambda>_. r) (td_obj s) of
        Inl u \<Rightarrow> s\<lparr>crash := Some u\<rparr>
      | Inr t \<Rightarrow> s\<lparr>td_obj := t, main_pc := MExited\<rparr>)"

subsection \<open>The threads\<close>

inductive step :: "(string \<Rightarrow> string option) \<Rightarrow> server \<Rightarrow> db \<Rightarrow> sys \<Rightarrow> sys \<Rightarrow> bool"
  for env server uninit where
  signal: "crash s = None \<Longrightarrow> step env server uninit s (main_sighandler s)"
| first: "crash s = None \<Longrightarrow> main_pc s = MFirst \<Longrightarrow>
    step env server uninit s (main_loop r MReady s)"
| set_ready: "crash s = None \<Longrightarrow> main_pc s = MReady \<Longrightarrow>
    step env server uninit s (s\<lparr>ready := True, main_pc := MLoop\<rparr>)"
| again: "crash s = None \<Longrightarrow> main_pc s = MLoop \<Longrightarrow> \<not> stop s \<Longrightarrow>
    step env server uninit s (main_loop r MLoop s)"
| leave: "crash s = None \<Longrightarrow> main_pc s = MLoop \<Longrightarrow> stop s \<Longrightarrow>
    step env server uninit s (s\<lparr>main_pc := MJoinLogger\<rparr>)"
| join_logger: "crash s = None \<Longrightarrow> main_pc s = MJoinLogger \<Longrightarrow>
    step env server uninit s (s\<lparr>main_pc := MJoinScraper\<rparr>)"
| join_scraper: "crash s = None \<Longrightarrow> main_pc s = MJoinScraper \<Longrightarrow> scraper_pc s = SExited \<Longrightarrow>
    step env server uninit s (s\<lparr>main_pc := MClosing\<rparr>)"
| close: "crash s = None \<Longrightarrow> main_pc s = MClosing \<Longrightarrow>
    step env server uninit s (main_close r s)"
| wake: "crash s = None \<Longrightarrow> scraper_pc s = SWaiting \<Longrightarrow> ready s \<or> stop s \<Longrightarrow>
    step env server uninit s (s\<lparr>scraper_pc := SRunning\<rparr>)"
| run: "crash s = None \<Longrightarrow> scraper_pc s = SRunning \<Longrightarrow>
    step env server uninit s (run_scrapers env server uninit s)"
| ask: "crash s = None \<Longrightarrow> chat_pc s = CStart \<Longrightarrow> step env server uninit s (chat_send s)"
| tick: "crash s = None \<Longrightarrow> chat_pc s = CWaiting \<Longrightarrow> \<not> frame_finished 0 (td_obj s) \<Longrightarrow>
    step env server uninit s (s\<lparr>warn := warn s + 1\<rparr>)"
| answer: "crash s = None \<Longrightarrow> chat_pc s = CWaiting \<Longrightarrow> frame_finished 0 (td_obj s) \<Longrightarrow>
    step env server uninit s (chat_return s)"
| join_chat: "crash s = None \<Longrightarrow> scraper_pc s = SJoining \<Longrightarrow> chat_pc s = CDone \<Longrightarrow>
    step env server uninit s (scraper_delete s)"

inductive_cases step_elim: "step env server uninit s t"

abbreviation reaches ::
  "(string \<Rightarrow> string option) \<Rightarrow> server \<Rightarrow> db \<Rightarrow> sys \<Rightarrow> sys \<Rightarrow> bool" where
  "reaches env server uninit \<equiv> (step env server uninit)\<^sup>*\<^sup>*"

subsection \<open>Invariants\<close>

text \<open>What the scraper thread owns, and what the other threads may rely on, at each point.\<close>

definition scraper_inv :: "sys \<Rightarrow> bool" where
  "scraper_inv s \<longleftrightarrow> x_errors (mysql s) = {} \<and>
     (case scraper_pc s of
        SJoining \<Rightarrow> chat_pc s \<noteq> CNone \<and> (\<exists>d. chat_db s = Some d \<and> owns_all (db_held d) (mysql s))
      | SExited \<Rightarrow> chat_pc s \<in> {CNone, CDone} \<and> chat_db s = None \<and> x_sessions (mysql s) = {} \<and>
          (chat_pc s = CNone \<longrightarrow> stop s)
      | _ \<Rightarrow> chat_pc s = CNone \<and> chat_db s = None \<and> owns_all {} (mysql s))"

definition main_inv :: "sys \<Rightarrow> bool" where
  "main_inv s \<longleftrightarrow>
     (main_pc s \<in> {MJoinLogger, MJoinScraper, MClosing, MExited} \<longrightarrow> stop s) \<and>
     (main_pc s \<in> {MClosing, MExited} \<longrightarrow> scraper_pc s = SExited)"

lemma chat_scraper_new_owns:
  assumes "owns_all {} x" and "chat_scraper_new env server uninit x = (r, lost, x')"
  shows "x_errors x' = x_errors x \<and>
    (case r of Inl e \<Rightarrow> owns_all {} x' | Inr d \<Rightarrow> owns_all (db_held d) x')"
proof (cases "create_conn_from_env env uninit")
  case (Inl e)
  with assms have "r = Inl e" "x' = x" by (simp_all add: chat_scraper_new_def)
  with assms(1) show ?thesis by simp
next
  case (Inr d)
  obtain q d' x1 where c: "db_connect server (d, x) = (q, d', x1)" by (metis prod_cases3)
  have "owns_all (db_held d) x"
    using assms(1) create_conn_unconnected [OF Inr] by (simp add: db_held_def)
  from db_connect_owns [OF this c] have o: "owns_all (db_held d') x1" "x_errors x1 = x_errors x"
    by auto
  show ?thesis
  proof (cases q)
    case (Inl e)
    with o c db_connect_fails [of server d x e d' x1] Inr assms(2) show ?thesis
      by (auto simp: chat_scraper_new_def db_held_def)
  qed (use o c Inr assms(2) in \<open>auto simp: chat_scraper_new_def\<close>)
qed

lemma run_scrapers_inv:
  assumes "scraper_inv s" "main_inv s" "scraper_pc s = SRunning"
  shows "scraper_inv (run_scrapers env server uninit s) \<and> main_inv (run_scrapers env server uninit s)"
proof -
  obtain r lost x where n: "chat_scraper_new env server uninit (mysql s) = (r, lost, x)"
    by (metis prod_cases3)
  have "owns_all {} (mysql s)" using assms by (simp add: scraper_inv_def)
  from chat_scraper_new_owns [OF this n] n assms show ?thesis
    by (auto simp: run_scrapers_def scraper_inv_def main_inv_def owns_all_def
        split: sum.splits exn.splits)
qed

lemma scraper_delete_inv:
  assumes "scraper_inv s" "main_inv s" "scraper_pc s = SJoining" "chat_pc s = CDone"
  shows "scraper_inv (scraper_delete s) \<and> main_inv (scraper_delete s)"
proof -
  obtain d where d: "chat_db s = Some d" "owns_all (db_held d) (mysql s)"
    using assms by (auto simp: scraper_inv_def)
  then have "x_sessions (db_destroy (d, mysql s)) = {} \<and>
      x_errors (db_destroy (d, mysql s)) = x_errors (mysql s)"
    by (intro db_owner.destroy_owns)
  with d assms show ?thesis
    by (auto simp: scraper_delete_def scraper_inv_def main_inv_def)
qed

text \<open>The invariants see only what the owning thread writes.\<close>

lemma inv_frame:
  "main_inv (s\<lparr>td_obj := t\<rparr>) = main_inv s" "scraper_inv (s\<lparr>td_obj := t\<rparr>) = scraper_inv s"
  "main_inv (s\<lparr>crash := c\<rparr>) = main_inv s" "scraper_inv (s\<lparr>crash := c\<rparr>) = scraper_inv s"
  "main_inv (s\<lparr>warn := w\<rparr>) = main_inv s" "scraper_inv (s\<lparr>warn := w\<rparr>) = scraper_inv s"
  "main_inv (s\<lparr>chat_pc := cp\<rparr>) = main_inv s" "scraper_inv (s\<lparr>main_pc := mp\<rparr>) = scraper_inv s"
  by (simp_all add: main_inv_def scraper_inv_def split: scraper_pc.split)

lemma step_inv:
  assumes "step env server uninit s t" and "scraper_inv s" "main_inv s"
  shows "scraper_inv t \<and> main_inv t"
  using assms
proof (induction rule: step.induct)
  case (run s)
  then show ?case by (intro run_scrapers_inv)
next
  case (join_chat s)
  then show ?case by (intro scraper_delete_inv)
qed (auto simp: main_sighandler_def main_loop_def chat_send_def chat_return_def main_close_def
    inv_frame main_inv_def scraper_inv_def
    split: sum.splits outcome.splits option.splits scraper_pc.splits)

lemma reaches_inv:
  assumes "reaches env server uninit s t" and "scraper_inv s" "main_inv s"
  shows "scraper_inv t \<and> main_inv t"
  using assms by (induction rule: rtranclp_induct) (auto dest: step_inv)

lemma main_new_inv:
  "main_new cid input ai hash path = Inr s \<Longrightarrow> scraper_inv s \<and> main_inv s"
  by (auto simp: main_new_def td_new_eq scraper_inv_def main_inv_def owns_all_def xapi_ok_def
      xapi_init_def)

subsection \<open>A shutdown that does not end\<close>

text \<open>
  The main thread has left the event loop and joins the scraper threads, while the chat
  scraper waits for a reply.
\<close>

definition blocked :: "sys \<Rightarrow> bool" where
  "blocked s \<longleftrightarrow> crash s = None \<and> main_pc s \<in> {MJoinLogger, MJoinScraper} \<and>
     scraper_pc s = SJoining \<and> chat_pc s = CWaiting \<and> \<not> frame_finished 0 (td_obj s)"

lemma blocked_step: "step env server uninit s t \<Longrightarrow> blocked s \<Longrightarrow> blocked t"
  by (induction rule: step.induct) (auto simp: blocked_def main_sighandler_def)

lemma blocked_reaches: "reaches env server uninit s t \<Longrightarrow> blocked s \<Longrightarrow> blocked t"
  by (induction rule: rtranclp_induct) (auto dest: blocked_step)

text \<open>A run that gets there: the first update arrives, the scrapers start, the user interrupts.\<close>

definition main_start :: sys where
  "main_start = (case main_new 1 [] 7 (Some ''hash'') (Some ''/data'') of Inr s \<Rightarrow> s)"

lemma main_start_val:
  "main_start = \<lparr>td_obj = (td_start\<lparr>stdin := []\<rparr>)\<lparr>callback := no_callbacks\<lparr>cb_updateNewMessage := True\<rparr>\<rparr>,
     stop = False, ready = False, main_pc = MFirst, scraper_pc = SWaiting, chat_pc = CNone,
     chat_db = None, lost_dbs = 0, mysql = xapi_init, warn = 0, crash = None\<rparr>"
  by (simp add: main_start_def main_new_def td_new_eq td_start_val)

lemma main_start_eq: "main_new 1 [] 7 (Some ''hash'') (Some ''/data'') = Inr main_start"
  by (simp add: main_start_def main_new_def td_new_eq)

abbreviation accepting :: server where "accepting \<equiv> \<lambda>_ _ _ _ _. None"

lemma connects:
  "\<exists>d x. chat_scraper_new env_65536 accepting blank_db xapi_init = (Inr d, 0, x)"
proof -
  from create_conn_ok [of blank_db env_65536 "''localhost''" "''65536''" "''u''" "''p''" "''n''"]
  obtain d where "create_conn_from_env env_65536 blank_db = Inr d" "db_sess d = None"
    "db_credentials d = Inr (''localhost'', 33060, ''u'', ''p'', ''n'')"
    by (auto simp: arrays_ok_def blank_db_def env_65536_def atoi_65536)
  then show ?thesis
    by (simp add: chat_scraper_new_def db_connect_def db_login_def mysqlx_get_session_def Let_def)
qed

text \<open>The state in which the chat scraper waits and the main thread is still in its loop.\<close>

lemma waiting_reached:
  "\<exists>s. reaches env_65536 accepting blank_db main_start s \<and> crash s = None \<and> main_pc s = MLoop \<and>
     scraper_pc s = SJoining \<and> chat_pc s = CWaiting \<and> \<not> stop s \<and>
     waits_for 0 1 KChats (td_obj s)"
proof -
  let ?R = "reaches env_65536 accepting blank_db"
  let ?st = "step env_65536 accepting blank_db"
  obtain d x where d: "chat_scraper_new env_65536 accepting blank_db xapi_init = (Inr d, 0, x)"
    using connects by blast
  define s1 where "s1 = main_start\<lparr>main_pc := MReady\<rparr>"
  define s2 where "s2 = s1\<lparr>ready := True, main_pc := MLoop\<rparr>"
  define s3 where "s3 = s2\<lparr>scraper_pc := SRunning\<rparr>"
  define s4 where "s4 = s3\<lparr>mysql := x, chat_db := Some d, chat_pc := CStart, scraper_pc := SJoining\<rparr>"
  have "main_loop (0, None) MReady main_start = s1"
    by (simp add: main_loop_def loop_def process_response_def s1_def main_start_val td_start_val)
  then have 1: "?st main_start s1"
    using step.first [of main_start env_65536 accepting blank_db "(0, None)"]
    by (simp add: main_start_val)
  have 2: "?st s1 s2"
    unfolding s2_def by (rule step.set_ready) (simp_all add: s1_def main_start_val)
  have 3: "?st s2 s3"
    unfolding s3_def by (rule step.wake) (simp_all add: s2_def s1_def main_start_val)
  have "run_scrapers env_65536 accepting blank_db s3 = s4"
    using d by (simp add: run_scrapers_def s4_def s3_def s2_def s1_def main_start_val)
  then have 4: "?st s3 s4"
    using step.run [of s3 env_65536 accepting blank_db]
    by (simp add: s3_def s2_def s1_def main_start_val)
  have 5: "?st s4 (chat_send s4)"
    by (rule step.ask) (simp_all add: s4_def s3_def s2_def s1_def main_start_val)
  have "waits_for 0 1 KChats (td_obj (chat_send s4)) \<and> crash (chat_send s4) = None \<and>
     main_pc (chat_send s4) = MLoop \<and> scraper_pc (chat_send s4) = SJoining \<and>
     chat_pc (chat_send s4) = CWaiting \<and> \<not> stop (chat_send s4)"
    by (simp add: chat_send_def send_query_eq s4_def s3_def s2_def s1_def main_start_val td_start_val
        waits_for_def td_ok_def new_frame_def)
  with 1 2 3 4 5 show ?thesis
    by (intro exI [of _ "chat_send s4"]) (auto intro: converse_rtranclp_into_rtranclp)
qed

lemma blocked_reached: "\<exists>s. reaches env_65536 accepting blank_db main_start s \<and> blocked s"
proof -
  obtain s where s: "reaches env_65536 accepting blank_db main_start s" "crash s = None"
    "main_pc s = MLoop" "scraper_pc s = SJoining" "chat_pc s = CWaiting" "\<not> stop s"
    "waits_for 0 1 KChats (td_obj s)"
    using waiting_reached by blast
  have "step env_65536 accepting blank_db s (main_sighandler s)"
    using s(2) by (rule step.signal)
  moreover have "step env_65536 accepting blank_db (main_sighandler s)
      ((main_sighandler s)\<lparr>main_pc := MJoinLogger\<rparr>)"
    by (rule step.leave) (use s in \<open>simp_all add: main_sighandler_def\<close>)
  moreover have "blocked ((main_sighandler s)\<lparr>main_pc := MJoinLogger\<rparr>)"
    using s waits_for_unfinished [OF s(7)] by (simp add: blocked_def main_sighandler_def)
  ultimately show ?thesis using s(1) by (meson rtranclp.rtrancl_into_rtrancl)
qed

subsection \<open>Properties\<close>

text \<open>
  C28: When the process is interrupted while the chat scraper waits for its reply, it never
  ends: the main thread no longer runs the event loop, which alone could deliver the reply,
  and joins a thread that has no timeout. No interleaving leads to the exit, to the end of
  the scraper or to a crash.
\<close>

theorem interrupted_shutdown_hangs:
  assumes "blocked s" and "reaches env server uninit s t"
  shows "main_pc t \<noteq> MExited \<and> scraper_pc t = SJoining \<and> chat_pc t = CWaiting \<and> crash t = None"
  using blocked_reaches [OF assms(2,1)] by (auto simp: blocked_def)

theorem interrupted_shutdown_hangs_witness:
  "\<exists>s. reaches env_65536 accepting blank_db main_start s \<and> blocked s \<and>
     (\<forall>t. reaches env_65536 accepting blank_db s t \<longrightarrow>
        main_pc t \<noteq> MExited \<and> scraper_pc t = SJoining \<and> chat_pc t = CWaiting \<and> crash t = None)"
proof -
  obtain s where "reaches env_65536 accepting blank_db main_start s" "blocked s"
    using blocked_reached by blast
  then show ?thesis using interrupted_shutdown_hangs [of s] by blast
qed

text \<open>
  C10: In every interleaving of the threads, from the start of the process, the main thread only
  closes the client and exits after the stop flag is set and the scraper thread has ended;
  then no chat scraper is running, its connection object is deleted and no database session
  is open. A scraper that ended without starting the chat scraper has set the stop flag.
\<close>

theorem shutdown_order:
  assumes "main_new cid input ai hash path = Inr s" and "reaches env server uninit s t"
  shows "(main_pc t \<in> {MClosing, MExited} \<longrightarrow> stop t \<and> scraper_pc t = SExited) \<and>
     (scraper_pc t = SExited \<longrightarrow> chat_pc t \<in> {CNone, CDone} \<and> chat_db t = None \<and>
        x_sessions (mysql t) = {} \<and> x_errors (mysql t) = {} \<and> (chat_pc t = CNone \<longrightarrow> stop t))"
proof -
  from reaches_inv [OF assms(2)] main_new_inv [OF assms(1)]
  have "scraper_inv t" "main_inv t" by simp_all
  then show ?thesis
    by (cases "scraper_pc t") (simp_all add: scraper_inv_def main_inv_def)
qed

theorem shutdown_order_witness:
  "\<exists>t. reaches env_65536 accepting blank_db main_start t \<and> blocked t \<and>
     ((main_pc t \<in> {MClosing, MExited} \<longrightarrow> stop t \<and> scraper_pc t = SExited) \<and>
     (scraper_pc t = SExited \<longrightarrow> chat_pc t \<in> {CNone, CDone} \<and> chat_db t = None \<and>
        x_sessions (mysql t) = {} \<and> x_errors (mysql t) = {} \<and> (chat_pc t = CNone \<longrightarrow> stop t)))"
proof -
  obtain s where "reaches env_65536 accepting blank_db main_start s" "blocked s"
    using blocked_reached by blast
  then show ?thesis using shutdown_order [OF main_start_eq, of _ _ _ s] by blast
qed

text \<open>
  If the reply to the chat scraper's call is an error, the process crashes: the call returns
  null and \<open>ChatScraper::run\<close> reads a field of it.
\<close>

theorem chat_error_crashes:
  assumes "waits_for 0 q KChats (td_obj s)" and "chat_pc s = CWaiting"
    and "crash s = None" and "main_pc s = MLoop" and "\<not> stop s"
  shows "\<exists>t. reaches env server uninit s t \<and> crash t = Some NullDeref"
proof -
  let ?o = "ObjError c m"
  have q: "td_ok (td_obj s)" "q \<noteq> 0" "handlers (td_obj s) q = Some (HSync 0 KChats)"
    "frames (td_obj s) 0 = Some new_frame"
    using assms(1) by (auto simp: waits_for_def)
  define t where "t = (td_obj s)\<lparr>frames := (frames (td_obj s))(0 \<mapsto> new_frame\<lparr>fr_finished := True\<rparr>)\<rparr>"
  have "loop 1 (\<lambda>_. (q, Some ?o)) (td_obj s) = Inr t"
    using q by (simp add: loop_some process_response_def sync_callback_def new_frame_def t_def)
  then have l: "main_loop (q, Some ?o) MLoop s = s\<lparr>td_obj := t, main_pc := MLoop\<rparr>"
    by (simp add: main_loop_def)
  let ?s = "s\<lparr>td_obj := t, main_pc := MLoop\<rparr>"
  have "step env server uninit s ?s"
    using step.again [of s env server uninit "(q, Some ?o)"] assms(3-5) l by simp
  moreover have "step env server uninit ?s (chat_return ?s)"
    by (rule step.answer) (use assms in \<open>simp_all add: frame_finished_def t_def\<close>)
  moreover have "crash (chat_return ?s) = Some NullDeref"
    by (simp add: chat_return_def leave_frame_def t_def new_frame_def)
  ultimately show ?thesis by (meson rtranclp.rtrancl_into_rtrancl rtranclp.rtrancl_refl)
qed

theorem chat_error_crashes_witness:
  "\<exists>s t. reaches env_65536 accepting blank_db main_start s \<and>
     reaches env_65536 accepting blank_db s t \<and> crash t = Some NullDeref"
proof -
  obtain s where "reaches env_65536 accepting blank_db main_start s" "crash s = None"
    "main_pc s = MLoop" "chat_pc s = CWaiting" "\<not> stop s" "waits_for 0 1 KChats (td_obj s)"
    using waiting_reached by blast
  then show ?thesis using chat_error_crashes [of 1 s] by blast
qed

text \<open>
  The entry point checks only \<open>TGVISD_API_ID\<close>: with that variable set, a missing
  \<open>TGVISD_API_HASH\<close> or \<open>TGVISD_DATA_PATH\<close> is not reported, and the client traps on a null
  pointer when TDLib asks for its parameters.
\<close>

theorem missing_hash_or_path_traps:
  assumes "env ''TGVISD_API_ID'' = Some i"
    and "env ''TGVISD_API_HASH'' = None \<or> env ''TGVISD_DATA_PATH'' = None"
  shows "\<exists>hash path s. entry_main env = StartMain (atoi i) hash path \<and>
     main_new cid input (atoi i) hash path = Inr s \<and>
     crash (main_loop (0, Some (ObjUpdate (UpdateAuthorizationState AuthWaitTdlibParameters))) MReady s)
       = Some NullDeref"
  using assms
  by (auto simp: entry_main_def Let_def main_new_def td_new_eq main_loop_def loop_def
      process_response_def on_authorization_state_update_def tdlib_params_def split: option.split)

theorem missing_hash_or_path_traps_witness:
  "\<exists>hash path s. entry_main [''TGVISD_API_ID'' \<mapsto> ''7''] = StartMain (atoi ''7'') hash path \<and>
     main_new 1 [] (atoi ''7'') hash path = Inr s \<and>
     crash (main_loop (0, Some (ObjUpdate (UpdateAuthorizationState AuthWaitTdlibParameters))) MReady s)
       = Some NullDeref"
  by (rule missing_hash_or_path_traps) simp_all

end
