(* ===== verification/TdHandler.thy ===== *)
theory TdHandler
  imports Td
begin

section \<open>The older TDLib client (TdTeaBot/TdHandler.cpp, TdHandler.hpp, Callback.hpp)\<close>

text \<open>
  \<open>TdHandler\<close> is the client from which \<open>Td\<close> was derived. It differs in three ways: query
  identifiers start at 1, every authorization update advances \<open>authentication_query_id_\<close>, and
  once logged in \<open>loop\<close> handles responses until none is left. It refines the same view.
\<close>

subsection \<open>State and operations\<close>

datatype th_handler =
    THAuth "64 word"
  | THGetMe
  | THReplied nat       \<comment> \<open>the callback of a module's \<open>check_replied_msg\<close>\<close>

record tdh =
  h_callback :: callbacks
  h_api_id :: "32 word"
  h_api_hash :: "string option"
  h_data_path :: "string option"
  h_closed :: bool
  h_need_restart :: bool
  h_are_authorized :: bool
  h_user_id :: "32 word"
  h_client_id :: int
  h_current_query_id :: "64 word"
  h_authentication_query_id :: "64 word"
  h_auth_mutex :: bool
  h_client_manager :: bool
  h_authorization_state :: "auth_state option"
  h_chat_title :: "int \<Rightarrow> string option"
  h_handlers :: "64 word \<Rightarrow> th_handler option"
  h_users :: "32 word \<Rightarrow> user option"
  h_stdin :: "string list"
  h_sent :: "(int \<times> 64 word \<times> td_function) list"
  h_fired :: "update list"
  h_replies :: "nat \<Rightarrow> td_object option"

text \<open>\<open>++current_query_id_\<close> returns the value after the addition.\<close>

definition th_next_query_id :: "tdh \<Rightarrow> 64 word \<times> tdh" where
  "th_next_query_id s =
     (h_current_query_id s + 1, s\<lparr>h_current_query_id := h_current_query_id s + 1\<rparr>)"

definition th_send_query :: "td_function \<Rightarrow> th_handler option \<Rightarrow> tdh \<Rightarrow> ub + tdh" where
  "th_send_query f h s =
     (case th_next_query_id s of (query_id, s) \<Rightarrow>
        let s = (case h of
                   None \<Rightarrow> s
                 | Some h \<Rightarrow> s\<lparr>h_handlers := emplace (h_handlers s) query_id h\<rparr>)
        in if h_client_manager s
           then Inr (s\<lparr>h_sent := h_sent s @ [(h_client_id s, query_id, f)]\<rparr>)
           else Inl NullDeref)"

definition th_new ::
  "int \<Rightarrow> string list \<Rightarrow> 32 word \<Rightarrow> string option \<Rightarrow> string option \<Rightarrow> ub + tdh" where
  "th_new cid input ai ah dp =
     th_send_query (GetOption ''version'') None
       \<lparr>h_callback = no_callbacks, h_api_id = ai, h_api_hash = ah, h_data_path = dp,
        h_closed = False, h_need_restart = False, h_are_authorized = False, h_user_id = 0,
        h_client_id = cid, h_current_query_id = 0, h_authentication_query_id = 0,
        h_auth_mutex = False, h_client_manager = True, h_authorization_state = None,
        h_chat_title = Map.empty, h_handlers = Map.empty, h_users = Map.empty,
        h_stdin = input, h_sent = [], h_fired = [], h_replies = Map.empty\<rparr>"

definition th_restart :: "tdh \<Rightarrow> tdh" where
  "th_restart s = s\<lparr>h_client_manager := False, h_closed := False, h_need_restart := False,
     h_are_authorized := False, h_current_query_id := 0, h_authentication_query_id := 0\<rparr>"

definition th_create_authentication_query_handler :: "tdh \<Rightarrow> th_handler" where
  "th_create_authentication_query_handler s = THAuth (h_authentication_query_id s)"

definition th_getline :: "tdh \<Rightarrow> string \<times> tdh" where
  "th_getline s =
     (case h_stdin s of [] \<Rightarrow> ([], s) | l # ls \<Rightarrow> (l, s\<lparr>h_stdin := ls\<rparr>))"

definition th_send_auth :: "td_function \<Rightarrow> tdh \<Rightarrow> ub + tdh" where
  "th_send_auth f s = th_send_query f (Some (th_create_authentication_query_handler s)) s"

definition th_params :: "tdh \<Rightarrow> ub + tdlib_parameters" where
  "th_params s =
     (case (h_api_hash s, h_data_path s) of
        (Some hash, Some dir) \<Rightarrow>
          Inr \<lparr>p_use_message_database = True, p_use_secret_chats = False, p_api_id = h_api_id s,
            p_api_hash = hash, p_database_directory = dir,
            p_system_language_code = ''en'', p_device_model = ''Desktop'',
            p_application_version = ''1.0'', p_enable_storage_optimizer = True\<rparr>
      | _ \<Rightarrow> Inl NullDeref)"

text \<open>The branch for the encryption key compares an empty key with \<open>"DESTROY"\<close> first.\<close>

fun th_auth_branch :: "auth_state \<Rightarrow> tdh \<Rightarrow> ub + tdh" where
  "th_auth_branch AuthReady s =
     th_send_query GetMe (Some THGetMe) (s\<lparr>h_are_authorized := True\<rparr>)"
| "th_auth_branch AuthLoggingOut s = Inr (s\<lparr>h_are_authorized := False\<rparr>)"
| "th_auth_branch AuthClosing s = Inr s"
| "th_auth_branch AuthClosed s =
     Inr (s\<lparr>h_closed := True, h_need_restart := True, h_are_authorized := False\<rparr>)"
| "th_auth_branch AuthWaitCode s =
     (case th_getline s of (code, s) \<Rightarrow> th_send_auth (CheckAuthenticationCode code) s)"
| "th_auth_branch AuthWaitRegistration s =
     (case th_getline s of (fn, s) \<Rightarrow> case th_getline s of (ln, s) \<Rightarrow>
        th_send_auth (RegisterUser fn ln) s)"
| "th_auth_branch AuthWaitPassword s =
     (case th_getline s of (pass, s) \<Rightarrow> th_send_auth (CheckAuthenticationPassword pass) s)"
| "th_auth_branch (AuthWaitOtherDeviceConfirmation link) s = Inr s"
| "th_auth_branch AuthWaitPhoneNumber s =
     (case th_getline s of (pn, s) \<Rightarrow> th_send_auth (SetAuthenticationPhoneNumber pn) s)"
| "th_auth_branch AuthWaitEncryptionKey s =
     (let key = [] in
      if key = ''DESTROY'' then th_send_auth DestroyClient s
      else th_send_auth (CheckDatabaseEncryptionKey key) s)"
| "th_auth_branch AuthWaitTdlibParameters s =
     ebind (th_params s) (\<lambda>par. th_send_auth (SetTdlibParameters par) s)"
| "th_auth_branch AuthOther s = Inr s"

definition th_on_authorization_state_update :: "tdh \<Rightarrow> ub + tdh" where
  "th_on_authorization_state_update s =
     (if h_auth_mutex s then Inl SelfDeadlock
      else
        let s = s\<lparr>h_auth_mutex := True,
                  h_authentication_query_id := h_authentication_query_id s + 1\<rparr>
        in case h_authorization_state s of
             None \<Rightarrow> Inl NullDeref
           | Some st \<Rightarrow> ebind (th_auth_branch st s) (\<lambda>s. Inr (s\<lparr>h_auth_mutex := False\<rparr>)))"

definition th_check_authentication_error :: "td_object \<Rightarrow> tdh \<Rightarrow> ub + tdh" where
  "th_check_authentication_error obj s =
     (if kind_of obj = KError then th_on_authorization_state_update s else Inr s)"

fun th_run_handler :: "th_handler \<Rightarrow> td_object \<Rightarrow> tdh \<Rightarrow> ub + tdh" where
  "th_run_handler (THAuth qid) obj s =
     (if qid = h_authentication_query_id s then th_check_authentication_error obj s else Inr s)"
| "th_run_handler THGetMe obj s =
     (case obj of ObjUser u \<Rightarrow> Inr (s\<lparr>h_user_id := word_of_int (u_id u)\<rparr>) | _ \<Rightarrow> Inr s)"
| "th_run_handler (THReplied k) obj s = Inr (s\<lparr>h_replies := (h_replies s)(k \<mapsto> obj)\<rparr>)"

definition th_callback_execute :: "update \<Rightarrow> tdh \<Rightarrow> tdh" where
  "th_callback_execute u s =
     (if callback_set (h_callback s) u then s\<lparr>h_fired := h_fired s @ [u]\<rparr> else s)"

fun th_process_update :: "td_object \<Rightarrow> tdh \<Rightarrow> ub + tdh" where
  "th_process_update (ObjUpdate (UpdateAuthorizationState st)) s =
     ebind (th_on_authorization_state_update (s\<lparr>h_authorization_state := Some st\<rparr>))
       (\<lambda>s. Inr (th_callback_execute (UpdateAuthorizationState st) s))"
| "th_process_update (ObjUpdate (UpdateNewChat c)) s =
     Inr (th_callback_execute (UpdateNewChat c)
            (s\<lparr>h_chat_title := (h_chat_title s)(c_id c \<mapsto> c_title c)\<rparr>))"
| "th_process_update (ObjUpdate (UpdateChatTitle i t)) s =
     Inr (th_callback_execute (UpdateChatTitle i t)
            (s\<lparr>h_chat_title := (h_chat_title s)(i \<mapsto> t)\<rparr>))"
| "th_process_update (ObjUpdate (UpdateUser u)) s =
     Inr (th_callback_execute (UpdateUser u)
            (s\<lparr>h_users := (h_users s)(user_key (u_id u) \<mapsto> u)\<rparr>))"
| "th_process_update (ObjUpdate (UpdateNewMessage m)) s =
     Inr (th_callback_execute (UpdateNewMessage m) s)"
| "th_process_update _ s = Inr s"

definition th_process_response :: "response \<Rightarrow> tdh \<Rightarrow> ub + tdh" where
  "th_process_response r s =
     (case r of (request_id, obj) \<Rightarrow>
        (case obj of
           None \<Rightarrow> Inr s
         | Some obj \<Rightarrow>
             if request_id = 0 then th_process_update obj s
             else case h_handlers s request_id of
                    None \<Rightarrow> Inr s
                  | Some h \<Rightarrow> th_run_handler h obj s))"

text \<open>
  \<open>handle_event_loop\<close> receives until there is no object. What \<open>receive\<close> returns is a list; at
  its end nothing arrives before the timeout.
\<close>

fun th_handle_event_loop :: "response list \<Rightarrow> tdh \<Rightarrow> ub + response list \<times> tdh" where
  "th_handle_event_loop [] s = (if \<not> h_client_manager s then Inl NullDeref else Inr ([], s))"
| "th_handle_event_loop (r # rs) s =
     (if \<not> h_client_manager s then Inl NullDeref
      else if snd r \<noteq> None then ebind (th_process_response r s) (th_handle_event_loop rs)
      else Inr (rs, s))"

definition th_loop :: "response list \<Rightarrow> tdh \<Rightarrow> ub + response list \<times> tdh" where
  "th_loop rs s =
     (if h_need_restart s then Inr (rs, th_restart s)
      else if \<not> h_are_authorized s then
        (if \<not> h_client_manager s then Inl NullDeref
         else case rs of
                [] \<Rightarrow> Inr ([], s)
              | r # rs \<Rightarrow> ebind (th_process_response r s) (\<lambda>s. Inr (rs, s)))
      else th_handle_event_loop rs s)"

definition th_close :: "response list \<Rightarrow> tdh \<Rightarrow> ub + response list \<times> tdh" where
  "th_close rs s = ebind (th_send_query CloseClient None s) (th_handle_event_loop rs)"

definition get_user_name :: "32 word \<Rightarrow> tdh \<Rightarrow> string" where
  "get_user_name i s =
     (case h_users s i of
        None \<Rightarrow> ''unknown user''
      | Some u \<Rightarrow> u_first_name u @ '' '' @ u_last_name u)"

definition get_chat_title :: "int \<Rightarrow> tdh \<Rightarrow> string" where
  "get_chat_title i s = (case h_chat_title s i of None \<Rightarrow> [] | Some t \<Rightarrow> t)"

subsection \<open>The registry of queries\<close>

lemma th_send_query_eq:
  "th_send_query f h s =
     (if h_client_manager s
      then Inr (s\<lparr>h_current_query_id := h_current_query_id s + 1,
                  h_handlers := (case h of None \<Rightarrow> h_handlers s
                               | Some h \<Rightarrow> emplace (h_handlers s) (h_current_query_id s + 1) h),
                  h_sent := h_sent s @ [(h_client_id s, h_current_query_id s + 1, f)]\<rparr>)
      else Inl NullDeref)"
  by (simp add: th_send_query_def th_next_query_id_def Let_def split: option.split)

definition th_next_id :: "tdh \<Rightarrow> 64 word" where
  "th_next_id s = h_current_query_id s + 1"

definition th_reg_inv :: "tdh \<Rightarrow> bool" where
  "th_reg_inv s \<longleftrightarrow> h_client_manager s \<and> th_next_id s \<noteq> 0 \<and>
     (\<forall>q h. h_handlers s q = Some h \<longrightarrow> q < th_next_id s)"

lemma th_reg_inv_fresh: "th_reg_inv s \<Longrightarrow> h_handlers s (th_next_id s) = None"
  by (metis less_irrefl option.exhaust th_reg_inv_def)

interpretation th_reg: query_registry th_send_query h_handlers th_next_id th_reg_inv
proof (unfold_locales, goal_cases)
  case (1 s f h)
  then show ?case by (simp add: th_send_query_eq th_reg_inv_def)
next
  case (2 s f h s')
  then show ?case
    using th_reg_inv_fresh [OF 2(1)]
    by (auto simp: th_send_query_eq th_next_id_def split: if_splits option.splits)
next
  case (3 s f h s')
  then show ?case by (auto simp: th_send_query_eq th_next_id_def split: if_splits)
next
  case (4 s f h s')
  then have n: "th_next_id s' = th_next_id s + 1" and cm: "h_client_manager s"
    by (auto simp: th_send_query_eq th_next_id_def split: if_splits)
  with 4(3) have self: "th_next_id s < th_next_id s'" by (simp add: word_less_Suc_self)
  have "h_handlers s' q = Some g \<Longrightarrow> h_handlers s q = Some g \<or> q = th_next_id s" for q g
    using 4(2) cm
    by (auto simp: th_send_query_eq th_next_id_def dest!: emplace_SomeD split: option.splits)
  with 4(1) self have "h_handlers s' q = Some g \<Longrightarrow> q < th_next_id s'" for q g
    unfolding th_reg_inv_def by (metis order_less_trans)
  moreover have "h_client_manager s'" using 4(2) cm by (auto simp: th_send_query_eq)
  ultimately show ?case using 4(3) by (auto simp: th_reg_inv_def)
qed

subsection \<open>The event loop refines the view of Td\<close>

definition th_view_of :: "tdh \<Rightarrow> view" where
  "th_view_of s = \<lparr>v_authorized = h_are_authorized s, v_title = h_chat_title s,
     v_users = h_users s, v_callback = h_callback s, v_fired = h_fired s\<rparr>"

definition th_ok :: "tdh \<Rightarrow> bool" where
  "th_ok s \<longleftrightarrow> h_client_manager s \<and> h_api_hash s \<noteq> None \<and> h_data_path s \<noteq> None \<and>
     \<not> h_auth_mutex s \<and> \<not> h_need_restart s \<and> h_authorization_state s \<noteq> Some AuthClosed \<and>
     (h_authorization_state s = Some AuthReady \<longrightarrow> h_are_authorized s) \<and>
     (h_authorization_state s = Some AuthLoggingOut \<longrightarrow> \<not> h_are_authorized s) \<and>
     (\<forall>q a. h_handlers s q = Some (THAuth a) \<longrightarrow> h_authorization_state s \<noteq> None)"

text \<open>The fields an authorization branch never writes.\<close>

definition th_same :: "tdh \<Rightarrow> tdh \<Rightarrow> bool" where
  "th_same s t \<longleftrightarrow> h_client_manager t = h_client_manager s \<and> h_api_hash t = h_api_hash s \<and>
     h_data_path t = h_data_path s \<and> h_authorization_state t = h_authorization_state s \<and>
     h_chat_title t = h_chat_title s \<and> h_users t = h_users s \<and> h_callback t = h_callback s \<and>
     h_fired t = h_fired s"

lemma th_auth_branch_ok:
  assumes "h_client_manager s" "h_api_hash s \<noteq> None" "h_data_path s \<noteq> None"
  shows "\<exists>t. th_auth_branch st s = Inr t \<and> th_same s t \<and>
     h_are_authorized t = flag_after st (h_are_authorized s) \<and>
     h_need_restart t = (h_need_restart s \<or> st = AuthClosed) \<and>
     h_authentication_query_id t = h_authentication_query_id s"
  using assms
  by (cases st) (auto simp: th_send_auth_def th_send_query_eq th_getline_def th_params_def
      th_same_def Let_def split: prod.splits list.splits)

lemma th_on_auth_ok:
  assumes "h_client_manager s" "h_api_hash s \<noteq> None" "h_data_path s \<noteq> None"
    "\<not> h_auth_mutex s" "h_authorization_state s = Some st"
  shows "\<exists>t. th_on_authorization_state_update s = Inr t \<and> th_same s t \<and> \<not> h_auth_mutex t \<and>
     h_are_authorized t = flag_after st (h_are_authorized s) \<and>
     h_need_restart t = (h_need_restart s \<or> st = AuthClosed) \<and>
     h_authentication_query_id t = h_authentication_query_id s + 1"
proof -
  let ?s = "s\<lparr>h_auth_mutex := True, h_authentication_query_id := h_authentication_query_id s + 1\<rparr>"
  have "h_client_manager ?s" "h_api_hash ?s \<noteq> None" "h_data_path ?s \<noteq> None"
    using assms by simp_all
  from th_auth_branch_ok [OF this, of st] obtain t where
    "th_auth_branch st ?s = Inr t" "th_same ?s t"
    "h_are_authorized t = flag_after st (h_are_authorized s)"
    "h_need_restart t = (h_need_restart s \<or> st = AuthClosed)"
    "h_authentication_query_id t = h_authentication_query_id s + 1" by auto
  with assms show ?thesis
    by (intro exI [of _ "t\<lparr>h_auth_mutex := False\<rparr>"])
      (simp add: th_on_authorization_state_update_def th_same_def)
qed

lemma th_auth_update_ok:
  assumes "th_ok s"
  shows "\<exists>t. th_process_update (ObjUpdate (UpdateAuthorizationState st)) s = Inr t \<and>
     (st \<noteq> AuthClosed \<longrightarrow> th_ok t) \<and>
     th_view_of t = tell (UpdateAuthorizationState st)
                      (learn (UpdateAuthorizationState st) (th_view_of s)) \<and>
     h_authentication_query_id t = h_authentication_query_id s + 1"
proof -
  let ?s = "s\<lparr>h_authorization_state := Some st\<rparr>"
  from th_on_auth_ok [of ?s st] assms obtain t where
    "th_on_authorization_state_update ?s = Inr t" "th_same ?s t" "\<not> h_auth_mutex t"
    "h_are_authorized t = flag_after st (h_are_authorized s)"
    "h_need_restart t = (st = AuthClosed)"
    "h_authentication_query_id t = h_authentication_query_id s + 1"
    by (auto simp: th_ok_def)
  with assms show ?thesis
    by (auto simp: th_ok_def th_same_def th_view_of_def tell_def th_callback_execute_def)
qed

lemma th_process_update_ok:
  assumes "th_ok s" and "\<not> closes (0, Some obj)"
  shows "\<exists>t. th_process_update obj s = Inr t \<and> th_ok t \<and>
     th_view_of t = observe (0, Some obj) (th_view_of s)"
proof (cases obj)
  case (ObjUpdate u)
  show ?thesis
  proof (cases u)
    case (UpdateAuthorizationState st)
    with assms(2) ObjUpdate have "st \<noteq> AuthClosed" by (simp add: closes_def)
    with th_auth_update_ok [OF assms(1), of st] ObjUpdate UpdateAuthorizationState
    show ?thesis by (auto simp: observe_def)
  qed (use assms(1) ObjUpdate in
      \<open>auto simp: th_ok_def th_callback_execute_def th_view_of_def tell_def observe_def
        callback_set_def\<close>)
qed (use assms in \<open>auto simp: observe_def\<close>)

lemma th_run_handler_ok:
  assumes "th_ok s" and "h_handlers s q = Some h"
  shows "\<exists>t. th_run_handler h obj s = Inr t \<and> th_ok t \<and> th_view_of t = th_view_of s"
proof (cases h)
  case (THAuth a)
  show ?thesis
  proof (cases "kind_of obj = KError \<and> a = h_authentication_query_id s")
    case True
    from THAuth assms obtain st where st: "h_authorization_state s = Some st"
      by (auto simp: th_ok_def)
    then obtain t where t: "th_on_authorization_state_update s = Inr t" "th_same s t"
      "\<not> h_auth_mutex t" "h_are_authorized t = flag_after st (h_are_authorized s)"
      "h_need_restart t = (st = AuthClosed)"
      using th_on_auth_ok [of s st] assms(1) by (auto simp: th_ok_def)
    have "flag_after st (h_are_authorized s) = h_are_authorized s"
      using assms(1) st by (cases st) (auto simp: th_ok_def)
    with True THAuth st t assms(1) show ?thesis
      by (auto simp: th_ok_def th_same_def th_view_of_def th_check_authentication_error_def)
  qed (use THAuth assms in \<open>auto simp: th_check_authentication_error_def\<close>)
qed (use assms in \<open>auto simp: th_ok_def th_view_of_def split: td_object.split\<close>)

lemma th_process_response_ok:
  assumes "th_ok s" and "\<not> closes r"
  shows "\<exists>t. th_process_response r s = Inr t \<and> th_ok t \<and>
     th_view_of t = observe r (th_view_of s)"
proof -
  obtain q o' where r: "r = (q, o')" by (cases r)
  show ?thesis
  proof (cases o')
    case (Some obj)
    show ?thesis
    proof (cases "q = 0")
      case True
      with th_process_update_ok [of s obj] r Some assms show ?thesis
        by (simp add: th_process_response_def)
    next
      case False
      then have o: "observe r v = v" for v
        using r by (simp add: observe_def split: option.split td_object.split)
      with th_run_handler_ok [OF assms(1), of q _ obj] r Some False assms(1) show ?thesis
        by (cases "h_handlers s q") (auto simp: th_process_response_def)
    qed
  qed (use r assms in \<open>simp add: th_process_response_def observe_def\<close>)
qed

lemma th_handle_event_loop_ok:
  "th_ok s \<Longrightarrow> \<forall>r \<in> set rs. \<not> closes r \<Longrightarrow>
   \<exists>t. th_handle_event_loop rs s = Inr (tl (dropWhile (\<lambda>r. snd r \<noteq> None) rs), t) \<and> th_ok t \<and>
     th_view_of t = fold observe (takeWhile (\<lambda>r. snd r \<noteq> None) rs) (th_view_of s)"
proof (induction rs arbitrary: s)
  case Nil
  then show ?case by (simp add: th_ok_def)
next
  case (Cons r rs)
  from th_process_response_ok [of s r] Cons.prems obtain u where
    u: "th_process_response r s = Inr u" "th_ok u" "th_view_of u = observe r (th_view_of s)" by auto
  have "h_client_manager s" using Cons.prems by (simp add: th_ok_def)
  with Cons.IH [OF u(2)] Cons.prems u show ?case by auto
qed

text \<open>Handlers stay registered while an authorization update is handled.\<close>

lemma le_emplace_handlers: "m \<subseteq>\<^sub>m emplace m k v"
  by (auto simp: emplace_def map_le_def split: option.splits)

lemma th_send_keeps: "th_send_query f h s = Inr t \<Longrightarrow> h_handlers s \<subseteq>\<^sub>m h_handlers t"
  by (auto simp: th_send_query_eq le_emplace_handlers split: if_splits option.splits)

lemma th_send_auth_keeps: "th_send_auth f s = Inr t \<Longrightarrow> h_handlers s \<subseteq>\<^sub>m h_handlers t"
  unfolding th_send_auth_def by (rule th_send_keeps)

lemma th_getline_handlers: "th_getline s = (l, t) \<Longrightarrow> h_handlers t = h_handlers s"
  by (auto simp: th_getline_def split: list.splits)

lemma th_auth_branch_keeps: "th_auth_branch st s = Inr t \<Longrightarrow> h_handlers s \<subseteq>\<^sub>m h_handlers t"
  by (cases st) (auto simp: ebind_eq_Inr Let_def split: prod.splits
      dest!: th_send_keeps th_send_auth_keeps th_getline_handlers)

lemma th_auth_update_keeps:
  "th_process_update (ObjUpdate (UpdateAuthorizationState st)) s = Inr t \<Longrightarrow>
     h_handlers s \<subseteq>\<^sub>m h_handlers t"
  by (auto simp: th_on_authorization_state_update_def ebind_eq_Inr Let_def th_callback_execute_def
      split: if_splits dest!: th_auth_branch_keeps)

subsection \<open>Properties\<close>

text \<open>The client after its constructor.\<close>

definition th_start :: tdh where
  "th_start = (case th_new 1 [''+62'', ''12345''] 7 (Some ''hash'') (Some ''/data'') of Inr s \<Rightarrow> s)"

lemma th_start_val:
  "th_start =
     \<lparr>h_callback = no_callbacks, h_api_id = 7, h_api_hash = Some ''hash'',
      h_data_path = Some ''/data'', h_closed = False, h_need_restart = False,
      h_are_authorized = False, h_user_id = 0, h_client_id = 1, h_current_query_id = 1,
      h_authentication_query_id = 0, h_auth_mutex = False, h_client_manager = True,
      h_authorization_state = None, h_chat_title = Map.empty, h_handlers = Map.empty,
      h_users = Map.empty, h_stdin = [''+62'', ''12345''],
      h_sent = [(1, 1, GetOption ''version'')], h_fired = [], h_replies = Map.empty\<rparr>"
  by (simp add: th_start_def th_new_def th_send_query_eq)

text \<open>The calls of \<open>loop\<close> that \<open>TeaBot::run\<close> makes one after the other, on what \<open>receive\<close> returns.\<close>

fun th_run :: "nat \<Rightarrow> response list \<Rightarrow> tdh \<Rightarrow> ub + response list \<times> tdh" where
  "th_run 0 rs s = Inr (rs, s)"
| "th_run (Suc n) rs s = ebind (th_loop rs s) (\<lambda>(rs, s). th_run n rs s)"

text \<open>One call takes at least one response, if there is one.\<close>

lemma th_loop_ok:
  assumes "th_ok s" and "\<forall>r \<in> set rs. \<not> closes r"
  shows "\<exists>used later t. rs = used @ later \<and> length later \<le> length rs - 1 \<and>
     th_loop rs s = Inr (later, t) \<and> th_ok t \<and> th_view_of t = fold observe used (th_view_of s)"
proof (cases "h_are_authorized s")
  case True
  let ?taken = "takeWhile (\<lambda>r. snd r \<noteq> None) rs" and ?left = "dropWhile (\<lambda>r. snd r \<noteq> None) rs"
  from th_handle_event_loop_ok [OF assms] obtain t where t: "th_handle_event_loop rs s = Inr (tl ?left, t)" "th_ok t"
    "th_view_of t = fold observe ?taken (th_view_of s)" by blast
  have silent: "observe r v = v" if "snd r = None" for r v using that by (cases r) (simp add: observe_def)
  have split: "rs = ?taken @ ?left" by simp
  have "\<exists>used. rs = used @ tl ?left \<and> fold observe used v = fold observe ?taken v" for v
  proof (cases ?left)
    case Nil
    with split show ?thesis by (metis append_Nil2 list.sel(2))
  next
    case (Cons r later)
    then have "snd r = None" by (simp add: dropWhile_eq_Cons_conv)
    with split Cons silent show ?thesis
      by (intro exI [of _ "?taken @ [r]"]) (simp del: takeWhile_dropWhile_id)
  qed
  with t(3) obtain used where "rs = used @ tl ?left" "th_view_of t = fold observe used (th_view_of s)" by metis
  moreover have "length (tl ?left) \<le> length rs - 1"
    using length_dropWhile_le [of _ rs] by (simp add: diff_le_mono)
  moreover have "th_loop rs s = Inr (tl ?left, t)" using t(1) assms(1) True by (simp add: th_loop_def th_ok_def)
  ultimately show ?thesis using t(2) by blast
next
  case False
  show ?thesis
  proof (cases rs)
    case Nil
    with False assms(1) show ?thesis by (auto simp: th_loop_def th_ok_def)
  next
    case (Cons r later)
    from th_process_response_ok [OF assms(1), of r] assms(2) Cons obtain t where
      t: "th_process_response r s = Inr t" "th_ok t" "th_view_of t = observe r (th_view_of s)" by auto
    with False assms(1) Cons show ?thesis
      by (intro exI [of _ "[r]"] exI [of _ later] exI [of _ t]) (simp add: th_loop_def th_ok_def)
  qed
qed

lemma th_run_ok:
  "th_ok s \<Longrightarrow> \<forall>r \<in> set rs. \<not> closes r \<Longrightarrow>
   \<exists>used later t. rs = used @ later \<and> length later \<le> length rs - n \<and>
     th_run n rs s = Inr (later, t) \<and> th_ok t \<and> th_view_of t = fold observe used (th_view_of s)"
proof (induction n arbitrary: rs s)
  case (Suc n)
  from th_loop_ok [OF Suc.prems] obtain used later t where
    1: "rs = used @ later" "length later \<le> length rs - 1" "th_loop rs s = Inr (later, t)" "th_ok t"
      "th_view_of t = fold observe used (th_view_of s)" by blast
  from Suc.IH [OF 1(4), of later] Suc.prems(2) 1(1) obtain used' later' u where
    2: "later = used' @ later'" "length later' \<le> length later - n" "th_run n later t = Inr (later', u)" "th_ok u"
      "th_view_of u = fold observe used' (th_view_of t)" by auto
  from 1 2 show ?case
    by (intro exI [of _ "used @ used'"] exI [of _ later'] exI [of _ u]) simp
qed simp

lemma th_closing_run:
  assumes "th_ok s" and "closes c"
  shows "th_run 3 (c # (q, None) # later) s = Inl NullDeref"
proof -
  from th_on_auth_ok [of "s\<lparr>h_authorization_state := Some AuthClosed\<rparr>" AuthClosed] assms(1) obtain t where
    "th_on_authorization_state_update (s\<lparr>h_authorization_state := Some AuthClosed\<rparr>) = Inr t"
    "h_need_restart t" "h_client_manager t"
    by (auto simp: th_ok_def th_same_def)
  with assms show ?thesis
    by (auto simp: numeral_3_eq_3 th_loop_def th_ok_def closes_def th_process_response_def th_callback_execute_def
        th_restart_def)
qed

text \<open>
  C20: Whatever number of times the main thread of TeaBot calls \<open>TdHandler::loop\<close>, logged in or not
  yet, the client does not trap as long as no response reports \<open>authorizationStateClosed\<close> (a client
  made with an API hash and a path, as \<open>th_ok\<close> asks, which TeaBot's always is); each call takes at
  least one response, and what an observer sees is the same fold over the updates taken as for \<open>Td\<close>.
  Once \<open>authorizationStateClosed\<close> comes, the client drops its manager and the third call from there
  dereferences a null pointer.
\<close>

theorem th_loop_refines_view:
  assumes "th_ok s" and "\<forall>r \<in> set rs. \<not> closes r"
  shows "\<exists>used later t. rs = used @ later \<and> length later \<le> length rs - n \<and>
     th_run n rs s = Inr (later, t) \<and> th_ok t \<and> th_view_of t = fold observe used (th_view_of s) \<and>
     (\<forall>c q more. closes c \<longrightarrow> th_run 3 (c # (q, None) # more) t = Inl NullDeref)"
  using th_run_ok [OF assms, of n] th_closing_run by blast

definition two_titles :: "response list" where
  "two_titles = [(0, Some (ObjUpdate (UpdateAuthorizationState AuthReady))),
     (0, Some (ObjUpdate (UpdateChatTitle 5 ''old''))), (0, Some (ObjUpdate (UpdateChatTitle 5 ''new''))), (0, None)]"

theorem th_loop_refines_view_witness:
  "\<exists>t. th_run 4 two_titles th_start = Inr ([], t) \<and> th_ok t \<and>
     th_view_of t = fold observe two_titles (th_view_of th_start)"
proof -
  have ok: "th_ok th_start" by (simp add: th_ok_def th_start_val)
  have no_close: "\<forall>r \<in> set two_titles. \<not> closes r" by (simp add: two_titles_def closes_def)
  have "length two_titles = 4" by (simp add: two_titles_def)
  with th_loop_refines_view [OF ok no_close, of 4] show ?thesis by auto
qed

text \<open>
  The identifiers of \<open>TdHandler\<close> start at 1 and so never collide with the identifier of
  updates: after a burst of queries that does not exhaust the counter, every response is
  handed to the handler registered for it.
\<close>

theorem th_burst_is_dispatched:
  assumes "th_reg_inv s" and "unat (th_next_id s) + length qs < 2 ^ 64"
  shows "\<exists>t. send_seq th_send_query qs s = Inr t \<and> th_reg_inv t \<and>
     (\<forall>i h obj. i < length qs \<longrightarrow> snd (qs ! i) = Some h \<longrightarrow>
        th_process_response (th_next_id s + word_of_nat i, Some obj) t = th_run_handler h obj t)"
proof -
  from th_reg.send_seq_registered [OF assms] obtain t where
    t: "send_seq th_send_query qs s = Inr t" "th_reg_inv t"
    "\<And>i h. i < length qs \<Longrightarrow> snd (qs ! i) = Some h \<Longrightarrow>
       h_handlers t (th_next_id s + word_of_nat i) = Some h"
    by blast
  have "th_next_id s + word_of_nat i \<noteq> 0" if "i < length qs" for i
  proof -
    have "0 < unat (th_next_id s)" using assms(1) by (auto simp: th_reg_inv_def unat_gt_0)
    then have "0 < unat (th_next_id s + word_of_nat i)"
      using that assms(2) by (simp add: unat_word_ariths unat_of_nat)
    then show ?thesis by auto
  qed
  with t show ?thesis by (intro exI [of _ t]) (simp add: th_process_response_def)
qed

theorem th_burst_is_dispatched_witness:
  "\<exists>t. send_seq th_send_query [(GetMe, Some THGetMe), (GetMe, Some THGetMe)] th_start = Inr t \<and>
     th_reg_inv t \<and>
     (\<forall>i h obj. i < length [(GetMe, Some THGetMe), (GetMe, Some THGetMe)] \<longrightarrow>
        snd ([(GetMe, Some THGetMe), (GetMe, Some THGetMe)] ! i) = Some h \<longrightarrow>
        th_process_response (th_next_id th_start + word_of_nat i, Some obj) t = th_run_handler h obj t)"
  by (rule th_burst_is_dispatched)
    (simp_all add: th_reg_inv_def th_next_id_def th_start_val)

text \<open>
  C29: An error answer to an authentication query is dropped once another authorization update
  has been handled: the client's state does not change, so no prompt is repeated for a step
  the login has already passed.
\<close>

theorem th_stale_auth_error_dropped:
  assumes "th_ok s" and "h_handlers s q = Some (THAuth a)" and "q \<noteq> 0"
    and "a \<le> h_authentication_query_id s" and "h_authentication_query_id s + 1 \<noteq> 0"
  shows "\<exists>t. th_process_update (ObjUpdate (UpdateAuthorizationState st)) s = Inr t \<and>
     th_process_response (q, Some (ObjError c m)) t = Inr t"
proof -
  from th_auth_update_ok [OF assms(1), of st] obtain t where
    t: "th_process_update (ObjUpdate (UpdateAuthorizationState st)) s = Inr t"
    "h_authentication_query_id t = h_authentication_query_id s + 1" by blast
  have "h_handlers t q = Some (THAuth a)"
    using th_auth_update_keeps [OF t(1)] assms(2) by (auto simp: map_le_def dom_def)
  moreover have "a < h_authentication_query_id s + 1"
    using word_less_Suc_self [OF assms(5)] assms(4) by (rule order_le_less_trans [rotated])
  ultimately show ?thesis
    using t assms(3) by (auto simp: th_process_response_def)
qed

theorem th_stale_auth_error_dropped_witness:
  "\<exists>t. th_process_update (ObjUpdate (UpdateAuthorizationState AuthWaitCode))
         (th_start\<lparr>h_handlers := [2 \<mapsto> THAuth 0], h_authorization_state := Some AuthWaitPhoneNumber\<rparr>) =
       Inr t \<and> th_process_response (2, Some (ObjError 400 ''x'')) t = Inr t"
  by (rule th_stale_auth_error_dropped [of _ _ 0]) (simp_all add: th_ok_def th_start_val)

end
