(* ===== verification/TeaCurl.thy ===== *)
theory TeaCurl
  imports CLib
begin

section \<open>The HTTP client of TeaBot (TeaBot/TeaCurl.cpp, TeaCurl.hpp)\<close>

text \<open>
  \<open>TeaCurl\<close> collects the body of a response in a heap block that grows with \<open>realloc\<close>.
  libcurl is outside: what it does in one transfer is the list of the chunks it hands to the
  write callback and the error it ends with, if any. \<open>mem n\<close> says whether a block of \<open>n\<close>
  bytes can be had; fresh bytes hold \<open>fill\<close>.
\<close>

record curl =
  curl_handle :: bool
  cu_output :: "char list option"
  output_alloc :: nat
  outlen :: nat
  release_heap :: bool

definition curl_init :: "bool \<Rightarrow> exn + curl" where
  "curl_init ok =
     (if ok then Inr \<lparr>curl_handle = True, cu_output = None, output_alloc = 0, outlen = 0,
                      release_heap = False\<rparr>
      else Inl (Thrown ''Cannot initialize TeaCurl handle: curl_easy_init()''))"

text \<open>The member \<open>output_alloc_\<close> is raised before \<open>realloc\<close> is tried.\<close>

definition write_callback ::
  "char \<Rightarrow> (nat \<Rightarrow> bool) \<Rightarrow> string \<Rightarrow> string \<Rightarrow> curl \<Rightarrow> exn + curl" where
  "write_callback fill mem errtext chunk c =
     (case cu_output c of
        None \<Rightarrow> Inl (Ub NullDeref)
      | Some out \<Rightarrow>
          let realsiz = length chunk; newoutlen = outlen c + realsiz;
              grow = output_alloc c < newoutlen + 1;
              alloc = (if grow then newoutlen + 4096 else output_alloc c);
              c = c\<lparr>output_alloc := alloc\<rparr>
          in
            if grow \<and> \<not> mem alloc
            then Inl (Thrown (''realloc error: '' @ take (1024 - 16) errtext))
            else
              let out = (if grow then out @ replicate (alloc - length out) fill else out)
              in lift_ub (ebind (poke out (outlen c + realsiz) NUL) (\<lambda>out.
                          ebind (blit out (outlen c) chunk) (\<lambda>out.
                            Inr (c\<lparr>cu_output := Some out, outlen := outlen c + realsiz\<rparr>)))))"

fun write_all ::
  "char \<Rightarrow> (nat \<Rightarrow> bool) \<Rightarrow> string \<Rightarrow> string list \<Rightarrow> curl \<Rightarrow> exn + curl" where
  "write_all fill mem errtext [] c = Inr c"
| "write_all fill mem errtext (chunk # chunks) c =
     ebind (write_callback fill mem errtext chunk c) (write_all fill mem errtext chunks)"

definition curl_execute ::
  "char \<Rightarrow> (nat \<Rightarrow> bool) \<Rightarrow> string \<Rightarrow> string list \<Rightarrow> string option \<Rightarrow> curl \<Rightarrow> exn + curl" where
  "curl_execute fill mem errtext chunks failure c =
     (if curl_handle c then
        let c = c\<lparr>output_alloc := 4096,
                  cu_output := (if mem 4096 then Some (replicate 4096 fill) else None)\<rparr>
        in ebind (write_all fill mem errtext chunks c) (\<lambda>c.
             case failure of
               None \<Rightarrow> Inr c
             | Some msg \<Rightarrow> Inl (Thrown (''Curl error: '' @ take (1024 - 13) msg)))
      else Inl (Thrown (''Curl error: '' @ ''No connections available'')))"

definition get_output :: "curl \<Rightarrow> char list option \<times> curl" where
  "get_output c = (cu_output c, c\<lparr>release_heap := True\<rparr>)"

text \<open>What the destructor frees: the handle, and the block unless it was handed out.\<close>

definition curl_destroy :: "curl \<Rightarrow> curl" where
  "curl_destroy c = c\<lparr>curl_handle := False,
     cu_output := (if \<not> release_heap c then None else cu_output c)\<rparr>"

subsection \<open>The block holds what was received\<close>

definition collected :: "string \<Rightarrow> curl \<Rightarrow> bool" where
  "collected body c \<longleftrightarrow>
     (\<exists>out. cu_output c = Some out \<and> length out = output_alloc c \<and> outlen c < output_alloc c \<and>
        outlen c = length body \<and> take (outlen c) out = body)"

definition terminated :: "curl \<Rightarrow> bool" where
  "terminated c \<longleftrightarrow> (\<exists>out. cu_output c = Some out \<and> out ! outlen c = NUL)"

lemma store_terminated:
  assumes "pos + length chunk < length buf"
  shows "ebind (poke buf (pos + length chunk) NUL) (\<lambda>b. ebind (blit b pos chunk) f) =
     f (take pos buf @ chunk @ NUL # drop (Suc (pos + length chunk)) buf)"
proof -
  have "drop (pos + length chunk) (buf[pos + length chunk := NUL]) =
      NUL # drop (Suc (pos + length chunk)) buf"
    using assms by (simp add: Cons_nth_drop_Suc [symmetric])
  with assms show ?thesis by (simp add: poke_def blit_def)
qed

lemma write_callback_collects:
  assumes "collected body c" and "\<forall>n. mem n"
  shows "\<exists>d. write_callback fill mem e chunk c = Inr d \<and> collected (body @ chunk) d \<and>
    terminated d \<and> release_heap d = release_heap c"
proof -
  from assms(1) obtain out where out: "cu_output c = Some out" "length out = output_alloc c"
    "outlen c < output_alloc c" "outlen c = length body" "take (outlen c) out = body"
    by (auto simp: collected_def)
  let ?new = "outlen c + length chunk"
  let ?grow = "output_alloc c < ?new + 1"
  define alloc where "alloc = (if ?grow then ?new + 4096 else output_alloc c)"
  define buf where "buf = (if ?grow then out @ replicate (alloc - length out) fill else out)"
  have buf: "length buf = alloc" "?new < length buf" "take (outlen c) buf = body"
    using out by (auto simp: buf_def alloc_def)
  let ?res = "body @ chunk @ NUL # drop (Suc ?new) buf"
  have "write_callback fill mem e chunk c =
      lift_ub (ebind (poke buf ?new NUL) (\<lambda>b. ebind (blit b (outlen c) chunk) (\<lambda>b.
        Inr (c\<lparr>output_alloc := alloc, cu_output := Some b, outlen := ?new\<rparr>))))"
    using out(1) assms(2) by (simp add: write_callback_def Let_def buf_def alloc_def)
  also have "\<dots> = Inr (c\<lparr>output_alloc := alloc, cu_output := Some ?res, outlen := ?new\<rparr>)"
    using store_terminated [OF buf(2)] buf(3) by simp
  finally show ?thesis
    using buf out(4) by (auto simp: collected_def terminated_def nth_append)
qed

lemma write_all_collects:
  assumes "\<forall>n. mem n"
  shows "collected body c \<Longrightarrow>
    \<exists>d. write_all fill mem e chunks c = Inr d \<and> collected (body @ concat chunks) d \<and>
      release_heap d = release_heap c \<and> (chunks \<noteq> [] \<longrightarrow> terminated d)"
proof (induction chunks arbitrary: body c)
  case Nil
  then show ?case by simp
next
  case (Cons chunk chunks)
  from write_callback_collects [OF Cons.prems assms] obtain d where
    d: "write_callback fill mem e chunk c = Inr d" "collected (body @ chunk) d" "terminated d"
    "release_heap d = release_heap c" by blast
  from Cons.IH [OF d(2)] obtain t where t: "write_all fill mem e chunks d = Inr t"
    "collected (body @ chunk @ concat chunks) t" "release_heap t = release_heap d"
    "chunks \<noteq> [] \<longrightarrow> terminated t" by auto
  have "terminated t" using t d(3) by (cases "chunks = []") auto
  with d t show ?case by simp
qed

lemma curl_execute_success:
  assumes "curl_handle c" and "outlen c = 0" and "\<forall>n. mem n"
  shows "\<exists>d. curl_execute fill mem e chunks None c = Inr d \<and> collected (concat chunks) d \<and>
    release_heap d = release_heap c \<and> (chunks \<noteq> [] \<longrightarrow> terminated d)"
proof -
  let ?c = "c\<lparr>output_alloc := 4096, cu_output := Some (replicate 4096 fill)\<rparr>"
  have "collected [] ?c" using assms(2) by (simp add: collected_def)
  from write_all_collects [OF assms(3) this, where chunks = chunks and fill = fill and e = e]
  obtain d where "write_all fill mem e chunks ?c = Inr d"
    "collected (concat chunks) d" "release_heap d = release_heap c"
    "chunks \<noteq> [] \<longrightarrow> terminated d" by auto
  with assms(1,3) show ?thesis by (simp add: curl_execute_def)
qed

subsection \<open>Properties\<close>

text \<open>
  Whatever the sizes of the chunks, every write of the callback stays inside the block, and
  after a transfer that succeeds the block holds the chunks in order, followed by a NUL byte,
  so that the string handed out is the body up to its first NUL.
\<close>

theorem curl_collects_body:
  assumes "curl_handle c" and "outlen c = 0" and "\<forall>n. mem n" and "chunks \<noteq> []"
  shows "\<exists>d out. curl_execute fill mem e chunks None c = Inr d \<and> fst (get_output d) = Some out \<and>
    outlen d = length (concat chunks) \<and> take (outlen d) out = concat chunks \<and>
    out ! outlen d = NUL \<and> cstr out = cstr (concat chunks @ [NUL])"
proof -
  from curl_execute_success [OF assms(1-3), where chunks = chunks and fill = fill and e = e] assms(4)
  obtain d where d: "curl_execute fill mem e chunks None c = Inr d" "collected (concat chunks) d"
    "terminated d" by auto
  then obtain out where out: "cu_output d = Some out" "outlen d < length out"
    "outlen d = length (concat chunks)" "take (outlen d) out = concat chunks" "out ! outlen d = NUL"
    by (auto simp: collected_def terminated_def)
  have split: "out = concat chunks @ NUL # drop (Suc (outlen d)) out"
    using id_take_nth_drop [OF out(2)] out(4,5) by simp
  have "cstr (xs @ NUL # ys) = cstr (xs @ [NUL])" for xs ys
    by (cases "NUL \<in> set xs") (auto simp: cstr_def takeWhile_append)
  with split have "cstr out = cstr (concat chunks @ [NUL])" by metis
  with d out show ?thesis by (auto simp: get_output_def)
qed

definition curl_fresh :: curl where
  "curl_fresh = \<lparr>curl_handle = True, cu_output = None, output_alloc = 0, outlen = 0, release_heap = False\<rparr>"

theorem curl_collects_body_witness:
  "\<exists>d out. curl_execute NUL (\<lambda>_. True) [] [replicate 5000 (CHR ''a''), ''bc''] None curl_fresh = Inr d \<and>
    fst (get_output d) = Some out \<and> outlen d = length (concat [replicate 5000 (CHR ''a''), ''bc'']) \<and>
    take (outlen d) out = concat [replicate 5000 (CHR ''a''), ''bc''] \<and> out ! outlen d = NUL \<and>
    cstr out = cstr (concat [replicate 5000 (CHR ''a''), ''bc''] @ [NUL])"
  by (rule curl_collects_body) (simp_all add: curl_fresh_def)

text \<open>
  If the transfer succeeds without a single chunk, an empty response, the block handed out is
  not terminated: it still holds whatever \<open>malloc\<close> returned, and reading it as a string runs
  past its end unless a NUL byte happens to be in it.
\<close>

theorem curl_empty_body_unterminated:
  assumes "curl_handle c" and "fill \<noteq> NUL" and "mem 4096"
  shows "\<exists>d out. curl_execute fill mem e [] None c = Inr d \<and> fst (get_output d) = Some out \<and>
    c_strlen out = Inl OutOfBounds"
  using assms by (simp add: curl_execute_def get_output_def c_strlen_def has_nul_def)

theorem curl_empty_body_unterminated_witness:
  "\<exists>d out. curl_execute (CHR ''x'') (\<lambda>_. True) [] [] None curl_fresh = Inr d \<and>
    fst (get_output d) = Some out \<and> c_strlen out = Inl OutOfBounds"
  by (rule curl_empty_body_unterminated) (simp_all add: curl_fresh_def)

end
