(* ===== verification/Accounts.thy ===== *)
theory Accounts
  imports Helpers
begin

section \<open>The account files (main.cpp of TeaBot, its predecessor, and main.cpp of the old tgvisd)\<close>

text \<open>
  The older programs are started with the name of a file whose lines are directories, one for
  each account, holding \<open>api_id.txt\<close> and \<open>api_hash.txt\<close>. Three versions of the loader are
  modelled. The file system is an argument; \<open>fill\<close> is what memory holds before it is written.
\<close>

text \<open>\<open>fgets\<close> into an array of \<open>n\<close> bytes: the line, its terminator, and what was there.\<close>

definition line_buf :: "char \<Rightarrow> nat \<Rightarrow> string \<Rightarrow> char list" where
  "line_buf fill n line = line @ NUL # replicate (n - Suc (length line)) fill"

text \<open>Cutting a trailing newline off the C string in a buffer, as \<open>buf[--len] = 0\<close> does.\<close>

definition cut_newline :: "string \<Rightarrow> string" where
  "cut_newline s = (if s \<noteq> [] \<and> last s = NL then butlast s else s)"

subsection \<open>TeaBot/main.cpp\<close>

record account =
  acc_api_id :: "32 word"
  acc_api_hash :: "char list"
  acc_data_path :: "char list"

text \<open>Memory from \<open>malloc\<close> and \<open>realloc\<close>.\<close>

definition raw_account :: "char \<Rightarrow> account" where
  "raw_account fill = \<lparr>acc_api_id = 0, acc_api_hash = replicate 64 fill,
     acc_data_path = replicate 1024 fill\<rparr>"

definition EINVAL :: int where "EINVAL = 22"

definition load_account :: "char \<Rightarrow> fs \<Rightarrow> string \<Rightarrow> account \<Rightarrow> ub + (int \<times> account)" where
  "load_account fill fs data_path acc =
     ebind (strncpy (acc_data_path acc) data_path (1024 - 1)) (\<lambda>dp.
     let acc = acc\<lparr>acc_data_path := dp\<rparr> in
     case fs (snprintf_str 2048 (data_path @ ''/api_hash.txt'')) of
       Inl e \<Rightarrow> Inr (- 1, acc)
     | Inr contents \<Rightarrow>
         (case fgets 64 contents of
            None \<Rightarrow> Inr (- EINVAL, acc)
          | Some (line, _) \<Rightarrow>
              ebind (trim (line_buf fill 64 line)) (\<lambda>(con_bf, head, _).
              ebind (strncpy (acc_api_hash acc) (cstr (drop head con_bf)) (64 - 1)) (\<lambda>hash.
              let acc = acc\<lparr>acc_api_hash := hash\<rparr> in
              case fs (snprintf_str 2048 (data_path @ ''/api_id.txt'')) of
                Inl e \<Rightarrow> Inr (- 1, acc)
              | Inr contents \<Rightarrow>
                  (case fgets 64 contents of
                     None \<Rightarrow> Inr (- EINVAL, acc)
                   | Some (line, _) \<Rightarrow>
                       Inr (0, acc\<lparr>acc_api_id := ucast (strtoul10 (cstr line))\<rparr>))))))"

text \<open>
  The loop of \<open>load_account_list\<close>: the allocated array, how many of its entries are in use, and
  the unread part of the file. \<open>mem\<close> says whether an array of that many accounts can be had.
\<close>

function load_lines ::
  "char \<Rightarrow> fs \<Rightarrow> (nat \<Rightarrow> bool) \<Rightarrow> string \<Rightarrow> nat \<Rightarrow> account list \<Rightarrow> nat \<Rightarrow>
     ub + (int \<times> account list \<times> nat)" where
  "load_lines fill fs mem contents acc_alloc acc_list n_acc =
     (case fgets 1023 contents of
        None \<Rightarrow> Inr (0, acc_list, n_acc)
      | Some (line, rest) \<Rightarrow>
          if cstr line = [] then Inl OutOfBounds
          else
            let buf = cut_newline (cstr line);
                grow = n_acc + 1 \<ge> acc_alloc;
                acc_alloc = (if grow then acc_alloc * 2 else acc_alloc)
            in
              if grow \<and> \<not> mem acc_alloc then Inr (- 1, acc_list, n_acc)
              else
                let acc_list = (if grow
                      then acc_list @ replicate (acc_alloc - length acc_list) (raw_account fill)
                      else acc_list)
                in
                  if length acc_list \<le> n_acc then Inl OutOfBounds
                  else
                    ebind (load_account fill fs buf (acc_list ! n_acc)) (\<lambda>(r, acc).
                      let acc_list = acc_list[n_acc := acc] in
                      if r < 0 then Inr (r, acc_list, n_acc)
                      else load_lines fill fs mem rest acc_alloc acc_list (n_acc + 1)))"
  by pat_completeness auto
termination
  by (relation "measure (\<lambda>(fill, fs, mem, contents, _). length contents)")
    (auto dest: fgets_shorter [rotated])

declare load_lines.simps [simp del]

definition load_account_list ::
  "char \<Rightarrow> fs \<Rightarrow> (nat \<Rightarrow> bool) \<Rightarrow> string \<Rightarrow> ub + (int \<times> (account list \<times> nat) option)" where
  "load_account_list fill fs mem filename =
     (case fs filename of
        Inl e \<Rightarrow> Inr (- 1, None)
      | Inr contents \<Rightarrow>
          if \<not> mem 5 then Inr (- 1, None)
          else
            ebind (load_lines fill fs mem contents 5 (replicate 5 (raw_account fill)) 0)
              (\<lambda>(retval, acc_list, n_acc).
                Inr (retval, if retval = 0 then Some (acc_list, n_acc) else None)))"

text \<open>\<open>main\<close>: the exit code and the accounts for which a thread is started.\<close>

definition teabot_main ::
  "char \<Rightarrow> fs \<Rightarrow> (nat \<Rightarrow> bool) \<Rightarrow> string list \<Rightarrow> ub + (int \<times> account list)" where
  "teabot_main fill fs mem argv =
     (if length argv \<noteq> 2 then Inr (1, [])
      else
        ebind (load_account_list fill fs mem (argv ! 1)) (\<lambda>(r, res).
          if r < 0 then Inr (1, [])
          else case res of
                 None \<Rightarrow> Inr (0, [])
               | Some (acc_list, n_acc) \<Rightarrow> Inr (0, take n_acc acc_list)))"

subsection \<open>The loader\<close>

text \<open>The lines of the account file as the loop sees them.\<close>

function account_lines :: "string \<Rightarrow> string list" where
  "account_lines contents =
     (case fgets 1023 contents of
        None \<Rightarrow> []
      | Some (line, rest) \<Rightarrow> cut_newline line # account_lines rest)"
  by pat_completeness auto
termination
  by (relation "measure length") (auto dest: fgets_shorter [rotated])

declare account_lines.simps [simp del]

text \<open>What the code means to do: load the accounts one by one, up to the first that fails.\<close>

fun load_each :: "char \<Rightarrow> fs \<Rightarrow> string list \<Rightarrow> ub + (int \<times> account list)" where
  "load_each fill fs [] = Inr (0, [])"
| "load_each fill fs (l # ls) =
     ebind (load_account fill fs l (raw_account fill)) (\<lambda>(r, acc).
       if r < 0 then Inr (r, [])
       else ebind (load_each fill fs ls) (\<lambda>(r, accs). Inr (r, acc # accs)))"

text \<open>\<open>trim\<close> on a line: the C string it returns is the trimmed line.\<close>

lemma trim_line:
  assumes "NUL \<notin> set line" and "length line < n"
  shows "\<exists>buf h k. trim (line_buf fill n line) = Inr (buf, h, k) \<and> cstr (drop h buf) = trimmed line"
proof -
  let ?b = "line_buf fill n line" and ?l = "length line"
  have sl: "c_strlen ?b = Inr ?l"
    using assms(1) by (simp add: c_strlen_def has_nul_def line_buf_def)
  have fit: "0 + ?l \<le> length ?b" using assms(2) by (simp add: line_buf_def)
  have r: "region ?b 0 ?l = line" by (simp add: region_def line_buf_def)
  let ?h = "length (takeWhile is_trim line)" and ?k = "length (trimmed line)"
    and ?m = "length (dropWhile is_trim line)"
  have hm: "?h + ?m = ?l" by (metis length_append takeWhile_dropWhile_id)
  let ?b' = "if 0 < ?k \<and> ?k < ?m then ?b[?h + ?k := NUL] else ?b"
  note T = trim_len_result [OF fit, unfolded r, simplified]
  have t: "trim ?b = Inr (?b', ?h, ?k)" using sl T(1) by (simp add: trim_def)
  have reg: "region ?b' ?h ?k = trimmed line"
    using T(3) region_update_after [of ?b ?h ?k NUL] by simp
  have km: "?k \<le> ?m" by (rule length_trimmed_le)
  have zero: "?m = 0" if "?k = 0"
  proof (rule ccontr)
    assume "?m \<noteq> 0"
    then obtain c cs where "dropWhile is_trim line = c # cs" by (cases "dropWhile is_trim line") auto
    moreover have "\<not> is_trim c" using calculation hd_dropWhile [of is_trim line] by force
    ultimately have "trimmed line \<noteq> []" by (auto simp: trimmed_def)
    with that show False by simp
  qed
  have len: "length ?b' = length ?b" "?h + ?k < length ?b"
    using km hm assms(2) by (simp_all add: line_buf_def)
  have "?b' ! (?h + ?k) = NUL"
  proof (cases "0 < ?k \<and> ?k < ?m")
    case True
    with len show ?thesis by simp
  next
    case False
    with km zero have "?h + ?k = ?l" using hm by linarith
    with False show ?thesis by (simp add: line_buf_def nth_append)
  qed
  then have "drop ?h ?b' = trimmed line @ NUL # drop (Suc (?h + ?k)) ?b'"
    using reg len id_take_nth_drop [of ?k "drop ?h ?b'"] by (simp add: region_def add.commute)
  moreover have "NUL \<notin> set (trimmed line)"
    using assms(1) by (auto simp: trimmed_def dest!: set_dropWhileD)
  ultimately have "cstr (drop ?h ?b') = trimmed line" by simp
  with t show ?thesis by blast
qed

lemma account_lines_no_nul:
  "NUL \<notin> set contents \<Longrightarrow> l \<in> set (account_lines contents) \<Longrightarrow> NUL \<notin> set l"
proof (induction contents rule: account_lines.induct)
  case (1 contents)
  show ?case
  proof (cases "fgets 1023 contents")
    case None
    with 1(3) show ?thesis by (simp add: account_lines.simps [of contents])
  next
    case (Some p)
    obtain line rest where p: "p = (line, rest)" by (cases p)
    have sub: "set line \<subseteq> set contents" "set rest \<subseteq> set contents"
      using fgets_line [of 1023 contents line rest] Some p by auto
    have "NUL \<notin> set (cut_newline line)"
      using sub 1(2) by (auto simp: cut_newline_def dest: in_set_butlastD)
    moreover have "NUL \<notin> set rest" using sub 1(2) by auto
    moreover have "l = cut_newline line \<or> l \<in> set (account_lines rest)"
      using 1(3) Some p by (simp add: account_lines.simps [of contents])
    ultimately show ?thesis using 1(1) [OF Some p [symmetric]] by auto
  qed
qed

text \<open>
  The loop with its growing array computes what loading the lines one by one computes; the
  array always has room for the next account.
\<close>

definition fresh_from :: "char \<Rightarrow> nat \<Rightarrow> account list \<Rightarrow> bool" where
  "fresh_from fill n arr \<longleftrightarrow> n < length arr \<and> (\<forall>i. n \<le> i \<longrightarrow> i < length arr \<longrightarrow> arr ! i = raw_account fill)"

lemma fresh_grow:
  assumes "fresh_from fill n arr" and "arr' = (if length arr \<le> n + 1 then arr @ replicate (length arr * 2 - length arr) (raw_account fill) else arr)"
  shows "fresh_from fill (n + 1) (arr'[n := acc])" "n < length arr'" "take n arr' = take n arr"
    "arr' ! n = raw_account fill" "length arr' = (if length arr \<le> n + 1 then length arr * 2 else length arr)"
  using assms by (auto simp: fresh_from_def nth_append)

lemma load_lines_spec:
  assumes "NUL \<notin> set contents" and "fresh_from fill n arr"
  shows "(\<exists>k. \<not> mem k) \<and> (\<exists>arr' n'. load_lines fill fs mem contents (length arr) arr n = Inr (- 1, arr', n')) \<or>
    (case load_each fill fs (account_lines contents) of
      Inl e \<Rightarrow> load_lines fill fs mem contents (length arr) arr n = Inl e
    | Inr (r, accs) \<Rightarrow> \<exists>arr'. load_lines fill fs mem contents (length arr) arr n = Inr (r, arr', n + length accs) \<and>
        take (n + length accs) arr' = take n arr @ accs \<and> n + length accs < length arr')"
  using assms
proof (induction contents arbitrary: n arr rule: account_lines.induct)
  case (1 contents)
  show ?case
  proof (cases "fgets 1023 contents")
    case None
    with 1(3) show ?thesis
      by (simp add: account_lines.simps [of contents] load_lines.simps [of _ _ _ contents] fresh_from_def)
  next
    case (Some p)
    obtain line rest where p: "p = (line, rest)" by (cases p)
    have ln: "line \<noteq> []" "NUL \<notin> set line" "NUL \<notin> set rest"
      using fgets_line [of 1023 contents line rest] Some p 1(2) by auto
    then have c: "cstr line = line" by (simp add: cstr_id)
    show ?thesis
    proof (cases "length arr \<le> n + 1 \<and> \<not> mem (length arr * 2)")
      case True
      then have "load_lines fill fs mem contents (length arr) arr n = Inr (- 1, arr, n)"
        using Some p ln c by (simp add: load_lines.simps [of fill fs mem contents] Let_def)
      with True show ?thesis by blast
    next
      case granted: False
      define arr1 where "arr1 = (if length arr \<le> n + 1 then arr @ replicate (length arr * 2 - length arr) (raw_account fill) else arr)"
      note G = fresh_grow [OF 1(3) arr1_def]
      let ?rest = "\<lambda>(r, acc). let acc_list = arr1[n := acc] in
          if r < 0 then Inr (r, acc_list, n)
          else load_lines fill fs mem rest (length arr1) acc_list (n + 1)"
      have L: "load_lines fill fs mem contents (length arr) arr n =
          ebind (load_account fill fs (cut_newline line) (raw_account fill)) ?rest"
        using Some p ln c G(2,4,5) granted
        by (cases "length arr \<le> n + 1")
          (simp_all add: load_lines.simps [of fill fs mem contents] Let_def arr1_def mult_2_right cong: if_cong)
      have E: "load_each fill fs (account_lines contents) =
          ebind (load_account fill fs (cut_newline line) (raw_account fill)) (\<lambda>(r, acc).
            if r < 0 then Inr (r, [])
            else ebind (load_each fill fs (account_lines rest)) (\<lambda>(r, accs). Inr (r, acc # accs)))"
        using Some p by (simp add: account_lines.simps [of contents])
      show ?thesis
      proof (cases "load_account fill fs (cut_newline line) (raw_account fill)")
        case (Inl e)
        with L E show ?thesis by simp
      next
        case (Inr ra)
        obtain r acc where ra: "ra = (r, acc)" by (cases ra)
        show ?thesis
        proof (cases "r < 0")
          case True
          with L E Inr ra G(2,3) show ?thesis by (simp add: Let_def)
        next
          case False
          have step: "load_lines fill fs mem contents (length arr) arr n =
              load_lines fill fs mem rest (length (arr1[n := acc])) (arr1[n := acc]) (n + 1)"
            using L Inr ra False by (simp add: Let_def)
          moreover have "take (n + 1) (arr1[n := acc]) = take n arr @ [acc]"
            using G(2,3) by (simp add: take_Suc_conv_app_nth)
          moreover note 1(1) [OF Some p [symmetric] ln(3) G(1) [of acc]]
          ultimately show ?thesis
            using E Inr ra False
            by (cases "load_each fill fs (account_lines rest)") auto
        qed
      qed
    qed
  qed
qed

lemma strncpy_raw:
  "strncpy (replicate (Suc n) fill) src n = Inr (strncpy_bytes src n @ [fill])"
  by (simp add: strncpy_def blit_def del: replicate_Suc) simp

lemmas strncpy_account =
  strncpy_raw [of 1023 fill for fill, simplified] strncpy_raw [of 63 fill for fill, simplified]

text \<open>Every file of the account can be opened and holds text.\<close>

definition fs_text :: "fs \<Rightarrow> bool" where
  "fs_text fs \<longleftrightarrow> (\<forall>p c. fs p = Inr c \<longrightarrow> NUL \<notin> set c)"

definition hash_file :: "string \<Rightarrow> string" where
  "hash_file path = snprintf_str 2048 (path @ ''/api_hash.txt'')"

definition id_file :: "string \<Rightarrow> string" where
  "id_file path = snprintf_str 2048 (path @ ''/api_id.txt'')"

lemma load_account_result:
  assumes "fs_text fs"
  shows "load_account fill fs path (raw_account fill) =
    (let acc = (raw_account fill)\<lparr>acc_data_path := strncpy_bytes path 1023 @ [fill]\<rparr> in
     case fs (hash_file path) of
       Inl e \<Rightarrow> Inr (- 1, acc)
     | Inr hc \<Rightarrow>
         (case fgets 64 hc of
            None \<Rightarrow> Inr (- EINVAL, acc)
          | Some (hl, _) \<Rightarrow>
              let acc = acc\<lparr>acc_api_hash := strncpy_bytes (trimmed hl) 63 @ [fill]\<rparr> in
              case fs (id_file path) of
                Inl e \<Rightarrow> Inr (- 1, acc)
              | Inr ic \<Rightarrow>
                  (case fgets 64 ic of
                     None \<Rightarrow> Inr (- EINVAL, acc)
                   | Some (il, _) \<Rightarrow> Inr (0, acc\<lparr>acc_api_id := ucast (strtoul10 (cstr il))\<rparr>))))"
proof -
  have dp: "strncpy (acc_data_path (raw_account fill)) path (1024 - 1) =
      Inr (strncpy_bytes path 1023 @ [fill])"
    by (simp add: raw_account_def strncpy_account)
  show ?thesis
  proof (cases "fs (hash_file path)")
    case (Inl e)
    with dp show ?thesis by (simp add: load_account_def hash_file_def Let_def)
  next
    case (Inr hc)
    show ?thesis
    proof (cases "fgets 64 hc")
      case None
      with Inr dp show ?thesis by (simp add: load_account_def hash_file_def Let_def)
    next
      case (Some p)
      obtain hl rest where p: "p = (hl, rest)" by (cases p)
      have hl: "NUL \<notin> set hl" "length hl < 64"
        using fgets_line [of 64 hc hl rest] Some p assms Inr by (auto simp: fs_text_def)
      obtain buf h k where t: "trim (line_buf fill 64 hl) = Inr (buf, h, k)" "cstr (drop h buf) = trimmed hl"
        using trim_line [OF hl] by blast
      have hs: "strncpy (acc_api_hash (raw_account fill)) (trimmed hl) (64 - 1) =
          Inr (strncpy_bytes (trimmed hl) 63 @ [fill])"
        by (simp add: raw_account_def strncpy_account)
      show ?thesis
        using Inr Some p dp t hs
        by (simp add: load_account_def hash_file_def id_file_def Let_def split: sum.split option.split)
    qed
  qed
qed

lemma load_account_total:
  "fs_text fs \<Longrightarrow> \<exists>r acc. load_account fill fs path (raw_account fill) = Inr (r, acc) \<and> r \<le> 0"
  by (auto simp: load_account_result Let_def EINVAL_def split: sum.split option.split)

lemma load_each_total:
  assumes "fs_text fs"
  shows "\<exists>r accs. load_each fill fs ls = Inr (r, accs) \<and> r \<le> 0"
proof (induction ls)
  case (Cons l ls)
  from load_account_total [OF assms, of fill l] Cons show ?case by auto
qed simp

subsection \<open>Writing an account\<close>

text \<open>The two files of a directory, as they are to be written.\<close>

definition written_account :: "fs \<Rightarrow> string \<Rightarrow> 32 word \<Rightarrow> string \<Rightarrow> bool" where
  "written_account fs path i hash \<longleftrightarrow>
     fs (id_file path) = Inr (dec_nat (unat i) @ [NL]) \<and> fs (hash_file path) = Inr (hash @ [NL])"

lemma length_dec_nat: "0 < k \<Longrightarrow> n < 10 ^ k \<Longrightarrow> length (dec_nat n) \<le> k"
proof (induction k arbitrary: n)
  case (Suc k)
  show ?case
  proof (cases "n < 10")
    case False
    then have "0 < k" using Suc.prems by (cases k) auto
    moreover have "n div 10 < 10 ^ k" using Suc.prems by (simp add: less_mult_imp_div_less mult.commute)
    ultimately show ?thesis using Suc.IH [of "n div 10"] False by (simp add: dec_nat.simps [of n])
  qed (simp add: dec_nat.simps [of n])
qed simp

lemma scan_signed_line: "scan_signed (dec_nat n @ [NL]) = (False, n)"
proof -
  obtain c cs where d: "dec_nat n = c # cs" by (cases "dec_nat n") simp_all
  then have c: "isdigit c" using dec_nat_digits [of c n] by simp
  then have "c \<noteq> CHR ''-''" "c \<noteq> CHR ''+''" "\<not> isspace c" by auto
  moreover have "dec_val 0 (dec_nat n @ [NL]) = n"
    by (simp add: dec_val_append dec_nat_digits) (simp add: isdigit_def)
  ultimately show ?thesis using d c by (simp add: scan_signed_def)
qed

lemma fgets_written: "NL \<notin> set l \<Longrightarrow> \<exists>r. fgets 64 (l @ [NL]) = Some (take 63 (l @ [NL]), r)"
proof -
  assume "NL \<notin> set l"
  then have "takeWhile (\<lambda>c. c \<noteq> NL) (l @ [NL]) = l" by (auto simp: takeWhile_append)
  then show ?thesis by (simp add: fgets_def Let_def min_def)
qed

lemma fgets_number: "n < 2 ^ 32 \<Longrightarrow> fgets 64 (dec_nat n @ [NL]) = Some (dec_nat n @ [NL], [])"
proof -
  assume "n < 2 ^ 32"
  then have "length (dec_nat n) \<le> 10" by (intro length_dec_nat) simp_all
  moreover have "NL \<notin> set (dec_nat n)" by (auto simp: isdigit_def dest!: dec_nat_digits)
  then have "takeWhile (\<lambda>c. c \<noteq> NL) (dec_nat n @ [NL]) = dec_nat n" by (auto simp: takeWhile_append)
  ultimately show ?thesis by (simp add: fgets_def Let_def)
qed

lemma trimmed_clean: "(\<And>c. c \<in> set s \<Longrightarrow> \<not> is_trim c) \<Longrightarrow> trimmed s = s"
proof -
  assume a: "\<And>c. c \<in> set s \<Longrightarrow> \<not> is_trim c"
  then have "dropWhile is_trim s = s" "dropWhile is_trim (rev s) = rev s"
    by (simp_all add: dropWhile_eq_self_iff) (use a in \<open>auto simp: hd_rev\<close>)
  then show ?thesis by (simp add: trimmed_def)
qed

lemma trimmed_written:
  assumes "\<And>c. c \<in> set s \<Longrightarrow> \<not> is_trim c"
  shows "trimmed (take 63 (s @ [NL])) = take 63 s"
proof (cases "length s < 63")
  case True
  have nl: "is_trim NL" by (simp add: is_trim_def)
  have "trimmed (s @ [NL]) = trimmed s"
  proof (cases s)
    case (Cons c cs)
    with assms show ?thesis by (simp add: trimmed_def nl)
  qed (simp add: trimmed_def nl)
  with True show ?thesis using trimmed_clean [of s] assms by simp
next
  case False
  then show ?thesis using trimmed_clean [of "take 63 s"] assms by (auto dest: in_set_takeD)
qed

lemma strncpy_terminated:
  "NUL \<notin> set s \<Longrightarrow> length s < n \<Longrightarrow> cstr (strncpy_bytes s n @ r) = s \<and> has_nul (strncpy_bytes s n @ r)"
  by (cases "n - length s") (simp_all add: strncpy_bytes_eq has_nul_def)

subsection \<open>Properties\<close>


definition two_accounts :: fs where
  "two_accounts p =
     (if p = ''list'' then Inr (''a'' @ [NL] @ ''b'' @ [NL])
      else if p = ''a/api_hash.txt'' \<or> p = ''b/api_hash.txt'' then Inr ('' 0abc'' @ [NL])
      else if p = ''a/api_id.txt'' then Inr (''123'' @ [NL])
      else Inl 2)"

lemma two_accounts_text: "fs_text two_accounts"
  by (simp add: fs_text_def two_accounts_def)



definition one_account :: fs where
  "one_account p =
     (if p = ''a/api_hash.txt'' then Inr (''0abc'' @ [NL])
      else if p = ''a/api_id.txt'' then Inr (''123'' @ [NL])
      else Inl 2)"

lemma dec_123: "dec_nat 123 = ''123''"
  by code_simp


subsection \<open>The predecessor of the loader (TeaBot/main.old.cpp)\<close>

text \<open>
  Entries made with \<open>realloc\<close> hold nothing until they are filled: \<open>None\<close>. The function returns
  the list pointer, or null; on some of the error paths it returns a list whose last entry was
  never filled.
\<close>

type_synonym old_entry = "(32 word \<times> string \<times> string) option"

function old_load_lines ::
  "fs \<Rightarrow> (nat \<Rightarrow> bool) \<Rightarrow> string \<Rightarrow> old_entry list \<Rightarrow> ub + old_entry list option" where
  "old_load_lines fs mem contents list =
     (case fgets 4096 contents of
        None \<Rightarrow> Inr (if list = [] then None else Some list)
      | Some (line, rest) \<Rightarrow>
          if cstr line = [] then Inl OutOfBounds
          else
            let acc_buf = cut_newline (cstr line); n_list = Suc (length list) in
            if \<not> mem n_list then Inr None
            else
              let list = list @ [None] in
              (case fs (acc_buf @ ''/api_id.txt'') of
                 Inl e \<Rightarrow> Inr None
               | Inr ic \<Rightarrow>
                   (case fgets 1024 ic of
                      None \<Rightarrow> Inr None
                    | Some (id_line, _) \<Rightarrow>
                        let aid = ucast (strtoul10 (cstr id_line)) in
                        if aid = (0 :: 32 word) then Inr (Some list)
                        else
                          (case fs (acc_buf @ ''/api_hash.txt'') of
                             Inl e \<Rightarrow> Inr None
                           | Inr hc \<Rightarrow>
                               (case fgets 1024 hc of
                                  None \<Rightarrow> Inr (Some list)
                                | Some (hash_line, _) \<Rightarrow>
                                    if cstr hash_line = [] then Inl OutOfBounds
                                    else
                                      old_load_lines fs mem rest
                                        (list[n_list - 1 :=
                                           Some (aid, cut_newline (cstr hash_line), acc_buf)]))))))"
  by pat_completeness auto
termination
  by (relation "measure (\<lambda>(fs, mem, contents, _). length contents)")
    (auto dest: fgets_shorter [rotated])

declare old_load_lines.simps [simp del]

definition old_load_account_list :: "fs \<Rightarrow> (nat \<Rightarrow> bool) \<Rightarrow> string \<Rightarrow> ub + old_entry list option" where
  "old_load_account_list fs mem filename =
     (case fs filename of Inl e \<Rightarrow> Inr None | Inr contents \<Rightarrow> old_load_lines fs mem contents [])"

text \<open>A thread is started for every entry and reads its three fields.\<close>

definition old_main :: "fs \<Rightarrow> (nat \<Rightarrow> bool) \<Rightarrow> string list \<Rightarrow> ub + (int \<times> (32 word \<times> string \<times> string) list)" where
  "old_main fs mem argv =
     (if length argv \<noteq> 2 then Inr (0, [])
      else
        ebind (old_load_account_list fs mem (argv ! 1)) (\<lambda>res.
          case res of
            None \<Rightarrow> Inr (1, [])
          | Some list \<Rightarrow> if None \<in> set list then Inl UninitRead else Inr (0, map the list)))"

lemma old_invalid_id_step:
  assumes "fgets 4096 contents = Some (line, rest)" and "cstr line \<noteq> []" and "\<forall>k. mem k"
    and "fs (cut_newline (cstr line) @ ''/api_id.txt'') = Inr ic"
    and "fgets 1024 ic = Some (il, ir)" and "ucast (strtoul10 (cstr il)) = (0 :: 32 word)"
  shows "old_load_lines fs mem contents list = Inr (Some (list @ [None]))"
  using assms by (simp add: old_load_lines.simps [of fs mem contents] Let_def)

text \<open>
  When the identifier file of an account holds no positive number, the old loader reports it
  but returns the list it has so far, with an entry for that account that was never filled;
  if that happens on the first line, \<open>main\<close> starts a thread that reads nothing else.
\<close>

theorem old_invalid_id_uninitialised:
  assumes "fgets 4096 contents = Some (line, rest)" and "cstr line \<noteq> []" and "\<forall>k. mem k"
    and "fs (cut_newline (cstr line) @ ''/api_id.txt'') = Inr ic"
    and "fgets 1024 ic = Some (il, ir)" and "ucast (strtoul10 (cstr il)) = (0 :: 32 word)"
    and "fs filename = Inr contents"
  shows "old_load_lines fs mem contents list = Inr (Some (list @ [None])) \<and>
    old_main fs mem [prog, filename] = Inl UninitRead"
  using old_invalid_id_step [of contents line rest mem fs ic il ir] assms
  by (simp add: old_main_def old_load_account_list_def)

definition bad_id_fs :: fs where
  "bad_id_fs p = (if p = ''list'' then Inr ''a'' else if p = ''a/api_id.txt'' then Inr ''x'' else Inl 2)"

theorem old_invalid_id_uninitialised_witness:
  "old_load_lines bad_id_fs (\<lambda>_. True) ''a'' [] = Inr (Some ([] @ [None])) \<and>
   old_main bad_id_fs (\<lambda>_. True) [''bot'', ''list''] = Inl UninitRead"
  by (rule old_invalid_id_uninitialised [of _ "''a''" "[]" _ _ "''x''" "''x''" "[]"])
    (simp_all add: fgets_def cut_newline_def cstr_def bad_id_fs_def strtoul10_def scan_signed_def
      isspace_def isdigit_def)

subsection \<open>main.cpp of the old tgvisd\<close>

record tg_account =
  tg_api_id :: "32 word"
  tg_api_hash :: "char list"
  tg_data_path :: string

text \<open>The newline of the hash is cut in place.\<close>

definition cut_in_place :: "char list \<Rightarrow> ub + char list" where
  "cut_in_place hash =
     ebind (c_strlen hash) (\<lambda>l.
       if 0 < l then
         ebind (peek hash (l - 1)) (\<lambda>c. if c = NL then poke hash (l - 1) NUL else Inr hash)
       else Inr hash)"

text \<open>
  \<open>load_tg_account\<close>: zero, or the error number; \<open>acc\<close> is the uninitialised structure the
  caller passes. The buffer of the hash is borrowed for the identifier first.
\<close>

definition load_tg_account :: "char \<Rightarrow> fs \<Rightarrow> string \<Rightarrow> tg_account \<Rightarrow> ub + (int \<times> tg_account)" where
  "load_tg_account fill fs acc_path acc =
     (case fs (snprintf_str 1054 (acc_path @ ''/api_id.txt'')) of
        Inl err \<Rightarrow> Inr (err, acc)
      | Inr ic \<Rightarrow>
          (case fgets 64 ic of
             None \<Rightarrow> Inr (EINVAL, acc)
           | Some (line, _) \<Rightarrow>
               let acc = acc\<lparr>tg_api_hash := line_buf fill 64 line,
                             tg_api_id := ucast (strtoul10 (cstr line))\<rparr>
               in case fs (snprintf_str 1054 (acc_path @ ''/api_hash.txt'')) of
                    Inl err \<Rightarrow> Inr (err, acc)
                  | Inr hc \<Rightarrow>
                      (case fgets 64 hc of
                         None \<Rightarrow> Inr (EINVAL, acc)
                       | Some (line, _) \<Rightarrow>
                           ebind (cut_in_place (line_buf fill 64 line)) (\<lambda>hash.
                             Inr (0, acc\<lparr>tg_api_hash := hash,
                               tg_data_path := snprintf_str 1033 (acc_path @ ''/data'')\<rparr>)))))"

text \<open>The reading loop of \<open>main\<close>: short lines and accounts that fail are skipped.\<close>

function tg_accounts ::
  "char \<Rightarrow> fs \<Rightarrow> tg_account \<Rightarrow> string \<Rightarrow> ub + tg_account list" where
  "tg_accounts fill fs raw contents =
     (case fgets 1024 contents of
        None \<Rightarrow> Inr []
      | Some (line, rest) \<Rightarrow>
          if length (cstr line) < 2 then tg_accounts fill fs raw rest
          else
            ebind (load_tg_account fill fs (cut_newline (cstr line)) raw) (\<lambda>(ret, acc).
              if ret \<noteq> 0 then tg_accounts fill fs raw rest
              else ebind (tg_accounts fill fs raw rest) (\<lambda>accs. Inr (acc # accs))))"
  by pat_completeness auto
termination
  by (relation "measure (\<lambda>(fill, fs, raw, contents). length contents)")
    (auto dest: fgets_shorter [rotated])

declare tg_accounts.simps [simp del]

text \<open>\<open>run_accounts\<close>: its result, and the accounts for which \<open>Main::run\<close> is called.\<close>

definition run_accounts :: "tg_account list \<Rightarrow> int \<times> tg_account list" where
  "run_accounts accounts = (if accounts = [] then (EINVAL, []) else (0, [hd accounts]))"

definition tg_main ::
  "char \<Rightarrow> fs \<Rightarrow> tg_account \<Rightarrow> string list \<Rightarrow> ub + (int \<times> tg_account list)" where
  "tg_main fill fs raw argv =
     (if length argv \<noteq> 2 then Inr (1, [])
      else case fs (argv ! 1) of
             Inl err \<Rightarrow> Inr (err, [])
           | Inr contents \<Rightarrow>
               ebind (tg_accounts fill fs raw contents) (\<lambda>accounts. Inr (run_accounts accounts)))"

function file_lines :: "nat \<Rightarrow> string \<Rightarrow> string list" where
  "file_lines n contents =
     (if n < 2 then []
      else case fgets n contents of
             None \<Rightarrow> []
           | Some (line, rest) \<Rightarrow> line # file_lines n rest)"
  by pat_completeness auto
termination
  by (relation "measure (\<lambda>(n, contents). length contents)") (auto dest: fgets_shorter [rotated])

declare file_lines.simps [simp del]

text \<open>The account a directory gives, if its files load.\<close>

definition tg_try :: "char \<Rightarrow> fs \<Rightarrow> tg_account \<Rightarrow> string \<Rightarrow> tg_account option" where
  "tg_try fill fs raw dir =
     (case load_tg_account fill fs dir raw of
        Inl u \<Rightarrow> None
      | Inr (ret, acc) \<Rightarrow> if ret = 0 then Some acc else None)"

lemma cut_in_place_line:
  assumes "NUL \<notin> set hl" and "hl \<noteq> []"
  shows "\<exists>b. cut_in_place (line_buf fill n hl) = Inr b \<and> cstr b = cut_newline hl"
proof -
  obtain xs c where hl: "hl = xs @ [c]" using assms(2) by (cases hl rule: rev_cases) auto
  have "c_strlen (line_buf fill n hl) = Inr (length hl)"
    using assms(1) by (simp add: c_strlen_def has_nul_def line_buf_def)
  moreover have "peek (line_buf fill n hl) (length hl - 1) = Inr c"
    by (simp add: hl line_buf_def peek_def nth_append)
  moreover have "poke (line_buf fill n hl) (length hl - 1) NUL =
      Inr (xs @ NUL # NUL # replicate (n - Suc (length hl)) fill)"
    by (simp add: hl line_buf_def poke_def list_update_append)
  moreover have "cstr (line_buf fill n hl) = hl" using assms(1) by (simp add: line_buf_def)
  ultimately show ?thesis
    using assms(1) hl by (auto simp: cut_in_place_def cut_newline_def)
qed

lemma load_tg_account_total:
  assumes "fs_text fs"
  shows "\<exists>ret acc. load_tg_account fill fs dir raw = Inr (ret, acc)"
proof -
  have clean: "NUL \<notin> set l \<and> l \<noteq> []" if "fs p = Inr c" "fgets 64 c = Some (l, r)" for p c l r
    using that assms fgets_line [of 64 c l r] by (auto simp: fs_text_def)
  then have "\<exists>b. cut_in_place (line_buf fill 64 l) = Inr b"
    if "fs p = Inr c" "fgets 64 c = Some (l, r)" for p c l r
    using that cut_in_place_line by blast
  then show ?thesis
    unfolding load_tg_account_def Let_def
    by (auto split: sum.split option.split) fastforce
qed

lemma tg_accounts_eq:
  assumes "fs_text fs"
  shows "NUL \<notin> set contents \<Longrightarrow> tg_accounts fill fs raw contents =
    Inr (List.map_filter (tg_try fill fs raw)
          (map cut_newline (filter (\<lambda>l. 2 \<le> length l) (file_lines 1024 contents))))"
proof (induction "length contents" arbitrary: contents rule: less_induct)
  case less
  show ?case
  proof (cases "fgets 1024 contents")
    case None
    then show ?thesis
      by (simp add: tg_accounts.simps [of fill fs raw contents] file_lines.simps [of 1024 contents]
          map_filter_simps)
  next
    case (Some p)
    obtain line rest where p: "p = (line, rest)" by (cases p)
    have l: "NUL \<notin> set line" "NUL \<notin> set rest" "length rest < length contents"
      using fgets_line [of 1024 contents line rest] fgets_shorter [of 1024 contents line rest]
        Some p less(2) by auto
    then have c: "cstr line = line" by (simp add: cstr_id)
    obtain ret acc where a: "load_tg_account fill fs (cut_newline line) raw = Inr (ret, acc)"
      using load_tg_account_total [OF assms] by blast
    from less(1) [OF l(3,2)] Some p c a show ?thesis
      by (simp add: tg_accounts.simps [of fill fs raw contents] file_lines.simps [of 1024 contents]
          map_filter_simps tg_try_def not_less)
  qed
qed

text \<open>
  The old \<open>main\<close> tries the directories of its file one by one (lines of less than two bytes
  are skipped), leaves out those whose files cannot be read, and runs the first account that
  loads and no other; without any it ends with \<open>EINVAL\<close>. On text files it stays inside its
  buffers.
\<close>

theorem tg_main_runs_first_account:
  assumes "fs_text fs" and "fs file = Inr contents"
  shows "tg_main fill fs raw [prog, file] = Inr
    (case List.map_filter (tg_try fill fs raw)
            (map cut_newline (filter (\<lambda>l. 2 \<le> length l) (file_lines 1024 contents))) of
       [] \<Rightarrow> (EINVAL, [])
     | acc # _ \<Rightarrow> (0, [acc]))"
proof -
  have "NUL \<notin> set contents" using assms by (auto simp: fs_text_def)
  from tg_accounts_eq [OF assms(1) this] assms(2) show ?thesis
    by (simp add: tg_main_def run_accounts_def split: list.split)
qed

definition raw_tg :: tg_account where
  "raw_tg = \<lparr>tg_api_id = 0, tg_api_hash = replicate 64 (CHR ''x''), tg_data_path = []\<rparr>"

theorem tg_main_runs_first_account_witness:
  "tg_main (CHR ''x'') two_accounts raw_tg [''bot'', ''list''] = Inr
    (case List.map_filter (tg_try (CHR ''x'') two_accounts raw_tg)
            (map cut_newline (filter (\<lambda>l. 2 \<le> length l)
               (file_lines 1024 (''a'' @ [NL] @ ''b'' @ [NL])))) of
       [] \<Rightarrow> (EINVAL, [])
     | acc # _ \<Rightarrow> (0, [acc]))"
  by (rule tg_main_runs_first_account [OF two_accounts_text]) (simp add: two_accounts_def)

end
