(* ===== verification/Modules.thy ===== *)
theory Modules
  imports CLib TdApi
begin

section \<open>The module tables and the reference counts of the multi-account program\<close>

text \<open>
  \<open>Main/Module\<close>, \<open>Modules/BaseEnumerate\<close>, \<open>Modules/Enumerate/Shell\<close>, the reference count of
  \<open>Main/Main.hpp\<close> and \<open>Main::toggleGlobalModule\<close> under \<open>old.old/src.old2/tgvisd\<close>: how a message
  is offered to the modules, and how long the one module object shared by all \<open>Main\<close> objects
  lives. Printing is left out.
\<close>

subsection \<open>The count of running jobs\<close>

text \<open>\<open>incRef\<close> and \<open>decRef\<close>: the flag is \<open>stopUpdate_\<close>, the count is \<open>myRef_\<close>.\<close>

definition inc_ref :: "bool \<Rightarrow> int \<Rightarrow> ub + int" where
  "inc_ref stop_update n = (if stop_update then Inl AssertFailed else Inr (n + 1))"

definition dec_ref :: "int \<Rightarrow> int" where
  "dec_ref n = n - 1"

subsection \<open>The shell module\<close>

datatype mbe_ret = MbeBreak | MbeContinue

text \<open>
  \<open>Shell::handleUpdate\<close>: the text handed to the new thread is the tail of the message after the
  command, the length handed over is the one of the whole message.
\<close>

definition shell_prefix :: "string \<Rightarrow> bool" where
  "shell_prefix t \<longleftrightarrow>
     \<not> length t < 4 \<and> t ! 0 \<in> set ''!/~.'' \<and> t ! 1 = CHR ''s'' \<and> t ! 2 = CHR ''h'' \<and>
     isspace (t ! 3)"

definition shell_handle_update ::
  "bool \<Rightarrow> message \<Rightarrow> int \<Rightarrow> ub + (mbe_ret \<times> int \<times> (string \<times> nat) list)" where
  "shell_handle_update stop_update m refs =
     (case m_content m of
        Some (MessageText ft) \<Rightarrow>
          (if shell_prefix (ft_text ft)
           then ebind (inc_ref stop_update refs) (\<lambda>n.
                  Inr (MbeBreak, n, [(drop 4 (ft_text ft), length (ft_text ft))]))
           else Inr (MbeContinue, refs, []))
      | _ \<Rightarrow> Inr (MbeContinue, refs, []))"

text \<open>\<open>doShellExec\<close> prints the command and gives its reference back.\<close>

definition do_shell_exec :: "string \<times> nat \<Rightarrow> int \<Rightarrow> string \<times> int" where
  "do_shell_exec job n = (cstr (fst job @ [NUL]), dec_ref n)"

subsection \<open>The module object\<close>

text \<open>
  A table of handlers, called in order until one breaks. The table in the code holds the shell
  module only. A handler gets the reference count and returns it with the threads it started.
\<close>

type_synonym mbe_handler = "message \<Rightarrow> int \<Rightarrow> ub + (mbe_ret \<times> int \<times> (string \<times> nat) list)"

fun dispatch_table :: "mbe_handler list \<Rightarrow> message \<Rightarrow> int \<Rightarrow> ub + (int \<times> (string \<times> nat) list)" where
  "dispatch_table [] m n = Inr (n, [])"
| "dispatch_table (h # hs) m n =
     ebind (h m n) (\<lambda>(r, n, jobs).
       case r of
         MbeBreak \<Rightarrow> Inr (n, jobs)
       | MbeContinue \<Rightarrow> ebind (dispatch_table hs m n) (\<lambda>(n, more). Inr (n, jobs @ more)))"

definition dispatch_enumerate :: "bool \<Rightarrow> message \<Rightarrow> int \<Rightarrow> ub + (int \<times> (string \<times> nat) list)" where
  "dispatch_enumerate stop_update = dispatch_table [shell_handle_update stop_update]"

text \<open>
  The module object as its two tables, of which only the number of live entries matters here:
  the constructor initialises the enumerate modules, the destructor deletes both tables.
\<close>

record module_obj =
  mod_enumerate :: nat
  mod_preload :: nat

definition module_new :: module_obj where
  "module_new = \<lparr>mod_enumerate = 1, mod_preload = 1\<rparr>"

subsection \<open>The shared module\<close>

text \<open>\<open>gModule\<close> and \<open>gModuleRefCount\<close>.\<close>

record gstate =
  g_module :: "module_obj option"
  g_count :: "32 word"

definition toggle_global_module :: "bool \<Rightarrow> gstate \<Rightarrow> ub + (gstate \<times> module_obj option)" where
  "toggle_global_module sw g =
     (if sw then
        (case g_module g of
           None \<Rightarrow>
             if g_count g \<noteq> 0 then Inl AssertFailed
             else Inr (\<lparr>g_module = Some module_new, g_count = g_count g + 1\<rparr>, Some module_new)
         | Some m \<Rightarrow>
             if g_count g = 0 then Inl AssertFailed
             else Inr (g\<lparr>g_count := g_count g + 1\<rparr>, Some m))
      else
        (case g_module g of
           None \<Rightarrow> Inl AssertFailed
         | Some m \<Rightarrow>
             let n = g_count g - 1
             in Inr (\<lparr>g_module = (if n = 0 then None else Some m), g_count = n\<rparr>, None)))"

definition g_init :: gstate where
  "g_init = \<lparr>g_module = None, g_count = 0\<rparr>"

text \<open>Constructions (\<open>True\<close>) and destructions (\<open>False\<close>) of \<open>Main\<close> objects, in order.\<close>

fun toggles :: "bool list \<Rightarrow> gstate \<Rightarrow> ub + gstate" where
  "toggles [] g = Inr g"
| "toggles (sw # sws) g = ebind (toggle_global_module sw g) (\<lambda>(g, _). toggles sws g)"

text \<open>How many \<open>Main\<close> objects are alive, if none is destroyed before it exists.\<close>

fun alive :: "bool list \<Rightarrow> nat \<Rightarrow> nat option" where
  "alive [] n = Some n"
| "alive (True # sws) n = (if n + 1 < 2 ^ 32 then alive sws (n + 1) else None)"
| "alive (False # sws) n = (case n of 0 \<Rightarrow> None | Suc k \<Rightarrow> alive sws k)"

definition counts :: "nat \<Rightarrow> gstate \<Rightarrow> bool" where
  "counts n g \<longleftrightarrow> n < 2 ^ 32 \<and> unat (g_count g) = n \<and> (g_module g = None \<longleftrightarrow> n = 0)"

lemma counts_zero: "counts n g \<Longrightarrow> g_count g = 0 \<longleftrightarrow> n = 0"
  by (auto simp: counts_def unat_eq_0)

lemma toggle_up:
  assumes "counts n g" and "n + 1 < 2 ^ 32"
  shows "\<exists>g' m. toggle_global_module True g = Inr (g', Some m) \<and> g_module g' = Some m \<and> counts (n + 1) g'"
proof -
  have u: "unat (g_count g + 1) = n + 1"
    using assms by (simp add: counts_def unat_word_ariths)
  show ?thesis
    using assms u counts_zero [OF assms(1)]
    by (cases "g_module g") (auto simp: toggle_global_module_def counts_def)
qed

lemma toggle_down:
  assumes "counts (Suc n) g"
  shows "\<exists>g'. toggle_global_module False g = Inr (g', None) \<and> counts n g'"
proof -
  have nz: "g_count g \<noteq> 0" using counts_zero [OF assms] by simp
  have u: "unat (g_count g - 1) = n"
    using assms unat_minus_one [OF nz] by (simp add: counts_def)
  then have z: "g_count g - 1 = 0 \<longleftrightarrow> n = 0" by (metis unat_eq_0)
  show ?thesis
    using assms u z by (auto simp: toggle_global_module_def counts_def Let_def)
qed

text \<open>
  The module exists exactly while some \<open>Main\<close> object does, and no assertion of
  \<open>toggleGlobalModule\<close> fails, for any order of constructions and destructions.
\<close>

lemma toggles_count:
  "alive sws n = Some k \<Longrightarrow> counts n g \<Longrightarrow> \<exists>g'. toggles sws g = Inr g' \<and> counts k g'"
proof (induction sws n arbitrary: g rule: alive.induct)
  case (2 sws n)
  then show ?case using toggle_up [of n g] by (fastforce split: if_splits)
next
  case (3 sws n)
  then obtain j where n: "n = Suc j" "alive sws j = Some k" by (auto split: nat.splits)
  with toggle_down [of j g] 3 show ?case by fastforce
qed simp

lemma counts_init [simp]: "counts 0 g_init"
  by (simp add: counts_def g_init_def)

subsection \<open>Lemmas on the dispatch\<close>

lemma shell_handle_update_running [simp]:
  "\<exists>r n' jobs. shell_handle_update False m n = Inr (r, n', jobs) \<and> n \<le> n'"
  by (auto simp: shell_handle_update_def inc_ref_def split: option.splits message_content.splits)

lemma dispatch_enumerate_running:
  obtains n' jobs where "dispatch_enumerate False m n = Inr (n', jobs)" "n \<le> n'"
proof -
  obtain r n' jobs where "shell_handle_update False m n = Inr (r, n', jobs)" "n \<le> n'"
    using shell_handle_update_running by blast
  then show ?thesis using that by (cases r) (auto simp: dispatch_enumerate_def)
qed

end
