(* ===== verification/Pool.thy ===== *)
theory Pool
  imports Modules
begin

section \<open>The worker pool of the multi-account program\<close>

text \<open>
  \<open>Main/Main\<close> and \<open>Main/Worker\<close> under \<open>old.old/src.old2/tgvisd\<close>: the two stacks of idle
  workers, the life of a worker's thread, and the shutdown of the pool. The threads are the main
  thread and one thread per spawned worker. One step of a thread is what it does between two
  points where it blocks or releases the mutex others wait for; a worker that handles an update
  holds its mutex all the time, from the wake-up to the next wait. Waits have timeouts, so a
  missed notification only delays a step and does not change what can happen.

  The block of \<open>updateNewMessage\<close> that hands updates to the pool is under \<open>#if 0\<close> in this
  revision; \<open>dispatch_update\<close> and \<open>dispatch_spawn\<close> model that block, so that the pool is
  examined under the load it was written for.
\<close>

subsection \<open>A worker\<close>

text \<open>
  \<open>thread_\<close>: the thread waits for an event (with its count of timeouts), handles an update, or
  has returned. A null \<open>thread_\<close> is \<open>None\<close>.
\<close>

datatype wthread = Waiting nat | Handling nat | Finished

record worker =
  wk_main :: bool
  wk_idx :: nat
  wk_primary :: bool
  wk_sync :: bool
  wk_update :: "message option"
  wk_thread :: "wthread option"
  wk_online :: bool
  wk_has_update :: bool
  wk_stop :: bool

definition worker_new :: worker where
  "worker_new = \<lparr>wk_main = False, wk_idx = 2 ^ 32 - 1, wk_primary = False, wk_sync = False,
     wk_update = None, wk_thread = None, wk_online = False, wk_has_update = False, wk_stop = True\<rparr>"

definition worker_construct :: "nat \<Rightarrow> bool \<Rightarrow> worker \<Rightarrow> worker" where
  "worker_construct idx primary w =
     w\<lparr>wk_main := True, wk_idx := idx, wk_primary := primary, wk_sync := True\<rparr>"

definition worker_send_update :: "message \<Rightarrow> worker \<Rightarrow> ub + worker" where
  "worker_send_update m w =
     (if \<not> wk_sync w then Inl AssertFailed
      else if wk_has_update w then Inl AssertFailed
      else Inr (w\<lparr>wk_update := Some m, wk_has_update := True\<rparr>))"

text \<open>
  The thread \<open>doSpawn\<close> starts clears \<open>stopEventLoop_\<close> and sets \<open>isOnline_\<close>; \<open>doSpawn\<close>
  returns when it sees the latter.
\<close>

definition worker_do_spawn :: "worker \<Rightarrow> ub + worker" where
  "worker_do_spawn w =
     (if wk_online w then Inl AssertFailed
      else Inr (w\<lparr>wk_thread := Some (Waiting 0), wk_stop := False, wk_online := True\<rparr>))"

definition worker_spawn :: "worker \<Rightarrow> ub + worker" where
  "worker_spawn w =
     (if \<not> wk_sync w then Inl AssertFailed
      else if wk_online w then Inr w
      else if wk_thread w \<noteq> None then
        (if \<not> wk_stop w then Inl AssertFailed else worker_do_spawn (w\<lparr>wk_thread := None\<rparr>))
      else worker_do_spawn w)"

text \<open>The end of \<open>runWorker\<close> and of the thread.\<close>

definition worker_exit :: "worker \<Rightarrow> ub + worker" where
  "worker_exit w =
     (if wk_has_update w then Inl AssertFailed
      else if \<not> wk_stop w then Inl AssertFailed
      else Inr (w\<lparr>wk_online := False, wk_thread := Some Finished\<rparr>))"

text \<open>\<open>waitForEvent\<close> returns true: the loops look at the stop flag first.\<close>

definition worker_wake :: "nat \<Rightarrow> worker \<Rightarrow> ub + worker" where
  "worker_wake n w =
     (if wk_stop w then worker_exit w
      else if \<not> wk_has_update w then Inl AssertFailed
      else Inr (w\<lparr>wk_thread := Some (Handling n)\<rparr>))"

text \<open>\<open>waitForEvent\<close> returns false after its ten seconds. Only extra workers count.\<close>

definition max_timeout_count :: nat where "max_timeout_count = 20"

definition worker_timeout :: "nat \<Rightarrow> worker \<Rightarrow> ub + worker" where
  "worker_timeout n w =
     (if wk_primary w then Inr w
      else if n + 1 < max_timeout_count then Inr (w\<lparr>wk_thread := Some (Waiting (n + 1))\<rparr>)
      else worker_exit (w\<lparr>wk_stop := True\<rparr>))"

text \<open>The first half of \<open>close\<close>, up to the join, and what is left after the join.\<close>

definition worker_stop :: "worker \<Rightarrow> worker" where
  "worker_stop w = w\<lparr>wk_stop := True\<rparr>"

definition worker_destroyed :: "worker \<Rightarrow> worker" where
  "worker_destroyed w = w\<lparr>wk_thread := None, wk_main := False, wk_sync := False\<rparr>"

subsection \<open>The pool\<close>

text \<open>
  Where the main thread is: in \<open>run\<close>, inside \<open>updateNewMessage\<close> after handing an update over, in
  the destructor of the array with that many workers left, joining a worker, waiting for the
  references, done.
\<close>

datatype main_at = PRun | PSpawn nat | PDelete nat | PJoin nat | PWaitRefs | PDone

record pool =
  workers :: "worker list"
  p_stack :: "nat list"
  x_stack :: "nat list"
  hc :: nat
  max_workers :: nat
  has_module :: bool
  stop_update :: bool
  my_ref :: int
  jobs :: "(string \<times> nat) list"
  main_at :: main_at
  trap :: "ub option"

definition put_primary_worker :: "nat \<Rightarrow> pool \<Rightarrow> ub + pool" where
  "put_primary_worker i s =
     (let w = workers s ! i in
      if wk_has_update w then Inl AssertFailed
      else if \<not> length (p_stack s) \<le> hc s then Inl AssertFailed
      else if \<not> wk_idx w < hc s then Inl AssertFailed
      else Inr (s\<lparr>p_stack := wk_idx w # p_stack s\<rparr>))"

definition put_extra_worker :: "nat \<Rightarrow> pool \<Rightarrow> ub + pool" where
  "put_extra_worker i s =
     (let w = workers s ! i in
      if wk_has_update w then Inl AssertFailed
      else if \<not> length (x_stack s) \<le> max_workers s - hc s then Inl AssertFailed
      else if \<not> hc s \<le> wk_idx w then Inl AssertFailed
      else Inr (s\<lparr>x_stack := wk_idx w # x_stack s\<rparr>))"

definition get_primary_worker :: "pool \<Rightarrow> nat option \<times> pool" where
  "get_primary_worker s =
     (case p_stack s of [] \<Rightarrow> (None, s) | i # is \<Rightarrow> (Some i, s\<lparr>p_stack := is\<rparr>))"

definition get_extra_worker :: "pool \<Rightarrow> nat option \<times> pool" where
  "get_extra_worker s =
     (case x_stack s of [] \<Rightarrow> (None, s) | i # is \<Rightarrow> (Some i, s\<lparr>x_stack := is\<rparr>))"

definition set_worker :: "nat \<Rightarrow> worker \<Rightarrow> pool \<Rightarrow> pool" where
  "set_worker i w s = s\<lparr>workers := (workers s)[i := w]\<rparr>"

text \<open>\<open>spawnThreads\<close>: the three loops, then the two assertions.\<close>

definition construct_one :: "nat \<Rightarrow> nat \<Rightarrow> pool \<Rightarrow> ub + pool" where
  "construct_one h i s =
     (let w = worker_construct i (i < h) (workers s ! i) in
      ebind (if i < h then worker_spawn w else Inr w) (\<lambda>w. Inr (set_worker i w s)))"

definition put_one :: "nat \<Rightarrow> nat \<Rightarrow> pool \<Rightarrow> ub + pool" where
  "put_one h i s =
     (if wk_idx (workers s ! i) \<noteq> i then Inl AssertFailed
      else if i < h then put_primary_worker i s
      else put_extra_worker i s)"

fun each :: "(nat \<Rightarrow> pool \<Rightarrow> ub + pool) \<Rightarrow> nat list \<Rightarrow> pool \<Rightarrow> ub + pool" where
  "each f [] s = Inr s"
| "each f (i # is) s = ebind (f i s) (each f is)"

definition spawn_threads :: "32 word \<Rightarrow> pool \<Rightarrow> ub + pool" where
  "spawn_threads hardware_concurrency s =
     (let h = (if hardware_concurrency = 0 then 2 else hardware_concurrency);
          n = unat (h * 100);
          h = unat h
      in ebind (each (construct_one h) [0..<n]
                 (s\<lparr>max_workers := n, hc := h, workers := replicate n worker_new\<rparr>)) (\<lambda>s.
         ebind (each (put_one h) (rev [0..<h]) s) (\<lambda>s.
         ebind (each (put_one h) (rev [h..<n]) s) (\<lambda>s.
           if length (p_stack s) = h \<and> length (x_stack s) = n - h then Inr s
           else Inl AssertFailed))))"

text \<open>The pool inside a \<open>Main\<close> whose constructor has loaded the module.\<close>

definition pool_empty :: pool where
  "pool_empty = \<lparr>workers = [], p_stack = [], x_stack = [], hc = 0, max_workers = 0, has_module = True,
     stop_update = False, my_ref = 0, jobs = [], main_at = PRun, trap = None\<rparr>"

text \<open>
  The disabled block of \<open>updateNewMessage\<close>: up to the unlock in \<open>sendUpdate\<close>, and the rest. A
  worker whose mutex is held cannot be sent an update; \<open>next_worker\<close> is the one it would be.
\<close>

definition next_worker :: "pool \<Rightarrow> nat option \<times> pool" where
  "next_worker s =
     (case get_primary_worker s of
        (Some i, s) \<Rightarrow> (Some i, s)
      | (None, s) \<Rightarrow> get_extra_worker s)"

definition dispatch_update :: "message \<Rightarrow> pool \<Rightarrow> ub + pool" where
  "dispatch_update m s =
     (if stop_update s then Inr s
      else case next_worker s of
             (None, s) \<Rightarrow> Inr s
           | (Some i, s) \<Rightarrow>
               ebind (worker_send_update m (workers s ! i)) (\<lambda>w.
                 Inr ((set_worker i w s)\<lparr>main_at := PSpawn i\<rparr>)))"

definition dispatch_spawn :: "nat \<Rightarrow> pool \<Rightarrow> ub + pool" where
  "dispatch_spawn i s =
     (let w = workers s ! i in
      ebind (if wk_online w then Inr w else worker_spawn w) (\<lambda>w.
        Inr ((set_worker i w s)\<lparr>main_at := PRun\<rparr>)))"

text \<open>\<open>handleUpdate\<close>, the return to the stack, and the loop's next look at the stop flag.\<close>

definition handle_update :: "nat \<Rightarrow> pool \<Rightarrow> ub + pool" where
  "handle_update i s =
     (let w = workers s ! i in
      if \<not> has_module s then Inl AssertFailed
      else
        ebind (case wk_update w of
                 None \<Rightarrow> Inl NullDeref
               | Some m \<Rightarrow> dispatch_enumerate (stop_update s) m (my_ref s)) (\<lambda>(n, js).
          Inr ((set_worker i (w\<lparr>wk_has_update := False\<rparr>) s)
                 \<lparr>my_ref := n, jobs := jobs s @ js\<rparr>)))"

definition put_worker :: "nat \<Rightarrow> pool \<Rightarrow> ub + pool" where
  "put_worker i s =
     (if wk_primary (workers s ! i) then put_primary_worker i s else put_extra_worker i s)"

definition next_wait :: "nat \<Rightarrow> nat \<Rightarrow> pool \<Rightarrow> ub + pool" where
  "next_wait i n s =
     (let w = workers s ! i in
      ebind (if wk_stop w then worker_exit w
             else Inr (w\<lparr>wk_thread := Some (Waiting (if wk_primary w then n else 0))\<rparr>))
        (\<lambda>w. Inr (set_worker i w s)))"

definition worker_handled :: "nat \<Rightarrow> nat \<Rightarrow> pool \<Rightarrow> ub + pool" where
  "worker_handled i n s =
     ebind (handle_update i s) (\<lambda>s. ebind (put_worker i s) (next_wait i n))"

text \<open>A step of a worker's thread on its own record.\<close>

definition worker_does :: "nat \<Rightarrow> (worker \<Rightarrow> ub + worker) \<Rightarrow> pool \<Rightarrow> ub + pool" where
  "worker_does i f s = ebind (f (workers s ! i)) (\<lambda>w. Inr (set_worker i w s))"

text \<open>
  \<open>Main::~Main\<close>: \<open>delete[]\<close> destroys the workers from the last to the first; \<open>close\<close> stops a
  worker that has a thread and joins it.
\<close>

definition delete_worker :: "nat \<Rightarrow> pool \<Rightarrow> pool" where
  "delete_worker i s =
     (let w = workers s ! i in
      if \<not> wk_main w then s\<lparr>main_at := PDelete i\<rparr>
      else if wk_thread w \<noteq> None then (set_worker i (worker_stop w) s)\<lparr>main_at := PJoin i\<rparr>
      else (set_worker i (worker_destroyed w) s)\<lparr>main_at := PDelete i\<rparr>)"

definition joined :: "nat \<Rightarrow> pool \<Rightarrow> pool" where
  "joined i s = (set_worker i (worker_destroyed (workers s ! i)) s)\<lparr>main_at := PDelete i\<rparr>"

text \<open>
  \<open>waitForPreloadedModulesToBeUnloaded\<close> asserts the flag; then the module goes
  (\<open>toggleGlobalModule(0)\<close>).
\<close>

definition wait_refs :: "pool \<Rightarrow> ub + pool" where
  "wait_refs s =
     (if \<not> stop_update s then Inl AssertFailed
      else if 0 < my_ref s then Inr s
      else Inr (s\<lparr>has_module := False, main_at := PDone\<rparr>))"

definition settle :: "pool \<Rightarrow> ub + pool \<Rightarrow> pool" where
  "settle s r = (case r of Inl e \<Rightarrow> s\<lparr>trap := Some e\<rparr> | Inr t \<Rightarrow> t)"

text \<open>The worker whose mutex the main thread would have to take is not busy.\<close>

definition can_send :: "pool \<Rightarrow> bool" where
  "can_send s = (case fst (next_worker s) of
     None \<Rightarrow> True
   | Some i \<Rightarrow> (case wk_thread (workers s ! i) of Some (Handling _) \<Rightarrow> False | _ \<Rightarrow> True))"

inductive pstep :: "pool \<Rightarrow> pool \<Rightarrow> bool" where
  update: "trap s = None \<Longrightarrow> main_at s = PRun \<Longrightarrow> can_send s \<Longrightarrow>
    pstep s (settle s (dispatch_update m s))"
| spawn: "trap s = None \<Longrightarrow> main_at s = PSpawn i \<Longrightarrow> pstep s (settle s (dispatch_spawn i s))"
| interrupt: "trap s = None \<Longrightarrow> main_at s = PRun \<Longrightarrow>
    pstep s (s\<lparr>stop_update := True, main_at := PDelete (max_workers s)\<rparr>)"
| delete: "trap s = None \<Longrightarrow> main_at s = PDelete (Suc i) \<Longrightarrow> pstep s (delete_worker i s)"
| join: "trap s = None \<Longrightarrow> main_at s = PJoin i \<Longrightarrow> wk_thread (workers s ! i) = Some Finished \<Longrightarrow>
    pstep s (joined i s)"
| all_joined: "trap s = None \<Longrightarrow> main_at s = PDelete 0 \<Longrightarrow> pstep s (s\<lparr>main_at := PWaitRefs\<rparr>)"
| refs: "trap s = None \<Longrightarrow> main_at s = PWaitRefs \<Longrightarrow> pstep s (settle s (wait_refs s))"
| wake: "trap s = None \<Longrightarrow> i < length (workers s) \<Longrightarrow> wk_thread (workers s ! i) = Some (Waiting n) \<Longrightarrow>
    wk_has_update (workers s ! i) \<or> wk_stop (workers s ! i) \<Longrightarrow>
    pstep s (settle s (worker_does i (worker_wake n) s))"
| timeout: "trap s = None \<Longrightarrow> i < length (workers s) \<Longrightarrow>
    wk_thread (workers s ! i) = Some (Waiting n) \<Longrightarrow>
    \<not> (wk_has_update (workers s ! i) \<or> wk_stop (workers s ! i)) \<Longrightarrow>
    pstep s (settle s (worker_does i (worker_timeout n) s))"
| handled: "trap s = None \<Longrightarrow> i < length (workers s) \<Longrightarrow>
    wk_thread (workers s ! i) = Some (Handling n) \<Longrightarrow>
    pstep s (settle s (worker_handled i n s))"
| job: "trap s = None \<Longrightarrow> jobs s = j # js \<Longrightarrow>
    pstep s (s\<lparr>jobs := js, my_ref := snd (do_shell_exec j (my_ref s))\<rparr>)"

inductive_cases pstep_elim: "pstep s t"

abbreviation preaches :: "pool \<Rightarrow> pool \<Rightarrow> bool" where
  "preaches \<equiv> rtranclp pstep"


subsection \<open>The stacks\<close>

text \<open>
  What the two stacks have in common: \<open>get\<close> hands out what was put last, and \<open>put\<close> accepts any
  worker that is idle and belongs to the stack, as long as the stack is not too high.
\<close>

locale idle_stack =
  fixes get :: "pool \<Rightarrow> nat option \<times> pool"
    and put :: "nat \<Rightarrow> pool \<Rightarrow> ub + pool"
    and idle :: "pool \<Rightarrow> nat list"
    and accepts :: "nat \<Rightarrow> pool \<Rightarrow> bool"
  assumes get_empty: "idle s = [] \<Longrightarrow> get s = (None, s)"
    and get_top: "idle s = i # is \<Longrightarrow>
      \<exists>t. get s = (Some i, t) \<and> idle t = is \<and> workers t = workers s"
    and put_top: "accepts i s \<Longrightarrow>
      \<exists>t. put i s = Inr t \<and> idle t = i # idle s \<and> workers t = workers s"
begin

lemma get_Some:
  assumes "get s = (Some i, t)"
  shows "idle s = i # idle t" and "workers t = workers s"
  using assms get_empty [of s] get_top [of s] by (cases "idle s"; fastforce)+

lemma get_removes:
  assumes "get s = (Some i, t)" and "distinct (idle s)"
  shows "i \<in> set (idle s)" and "i \<notin> set (idle t)" and "distinct (idle t)"
    and "set (idle t) = set (idle s) - {i}"
  using get_Some [OF assms(1)] assms(2) by auto

lemma get_after_put:
  assumes "accepts i s" and "put i s = Inr t"
  shows "\<exists>u. get t = (Some i, u) \<and> idle u = idle s \<and> workers u = workers s"
  using put_top [OF assms(1)] get_top [of t i "idle s"] assms(2) by auto

end

definition p_accepts :: "nat \<Rightarrow> pool \<Rightarrow> bool" where
  "p_accepts i s \<longleftrightarrow> \<not> wk_has_update (workers s ! i) \<and> length (p_stack s) \<le> hc s \<and>
     wk_idx (workers s ! i) = i \<and> i < hc s"

definition x_accepts :: "nat \<Rightarrow> pool \<Rightarrow> bool" where
  "x_accepts i s \<longleftrightarrow> \<not> wk_has_update (workers s ! i) \<and>
     length (x_stack s) \<le> max_workers s - hc s \<and> wk_idx (workers s ! i) = i \<and> hc s \<le> i"

interpretation primary: idle_stack get_primary_worker put_primary_worker p_stack p_accepts
  by unfold_locales (auto simp: get_primary_worker_def put_primary_worker_def p_accepts_def Let_def)

interpretation extra: idle_stack get_extra_worker put_extra_worker x_stack x_accepts
  by unfold_locales (auto simp: get_extra_worker_def put_extra_worker_def x_accepts_def Let_def)

subsection \<open>The invariant while the program runs\<close>

text \<open>A worker while the pool is in use.\<close>

definition thread_ok :: "worker \<Rightarrow> bool" where
  "thread_ok w \<longleftrightarrow>
     (case wk_thread w of
        Some (Waiting n) \<Rightarrow> wk_online w \<and> \<not> wk_stop w
      | Some (Handling n) \<Rightarrow> wk_online w \<and> \<not> wk_stop w \<and> wk_has_update w
      | _ \<Rightarrow> \<not> wk_online w \<and> wk_stop w \<and> \<not> wk_primary w)"

definition worker_ok :: "nat \<Rightarrow> nat \<Rightarrow> worker \<Rightarrow> bool" where
  "worker_ok h i w \<longleftrightarrow> wk_main w \<and> wk_sync w \<and> wk_idx w = i \<and> wk_primary w = (i < h) \<and>
     (wk_has_update w \<longrightarrow> wk_update w \<noteq> None) \<and> thread_ok w"

definition idle :: "pool \<Rightarrow> nat set" where
  "idle s = set (p_stack s) \<union> set (x_stack s)"

definition stacks_ok :: "pool \<Rightarrow> bool" where
  "stacks_ok s \<longleftrightarrow> hc s \<le> max_workers s \<and> distinct (p_stack s) \<and> distinct (x_stack s) \<and>
     set (p_stack s) \<subseteq> {..<hc s} \<and> set (x_stack s) \<subseteq> {hc s..<max_workers s}"

definition pool_ok :: "pool \<Rightarrow> bool" where
  "pool_ok s \<longleftrightarrow> length (workers s) = max_workers s \<and> has_module s \<and> stacks_ok s \<and>
     (\<forall>i < max_workers s. worker_ok (hc s) i (workers s ! i) \<and>
        (wk_has_update (workers s ! i) \<longleftrightarrow> i \<notin> idle s))"

text \<open>Every worker with an update has a thread, except the one about to be spawned.\<close>

definition served :: "nat set \<Rightarrow> pool \<Rightarrow> bool" where
  "served X s \<longleftrightarrow> (\<forall>i < max_workers s. wk_has_update (workers s ! i) \<longrightarrow> i \<notin> X \<longrightarrow>
     wk_online (workers s ! i))"

definition in_use :: "pool \<Rightarrow> bool" where
  "in_use s \<longleftrightarrow> main_at s = PRun \<or> (\<exists>i. main_at s = PSpawn i)"

definition running :: "pool \<Rightarrow> bool" where
  "running s \<longleftrightarrow> pool_ok s \<and> trap s = None \<and> \<not> stop_update s \<and>
     (main_at s = PRun \<and> served {} s \<or>
      (\<exists>i < max_workers s. main_at s = PSpawn i \<and> served {i} s))"

lemmas pool_defs = pool_ok_def stacks_ok_def idle_def served_def

lemma set_worker_simps [simp]:
  "workers (set_worker i w s) = (workers s)[i := w]"
  "p_stack (set_worker i w s) = p_stack s" "x_stack (set_worker i w s) = x_stack s"
  "hc (set_worker i w s) = hc s" "max_workers (set_worker i w s) = max_workers s"
  "has_module (set_worker i w s) = has_module s" "stop_update (set_worker i w s) = stop_update s"
  "my_ref (set_worker i w s) = my_ref s" "jobs (set_worker i w s) = jobs s"
  "main_at (set_worker i w s) = main_at s" "trap (set_worker i w s) = trap s"
  by (simp_all add: set_worker_def)

text \<open>Replacing one worker, its membership in the stacks unchanged.\<close>

lemma pool_ok_set:
  assumes "pool_ok s" and "i < max_workers s"
    and "worker_ok (hc s) i w" and "wk_has_update w = wk_has_update (workers s ! i)"
  shows "pool_ok (set_worker i w s)"
  using assms by (auto simp: pool_ok_def stacks_ok_def idle_def nth_list_update)

lemma served_set:
  assumes "served X s" and "wk_has_update w \<Longrightarrow> i \<notin> X \<Longrightarrow> wk_online w"
    and "length (workers s) = max_workers s" and "i < max_workers s"
  shows "served X (set_worker i w s)"
  using assms by (auto simp: served_def nth_list_update)

text \<open>A worker's own step keeps the invariant.\<close>

lemma running_worker:
  assumes "running s" and "i < max_workers s" and "f (workers s ! i) = Inr w"
    and "worker_ok (hc s) i w" and "wk_has_update w = wk_has_update (workers s ! i)"
    and "wk_has_update w \<Longrightarrow> wk_online w"
  shows "running (settle s (worker_does i f s))"
proof -
  have l: "length (workers s) = max_workers s" using assms(1) by (simp add: running_def pool_ok_def)
  have "worker_does i f s = Inr (set_worker i w s)" using assms(3) by (simp add: worker_does_def)
  moreover have "pool_ok (set_worker i w s)"
    using assms(1,2,4,5) by (intro pool_ok_set) (auto simp: running_def)
  moreover have "served X s \<Longrightarrow> served X (set_worker i w s)" for X
    using assms(2,6) l by (intro served_set) auto
  ultimately show ?thesis using assms(1) by (auto simp: running_def settle_def)
qed

lemma running_ok:
  assumes "running s" and "i < max_workers s"
  shows "worker_ok (hc s) i (workers s ! i)" and "length (workers s) = max_workers s"
  using assms by (auto simp: running_def pool_ok_def)

lemma running_wake:
  assumes "running s" and "i < max_workers s" and "wk_thread (workers s ! i) = Some (Waiting n)"
    and "wk_has_update (workers s ! i) \<or> wk_stop (workers s ! i)"
  shows "running (settle s (worker_does i (worker_wake n) s))"
proof -
  let ?w = "workers s ! i"
  have ok: "worker_ok (hc s) i ?w" by (rule running_ok [OF assms(1,2)])
  then have c: "\<not> wk_stop ?w" "wk_has_update ?w" "wk_online ?w"
    using assms(3,4) by (auto simp: worker_ok_def thread_ok_def)
  then have f: "worker_wake n ?w = Inr (?w\<lparr>wk_thread := Some (Handling n)\<rparr>)"
    by (simp add: worker_wake_def)
  show ?thesis
    by (rule running_worker [where f = "worker_wake n", OF assms(1,2) f])
      (use ok c in \<open>auto simp: worker_ok_def thread_ok_def\<close>)
qed

lemma running_timeout:
  assumes "running s" and "i < max_workers s" and "wk_thread (workers s ! i) = Some (Waiting n)"
    and "\<not> (wk_has_update (workers s ! i) \<or> wk_stop (workers s ! i))"
  shows "running (settle s (worker_does i (worker_timeout n) s))"
proof -
  let ?w = "workers s ! i"
  have ok: "worker_ok (hc s) i ?w" by (rule running_ok [OF assms(1,2)])
  have "\<exists>w. worker_timeout n ?w = Inr w \<and> worker_ok (hc s) i w \<and>
      wk_has_update w = wk_has_update ?w"
    using ok assms(3,4)
    by (cases "wk_primary ?w") (auto simp: worker_timeout_def worker_exit_def worker_ok_def thread_ok_def)
  then obtain w where w: "worker_timeout n ?w = Inr w" "worker_ok (hc s) i w"
    "wk_has_update w = wk_has_update ?w" by blast
  show ?thesis
    by (rule running_worker [where f = "worker_timeout n", OF assms(1,2) w])
      (use assms(4) w(3) in simp)
qed


subsection \<open>Handing an update over\<close>

lemma next_worker_None: "next_worker s = (None, t) \<Longrightarrow> t = s"
  by (auto simp: next_worker_def get_primary_worker_def get_extra_worker_def split: list.splits)

lemma next_worker_frame:
  "next_worker s = (r, t) \<Longrightarrow>
     workers t = workers s \<and> hc t = hc s \<and> max_workers t = max_workers s \<and>
     has_module t = has_module s \<and> stop_update t = stop_update s \<and> trap t = trap s"
  by (auto simp: next_worker_def get_primary_worker_def get_extra_worker_def split: list.splits)

lemma next_worker_pops:
  assumes "next_worker s = (Some i, t)" and "stacks_ok s"
  shows "i \<in> idle s" and "i < max_workers s" and "stacks_ok t" and "idle t = idle s - {i}"
proof -
  note f = next_worker_frame [OF assms(1)]
  have st: "distinct (p_stack s)" "distinct (x_stack s)" "hc s \<le> max_workers s"
    "\<forall>j \<in> set (p_stack s). j < hc s" "\<forall>j \<in> set (x_stack s). hc s \<le> j \<and> j < max_workers s"
    using assms(2) by (auto simp: stacks_ok_def)
  consider (p) "get_primary_worker s = (Some i, t)" "x_stack t = x_stack s"
    | (x) "get_extra_worker s = (Some i, t)" "p_stack t = p_stack s"
    using assms(1)
    by (auto simp: next_worker_def get_primary_worker_def get_extra_worker_def split: list.splits)
  then have "i \<in> idle s \<and> i < max_workers s \<and> stacks_ok t \<and> idle t = idle s - {i}"
  proof cases
    case p
    note g = primary.get_removes [OF p(1) st(1)]
    have "i \<notin> set (x_stack s)" "i < max_workers s" using g(1) st(3-5) by force+
    with g p(2) assms(2) f show ?thesis by (simp add: stacks_ok_def idle_def) blast
  next
    case x
    note g = extra.get_removes [OF x(1) st(2)]
    have "i \<notin> set (p_stack s)" "i < max_workers s" using g(1) st(4,5) by force+
    with g x(2) assms(2) f show ?thesis by (simp add: stacks_ok_def idle_def) blast
  qed
  then show "i \<in> idle s" "i < max_workers s" "stacks_ok t" "idle t = idle s - {i}" by auto
qed

text \<open>The worker that is handed an update changes its place: it leaves the stack.\<close>

lemma pool_ok_move:
  assumes "pool_ok s" and "i < max_workers s" and "worker_ok (hc s) i w"
    and "workers t = (workers s)[i := w]" and "hc t = hc s" and "max_workers t = max_workers s"
    and "has_module t" and "stacks_ok t" and "wk_has_update w \<longleftrightarrow> i \<notin> idle t"
    and "idle t - {i} = idle s - {i}"
  shows "pool_ok t"
proof -
  have "j \<in> idle t \<longleftrightarrow> j \<in> idle s" if "j \<noteq> i" for j using assms(10) that by blast
  then show ?thesis using assms by (auto simp: pool_ok_def nth_list_update)
qed

lemma send_update_ok:
  assumes "worker_ok h i w" and "\<not> wk_has_update w" and "thread_ok w"
  obtains v where "worker_send_update m w = Inr v" "worker_ok h i v" "wk_has_update v"
proof -
  have "worker_send_update m w = Inr (w\<lparr>wk_update := Some m, wk_has_update := True\<rparr>)"
    using assms by (simp add: worker_send_update_def worker_ok_def)
  moreover have "worker_ok h i (w\<lparr>wk_update := Some m, wk_has_update := True\<rparr>)"
    using assms(1)
    by (auto simp: worker_ok_def thread_ok_def split: option.splits wthread.splits)
  ultimately show thesis using that by simp
qed

lemma running_dispatch:
  assumes "running s" and "main_at s = PRun"
  shows "running (settle s (dispatch_update m s))"
proof (cases "next_worker s")
  case (Pair r t)
  have run: "pool_ok s" "trap s = None" "\<not> stop_update s" "served {} s"
    using assms by (auto simp: running_def)
  show ?thesis
  proof (cases r)
    case None
    then show ?thesis using assms Pair next_worker_None [of s t]
      by (simp add: dispatch_update_def settle_def)
  next
    case (Some i)
    with Pair have nw: "next_worker s = (Some i, t)" by simp
    note f = next_worker_frame [OF nw]
    have "stacks_ok s" using run(1) by (simp add: pool_ok_def)
    note pop = next_worker_pops [OF nw this]
    let ?w = "workers s ! i"
    have ok: "worker_ok (hc s) i ?w" "\<not> wk_has_update ?w" "thread_ok ?w"
      "length (workers s) = max_workers s"
      using run(1) pop(1,2) by (auto simp: pool_ok_def worker_ok_def)
    obtain v where v: "worker_send_update m ?w = Inr v" "worker_ok (hc s) i v" "wk_has_update v"
      using send_update_ok [OF ok(1-3)] by blast
    let ?u = "(set_worker i v t)\<lparr>main_at := PSpawn i\<rparr>"
    have u: "dispatch_update m s = Inr ?u"
      using run(3) nw f v(1) by (simp add: dispatch_update_def)
    have s: "stacks_ok ?u" "idle ?u = idle s - {i}"
      using pop(3,4) by (simp_all add: stacks_ok_def idle_def)
    have "pool_ok ?u"
      by (rule pool_ok_move [OF run(1) pop(2) v(2)])
        (use f v(3) s run(1) in \<open>auto simp: pool_ok_def\<close>)
    moreover have "served {i} ?u"
      using run(4) f ok(4) by (auto simp: served_def nth_list_update)
    ultimately show ?thesis
      using u run f pop(2) by (simp add: running_def settle_def)
  qed
qed

lemma spawn_ok:
  assumes "worker_ok h i w" and "\<not> wk_online w"
  obtains v where "worker_spawn w = Inr v" "worker_ok h i v" "wk_online v"
    "wk_has_update v = wk_has_update w"
proof -
  have t: "wk_thread w = None \<or> wk_thread w = Some Finished" "wk_stop w" "wk_sync w"
    using assms by (auto simp: worker_ok_def thread_ok_def split: option.splits wthread.splits)
  let ?v = "w\<lparr>wk_thread := Some (Waiting 0), wk_stop := False, wk_online := True\<rparr>"
  have "worker_spawn w = Inr ?v"
    using assms(2) t by (auto simp: worker_spawn_def worker_do_spawn_def)
  moreover have "worker_ok h i ?v" using assms(1) by (simp add: worker_ok_def thread_ok_def)
  ultimately show thesis using that by simp
qed

lemma running_spawn:
  assumes "running s" and "main_at s = PSpawn i"
  shows "running (settle s (dispatch_spawn i s))"
proof -
  have run: "pool_ok s" "trap s = None" "\<not> stop_update s" "served {i} s" "i < max_workers s"
    using assms by (auto simp: running_def)
  let ?w = "workers s ! i"
  have ok: "worker_ok (hc s) i ?w" "length (workers s) = max_workers s"
    using run(1,5) by (auto simp: pool_ok_def)
  obtain v where v: "(if wk_online ?w then Inr ?w else worker_spawn ?w) = Inr v"
    "worker_ok (hc s) i v" "wk_online v" "wk_has_update v = wk_has_update ?w"
  proof (cases "wk_online ?w")
    case True then show thesis using that [of ?w] ok(1) by simp
  next
    case False
    then obtain v where "worker_spawn ?w = Inr v" "worker_ok (hc s) i v" "wk_online v"
      "wk_has_update v = wk_has_update ?w" using spawn_ok [OF ok(1)] by blast
    with False show thesis using that [of v] by simp
  qed
  let ?u = "(set_worker i v s)\<lparr>main_at := PRun\<rparr>"
  have u: "dispatch_spawn i s = Inr ?u" using v(1) by (simp add: dispatch_spawn_def Let_def)
  have "pool_ok (set_worker i v s)" by (rule pool_ok_set [OF run(1,5) v(2,4)])
  then have "pool_ok ?u" by (simp add: pool_ok_def stacks_ok_def idle_def)
  moreover have "served {} ?u"
    using run(4,5) v(3) ok(2) by (auto simp: served_def nth_list_update)
  ultimately show ?thesis using u run by (simp add: running_def settle_def)
qed


subsection \<open>Handling an update and going back to the stack\<close>

lemma height_ok:
  assumes "distinct xs" and "set xs \<subseteq> {a..<b}" and "i \<in> {a..<b}" and "i \<notin> set xs"
  shows "length xs < b - a"
proof -
  have "card (insert i (set xs)) \<le> card {a..<b}"
    using assms by (intro card_mono) auto
  then show ?thesis using assms(1,4) distinct_card [of xs] by simp
qed

text \<open>Putting back a worker that is not in its stack, on a state that keeps stacks and indices.\<close>

definition put_back :: "nat \<Rightarrow> bool \<Rightarrow> pool \<Rightarrow> pool" where
  "put_back i primary s =
     (if primary then s\<lparr>p_stack := i # p_stack s\<rparr> else s\<lparr>x_stack := i # x_stack s\<rparr>)"

lemma put_back_frame [simp]:
  "workers (put_back i b s) = workers s" "hc (put_back i b s) = hc s"
  "max_workers (put_back i b s) = max_workers s" "has_module (put_back i b s) = has_module s"
  "stop_update (put_back i b s) = stop_update s" "trap (put_back i b s) = trap s"
  "main_at (put_back i b s) = main_at s"
  by (simp_all add: put_back_def)

lemma put_works:
  assumes "stacks_ok s" and "i < max_workers s" and "i \<notin> idle s"
    and "\<not> wk_has_update (workers s ! i)" and "wk_idx (workers s ! i) = i"
  shows "(if i < hc s then put_primary_worker i s else put_extra_worker i s) =
      Inr (put_back i (i < hc s) s)"
    and "stacks_ok (put_back i (i < hc s) s)" and "idle (put_back i (i < hc s) s) = insert i (idle s)"
proof -
  have p: "length (p_stack s) \<le> hc s" if "i < hc s"
    using height_ok [of "p_stack s" 0 "hc s" i] assms(1,3) that
    by (fastforce simp: stacks_ok_def idle_def)
  have x: "length (x_stack s) \<le> max_workers s - hc s" if "\<not> i < hc s"
    using height_ok [of "x_stack s" "hc s" "max_workers s" i] assms(1-3) that
    by (fastforce simp: stacks_ok_def idle_def)
  show "(if i < hc s then put_primary_worker i s else put_extra_worker i s) =
      Inr (put_back i (i < hc s) s)"
    using p x assms(4,5) by (simp add: put_primary_worker_def put_extra_worker_def put_back_def)
  show "stacks_ok (put_back i (i < hc s) s)" "idle (put_back i (i < hc s) s) = insert i (idle s)"
    using assms(1-3) by (auto simp: stacks_ok_def idle_def put_back_def)
qed

lemma running_handled:
  assumes "running s" and "i < max_workers s" and "wk_thread (workers s ! i) = Some (Handling n)"
  shows "running (settle s (worker_handled i n s))"
proof -
  let ?w = "workers s ! i"
  have run: "pool_ok s" "trap s = None" "\<not> stop_update s" using assms(1) by (simp_all add: running_def)
  have ok: "worker_ok (hc s) i ?w" "length (workers s) = max_workers s" "has_module s" "stacks_ok s"
    "wk_has_update ?w \<longleftrightarrow> i \<notin> idle s"
    using run(1) assms(2) by (auto simp: pool_ok_def)
  have c: "wk_online ?w" "\<not> wk_stop ?w" "wk_has_update ?w" "wk_primary ?w = (i < hc s)" "wk_idx ?w = i"
    using ok(1) assms(3) by (auto simp: worker_ok_def thread_ok_def)
  obtain m where m: "wk_update ?w = Some m" using ok(1) c(3) by (auto simp: worker_ok_def)
  obtain r js where d: "dispatch_enumerate False m (my_ref s) = Inr (r, js)"
    using dispatch_enumerate_running by blast
  let ?v = "?w\<lparr>wk_has_update := False\<rparr>"
  let ?a = "(set_worker i ?v s)\<lparr>my_ref := r, jobs := jobs s @ js\<rparr>"
  have a: "handle_update i s = Inr ?a"
    using ok(3) m d run(3) by (simp add: handle_update_def Let_def)
  have a_ok: "stacks_ok ?a" "idle ?a = idle s" "i < max_workers ?a" "hc ?a = hc s"
    using ok(4) assms(2) by (simp_all add: stacks_ok_def idle_def)
  have va: "workers ?a ! i = ?v" using assms(2) ok(2) by simp
  have pv: "wk_primary ?v = (i < hc s)" "wk_stop ?v = False" using c by simp_all
  note put = put_works [OF a_ok(1,3), unfolded a_ok(2,4) va]
  let ?b = "put_back i (i < hc s) ?a"
  have "(if i < hc s then put_primary_worker i ?a else put_extra_worker i ?a) = Inr ?b"
    and b: "stacks_ok ?b" "idle ?b = insert i (idle s)"
    using put ok(5) c(3,5) by simp_all
  then have p: "put_worker i ?a = Inr ?b"
    by (simp only: put_worker_def va pv)
  let ?x = "?v\<lparr>wk_thread := Some (Waiting (if i < hc s then n else 0))\<rparr>"
  have vb: "workers ?b ! i = ?v" using va by simp
  have "next_wait i n ?b = Inr (set_worker i ?x ?b)"
    by (simp only: next_wait_def Let_def vb pv if_False ebind.simps)
  then have res: "worker_handled i n s = Inr (set_worker i ?x ?b)"
    by (simp only: worker_handled_def a ebind.simps p)
  have x_ok: "worker_ok (hc s) i ?x"
    using ok(1) c by (simp add: worker_ok_def thread_ok_def)
  let ?u = "set_worker i ?x ?b"
  have st: "stacks_ok ?u" "idle ?u = insert i (idle s)"
    using b by (simp_all add: stacks_ok_def idle_def)
  have "pool_ok ?u"
    by (rule pool_ok_move [OF run(1) assms(2) x_ok]) (use st ok in auto)
  moreover have "served X s \<Longrightarrow> served X ?u" for X
    using ok(2) assms(2) by (auto simp: served_def nth_list_update)
  ultimately show ?thesis
    using assms(1) run by (auto simp: res settle_def running_def)
qed

subsection \<open>Every step\<close>

lemma running_in_use: "running s \<Longrightarrow> in_use s"
  by (auto simp: running_def in_use_def)

lemma delete_main_at: "\<not> in_use (delete_worker i s)" "\<not> in_use (joined i s)"
  by (auto simp: in_use_def delete_worker_def joined_def Let_def)

lemma handle_update_main_at: "handle_update i s = Inr t \<Longrightarrow> main_at t = main_at s"
  by (auto simp: handle_update_def Let_def res_simps split: if_splits option.splits)

lemma put_main_at:
  "put_primary_worker i s = Inr t \<Longrightarrow> main_at t = main_at s"
  "put_extra_worker i s = Inr t \<Longrightarrow> main_at t = main_at s"
  by (auto simp: put_primary_worker_def put_extra_worker_def Let_def split: if_splits)

lemma worker_handled_main_at:
  "worker_handled i n s = Inr t \<Longrightarrow> main_at t = main_at s"
  by (auto simp: worker_handled_def put_worker_def next_wait_def Let_def res_simps split: if_splits
      dest!: handle_update_main_at put_main_at)

lemma settle_main_at:
  "(\<And>t. r = Inr t \<Longrightarrow> main_at t = main_at s) \<Longrightarrow> main_at (settle s r) = main_at s"
  by (cases r) (auto simp: settle_def)

lemma worker_does_main_at: "main_at (settle s (worker_does i f s)) = main_at s"
  by (rule settle_main_at) (auto simp: worker_does_def res_simps)

lemma running_job:
  assumes "running s"
  shows "running (s\<lparr>jobs := js, my_ref := r\<rparr>)"
  using assms by (auto simp: running_def pool_ok_def stacks_ok_def idle_def served_def)

text \<open>While the program runs the invariant holds; once the shutdown has begun, it stays begun.\<close>

definition orderly :: "pool \<Rightarrow> bool" where
  "orderly s \<longleftrightarrow> (in_use s \<longrightarrow> running s)"

lemma orderly_same_place:
  "orderly s \<Longrightarrow> main_at t = main_at s \<Longrightarrow> (running s \<Longrightarrow> running t) \<Longrightarrow> orderly t"
  by (simp add: orderly_def in_use_def)

lemma orderly_step:
  assumes "pstep s t" and "orderly s"
  shows "orderly t"
  using assms(1)
proof (cases rule: pstep.cases)
  case (update m)
  then show ?thesis using assms(2) running_dispatch by (auto simp: orderly_def in_use_def)
next
  case (spawn i)
  then show ?thesis using assms(2) running_spawn by (auto simp: orderly_def in_use_def)
next
  case (wake i n)
  show ?thesis unfolding wake(1)
    by (rule orderly_same_place [OF assms(2) worker_does_main_at])
      (use wake running_wake [of s i n] in \<open>auto simp: running_def pool_ok_def\<close>)
next
  case (timeout i n)
  show ?thesis unfolding timeout(1)
    by (rule orderly_same_place [OF assms(2) worker_does_main_at])
      (use timeout running_timeout [of s i n] in \<open>auto simp: running_def pool_ok_def\<close>)
next
  case (handled i n)
  show ?thesis unfolding handled(1)
    by (rule orderly_same_place [OF assms(2) settle_main_at [OF worker_handled_main_at]])
      (use handled running_handled [of s i n] in \<open>auto simp: running_def pool_ok_def\<close>)
next
  case (job j js)
  then show ?thesis using assms(2) running_job by (auto simp: orderly_def in_use_def)
qed (use assms(2) delete_main_at in \<open>auto simp: orderly_def in_use_def settle_def wait_refs_def\<close>)

lemma orderly_reaches: "preaches s t \<Longrightarrow> orderly s \<Longrightarrow> orderly t"
  by (induction rule: rtranclp_induct) (auto intro: orderly_step)


subsection \<open>The pool spawned by the constructor\<close>

lemma each_append: "each f (is @ js) s = ebind (each f is s) (each f js)"
  by (induction "is" arbitrary: s) (auto simp: ebind_assoc intro: ebind_cong)

definition built :: "nat \<Rightarrow> nat \<Rightarrow> worker" where
  "built h i = (let w = worker_construct i (i < h) worker_new in
     if i < h then w\<lparr>wk_thread := Some (Waiting 0), wk_stop := False, wk_online := True\<rparr> else w)"

lemma built_ok [simp]: "worker_ok h i (built h i)" "\<not> wk_has_update (built h i)" "wk_idx (built h i) = i"
  by (simp_all add: built_def worker_construct_def worker_new_def worker_ok_def thread_ok_def Let_def)

lemma construct_all:
  assumes "workers s = replicate n worker_new" and "k \<le> n"
  shows "each (construct_one h) [0..<k] s =
    Inr (s\<lparr>workers := map (built h) [0..<k] @ replicate (n - k) worker_new\<rparr>)"
  using assms(2)
proof (induction k)
  case 0
  then show ?case by (simp add: assms(1)[symmetric])
next
  case (Suc k)
  let ?ws = "map (built h) [0..<k] @ replicate (n - k) worker_new"
  let ?s = "s\<lparr>workers := ?ws\<rparr>"
  have r: "replicate (n - k) worker_new = worker_new # replicate (n - Suc k) worker_new"
    using Suc.prems by (metis Suc_diff_Suc Suc_le_lessD replicate_Suc)
  have w: "?ws ! k = worker_new" using r by (simp add: nth_append)
  have "construct_one h k ?s = Inr (set_worker k (built h k) ?s)"
    using w by (simp add: construct_one_def Let_def built_def worker_construct_def worker_new_def
        worker_spawn_def worker_do_spawn_def)
  moreover have "?ws[k := built h k] = map (built h) [0..<Suc k] @ replicate (n - Suc k) worker_new"
    using r by (simp add: list_update_append)
  ultimately show ?case
    using Suc by (simp add: each_append set_worker_def)
qed

lemma put_all_primary:
  assumes "\<forall>i \<in> set is. i < h \<and> wk_idx (workers s ! i) = i \<and> \<not> wk_has_update (workers s ! i)"
    and "hc s = h" and "length is + length (p_stack s) \<le> h"
  shows "each (put_one h) is s = Inr (s\<lparr>p_stack := rev is @ p_stack s\<rparr>)"
  using assms
proof (induction "is" arbitrary: s)
  case (Cons i "is")
  then have "put_one h i s = Inr (s\<lparr>p_stack := i # p_stack s\<rparr>)"
    by (simp add: put_one_def put_primary_worker_def)
  moreover have "each (put_one h) is (s\<lparr>p_stack := i # p_stack s\<rparr>) =
      Inr (s\<lparr>p_stack := rev is @ i # p_stack s\<rparr>)"
    using Cons.IH [of "s\<lparr>p_stack := i # p_stack s\<rparr>"] Cons.prems by simp
  ultimately show ?case by simp
qed simp

lemma put_all_extra:
  assumes "\<forall>i \<in> set is. h \<le> i \<and> wk_idx (workers s ! i) = i \<and> \<not> wk_has_update (workers s ! i)"
    and "hc s = h" and "length is + length (x_stack s) \<le> max_workers s - h"
  shows "each (put_one h) is s = Inr (s\<lparr>x_stack := rev is @ x_stack s\<rparr>)"
  using assms
proof (induction "is" arbitrary: s)
  case (Cons i "is")
  then have "put_one h i s = Inr (s\<lparr>x_stack := i # x_stack s\<rparr>)"
    by (simp add: put_one_def put_extra_worker_def)
  moreover have "each (put_one h) is (s\<lparr>x_stack := i # x_stack s\<rparr>) =
      Inr (s\<lparr>x_stack := rev is @ i # x_stack s\<rparr>)"
    using Cons.IH [of "s\<lparr>x_stack := i # x_stack s\<rparr>"] Cons.prems by simp
  ultimately show ?case by simp
qed simp

definition pool_start :: "nat \<Rightarrow> pool" where
  "pool_start h = pool_empty\<lparr>workers := map (built h) [0..<h * 100], max_workers := h * 100, hc := h,
     p_stack := [0..<h], x_stack := [h..<h * 100]\<rparr>"

definition cores :: "32 word \<Rightarrow> nat" where
  "cores c = (if c = 0 then 2 else unat c)"

lemma spawn_threads_eq:
  assumes "cores c * 100 < 2 ^ 32"
  shows "spawn_threads c pool_empty = Inr (pool_start (cores c))"
proof -
  let ?h = "cores c" and ?n = "cores c * 100"
  have h: "unat (if c = 0 then 2 else c) = ?h" by (simp add: cores_def)
  have n: "unat ((if c = 0 then 2 else c) * 100) = ?n"
    using assms h by (simp add: unat_word_ariths)
  define s where "s = pool_empty\<lparr>max_workers := ?n, hc := ?h, workers := map (built ?h) [0..<?n]\<rparr>"
  define u where "u = s\<lparr>p_stack := [0..<?h]\<rparr>"
  have 1: "each (construct_one ?h) [0..<?n]
      (pool_empty\<lparr>max_workers := ?n, hc := ?h, workers := replicate ?n worker_new\<rparr>) = Inr s"
    by (subst construct_all [of _ ?n]) (simp_all add: s_def)
  have 2: "each (put_one ?h) (rev [0..<?h]) s = Inr u"
    by (subst put_all_primary) (auto simp: s_def u_def pool_empty_def)
  have 3: "each (put_one ?h) (rev [?h..<?n]) u = Inr (pool_start ?h)"
    by (subst put_all_extra) (auto simp: s_def u_def pool_empty_def pool_start_def)
  show ?thesis
    by (simp only: spawn_threads_def Let_def h n 1 2 3 ebind.simps)
      (simp add: pool_start_def)
qed

lemma running_start: "running (pool_start h)"
proof -
  have "pool_ok (pool_start h)"
    by (auto simp: pool_ok_def stacks_ok_def idle_def pool_start_def pool_empty_def)
  then show ?thesis
    by (auto simp: running_def served_def pool_start_def pool_empty_def)
qed

subsection \<open>Properties\<close>

lemma online_thread:
  "worker_ok h i w \<Longrightarrow> wk_online w \<Longrightarrow>
     \<exists>n. wk_thread w = Some (Waiting n) \<or> wk_thread w = Some (Handling n)"
  by (auto simp: worker_ok_def thread_ok_def split: option.splits wthread.splits)

text \<open>
  C7: Whatever the order in which updates arrive, threads run and waits time out, no assertion of
  the pool fails and no thread traps until the shutdown begins. At every moment each worker
  is either on exactly one of the two stacks or busy with one update, and between two updates
  every busy worker has a running thread, so no update handed over is lost.
\<close>

theorem pool_never_asserts:
  assumes "cores c * 100 < 2 ^ 32"
  shows "\<exists>s. spawn_threads c pool_empty = Inr s \<and>
    (\<forall>t. preaches s t \<longrightarrow> in_use t \<longrightarrow>
       trap t = None \<and> distinct (p_stack t @ x_stack t) \<and>
       (\<forall>i < max_workers t. let w = workers t ! i in
          (i \<in> set (p_stack t @ x_stack t) \<longleftrightarrow> \<not> wk_has_update w) \<and>
          (main_at t = PRun \<longrightarrow> wk_has_update w \<longrightarrow>
             (\<exists>n. wk_thread w = Some (Waiting n) \<or> wk_thread w = Some (Handling n)))))"
proof (intro exI [of _ "pool_start (cores c)"] conjI allI impI)
  show "spawn_threads c pool_empty = Inr (pool_start (cores c))" by (rule spawn_threads_eq [OF assms])
  fix t assume "preaches (pool_start (cores c)) t" "in_use t"
  then have r: "running t"
    using orderly_reaches [of "pool_start (cores c)" t] running_start by (auto simp: orderly_def)
  show "trap t = None" using r by (simp add: running_def)
  show "distinct (p_stack t @ x_stack t)"
    using r by (fastforce simp: running_def pool_ok_def stacks_ok_def)
  fix i assume i: "i < max_workers t"
  have "wk_online (workers t ! i)" if "main_at t = PRun" "wk_has_update (workers t ! i)"
    using r i that by (auto simp: running_def served_def)
  with r i show "let w = workers t ! i in
      (i \<in> set (p_stack t @ x_stack t) \<longleftrightarrow> \<not> wk_has_update w) \<and>
      (main_at t = PRun \<longrightarrow> wk_has_update w \<longrightarrow>
         (\<exists>n. wk_thread w = Some (Waiting n) \<or> wk_thread w = Some (Handling n)))"
    using online_thread [OF running_ok(1) [OF r i]]
    by (auto simp: running_def pool_ok_def idle_def Let_def)
qed

theorem pool_never_asserts_witness:
  "\<exists>s. spawn_threads 1 pool_empty = Inr s \<and>
    (\<forall>t. preaches s t \<longrightarrow> in_use t \<longrightarrow>
       trap t = None \<and> distinct (p_stack t @ x_stack t) \<and>
       (\<forall>i < max_workers t. let w = workers t ! i in
          (i \<in> set (p_stack t @ x_stack t) \<longleftrightarrow> \<not> wk_has_update w) \<and>
          (main_at t = PRun \<longrightarrow> wk_has_update w \<longrightarrow>
             (\<exists>n. wk_thread w = Some (Waiting n) \<or> wk_thread w = Some (Handling n)))))"
  by (rule pool_never_asserts) (simp add: cores_def)


text \<open>
  What a worker closed with an update pending looks like from the outside: every step leaves it
  as it is.
\<close>

definition doomed :: "nat \<Rightarrow> nat \<Rightarrow> pool \<Rightarrow> bool" where
  "doomed i n s \<longleftrightarrow> main_at s = PJoin i \<and> i < length (workers s) \<and>
     wk_thread (workers s ! i) = Some (Waiting n) \<and> wk_has_update (workers s ! i) \<and>
     wk_stop (workers s ! i)"

text \<open>Threads touch nothing but their own worker.\<close>

definition touches_only :: "nat \<Rightarrow> pool \<Rightarrow> pool \<Rightarrow> bool" where
  "touches_only j s t \<longleftrightarrow> main_at t = main_at s \<and> length (workers t) = length (workers s) \<and>
     (\<forall>i. i \<noteq> j \<longrightarrow> workers t ! i = workers s ! i)"

lemma touches_only_refl [simp]: "touches_only j s s"
  by (simp add: touches_only_def)

lemma touches_only_trans: "touches_only j s t \<Longrightarrow> touches_only j t u \<Longrightarrow> touches_only j s u"
  by (simp add: touches_only_def)

lemma settle_touches: "(\<And>t. r = Inr t \<Longrightarrow> touches_only j s t) \<Longrightarrow> touches_only j s (settle s r)"
  by (cases r) (auto simp: settle_def touches_only_def)

lemma worker_does_touches: "touches_only j s (settle s (worker_does j f s))"
  by (rule settle_touches) (auto simp: worker_does_def touches_only_def res_simps)

lemma handle_update_touches: "handle_update j s = Inr t \<Longrightarrow> touches_only j s t"
  by (auto simp: handle_update_def touches_only_def Let_def res_simps split: if_splits option.splits)

lemma put_worker_touches: "put_worker j s = Inr t \<Longrightarrow> touches_only j s t"
  by (auto simp: put_worker_def put_primary_worker_def put_extra_worker_def touches_only_def Let_def
      split: if_splits)

lemma next_wait_touches: "next_wait j n s = Inr t \<Longrightarrow> touches_only j s t"
  by (auto simp: next_wait_def touches_only_def Let_def res_simps)

lemma worker_handled_touches: "touches_only j s (settle s (worker_handled j n s))"
  by (rule settle_touches)
    (auto simp: worker_handled_def res_simps dest!: handle_update_touches put_worker_touches
      next_wait_touches intro: touches_only_trans)

lemma doomed_touches: "doomed i n s \<Longrightarrow> touches_only j s t \<Longrightarrow> i \<noteq> j \<Longrightarrow> doomed i n t"
  by (simp add: doomed_def touches_only_def)

lemma doomed_wake: "doomed i n s \<Longrightarrow> worker_does i (worker_wake m) s = Inl AssertFailed"
  by (simp add: doomed_def worker_does_def worker_wake_def worker_exit_def)

lemma doomed_step:
  assumes "pstep s t" and "doomed i n s"
  shows "doomed i n t"
  using assms(1)
proof (cases rule: pstep.cases)
  case (wake j m)
  show ?thesis
  proof (cases "j = i")
    case True
    then show ?thesis
      using wake(1) assms(2) doomed_wake [OF assms(2)] by (simp add: settle_def doomed_def)
  next
    case False
    then show ?thesis unfolding wake(1)
      using doomed_touches [OF assms(2) worker_does_touches] by simp
  qed
next
  case (timeout j m)
  then have "i \<noteq> j" using assms(2) by (auto simp: doomed_def)
  then show ?thesis unfolding timeout(1)
    using doomed_touches [OF assms(2) worker_does_touches] by simp
next
  case (handled j m)
  then have "i \<noteq> j" using assms(2) by (auto simp: doomed_def)
  then show ?thesis unfolding handled(1)
    using doomed_touches [OF assms(2) worker_handled_touches] by simp
qed (use assms(2) in \<open>auto simp: doomed_def\<close>)

lemma doomed_reaches: "preaches s t \<Longrightarrow> doomed i n s \<Longrightarrow> doomed i n t"
  by (induction rule: rtranclp_induct) (auto intro: doomed_step)

text \<open>
  C33: A worker that is closed while an update handed to it is still pending never ends well: its
  thread sees the stop flag first and leaves its loop with the update unhandled, which
  \<open>runWorker\<close> asserts not to happen. The destructor never gets past the join, and the abort
  can happen.
\<close>

theorem close_with_pending_update_aborts:
  assumes "main_at s = PJoin i" and "i < length (workers s)" and "trap s = None"
    and "wk_thread (workers s ! i) = Some (Waiting n)"
    and "wk_has_update (workers s ! i)" and "wk_stop (workers s ! i)"
  shows "(\<forall>t. preaches s t \<longrightarrow> main_at t = PJoin i) \<and>
    (\<exists>t. preaches s t \<and> trap t = Some AssertFailed)"
proof -
  have d: "doomed i n s" using assms by (simp add: doomed_def)
  have "pstep s (settle s (worker_does i (worker_wake n) s))"
    by (rule pstep.wake) (use assms in simp_all)
  moreover have "trap (settle s (worker_does i (worker_wake n) s)) = Some AssertFailed"
    by (simp add: doomed_wake [OF d] settle_def)
  ultimately show ?thesis
    using doomed_reaches [OF _ d] by (auto simp: doomed_def)
qed

text \<open>The state is reached with one core, one update and a signal before the update is taken.\<close>

lemma delete_idle:
  assumes "trap s = None" and "main_at s = PDelete (Suc k)"
    and "\<forall>j. 0 < j \<longrightarrow> j < Suc k \<longrightarrow> j < length (workers s) \<and>
      wk_main (workers s ! j) \<and> wk_thread (workers s ! j) = None"
  shows "\<exists>t. preaches s t \<and> trap t = None \<and> main_at t = PDelete 1 \<and> workers t ! 0 = workers s ! 0 \<and>
    length (workers t) = length (workers s)"
  using assms
proof (induction k arbitrary: s)
  case 0
  then show ?case by auto
next
  case (Suc k)
  let ?u = "delete_worker (Suc k) s"
  have u: "?u = (set_worker (Suc k) (worker_destroyed (workers s ! Suc k)) s)\<lparr>main_at := PDelete (Suc k)\<rparr>"
    using Suc.prems by (simp add: delete_worker_def Let_def)
  have "pstep s ?u" by (rule pstep.delete) (use Suc.prems in simp_all)
  moreover have "\<exists>t. preaches ?u t \<and> trap t = None \<and> main_at t = PDelete 1 \<and>
      workers t ! 0 = workers ?u ! 0 \<and> length (workers t) = length (workers ?u)"
    by (rule Suc.IH) (use Suc.prems in \<open>auto simp: u nth_list_update\<close>)
  ultimately show ?case
    by (auto simp: u intro: converse_rtranclp_into_rtranclp)
qed

definition some_message :: message where
  "some_message = \<lparr>m_id = 1, m_sender = SenderUser 1, m_chat_id = 1, m_date = 0, m_edit_date = 0,
     m_forward_info = None, m_reply_in_chat_id = 0, m_reply_to_message_id = 0, m_content = None\<rparr>"

theorem close_with_pending_update_aborts_witness:
  "\<exists>s. preaches (pool_start 1) s \<and> (\<forall>t. preaches s t \<longrightarrow> main_at t = PJoin 0) \<and>
     (\<exists>t. preaches s t \<and> trap t = Some AssertFailed)"
proof -
  let ?w = "(built 1 0)\<lparr>wk_update := Some some_message, wk_has_update := True\<rparr>"
  let ?a = "(set_worker 0 ?w ((pool_start 1)\<lparr>p_stack := []\<rparr>))\<lparr>main_at := PSpawn 0\<rparr>"
  let ?b = "?a\<lparr>main_at := PRun\<rparr>"
  let ?c = "?b\<lparr>stop_update := True, main_at := PDelete (Suc 99)\<rparr>"
  have 1: "pstep (pool_start 1) ?a"
    using pstep.update [of "pool_start 1" some_message]
    by (simp add: dispatch_update_def next_worker_def get_primary_worker_def pool_start_def
        pool_empty_def can_send_def worker_send_update_def built_def worker_construct_def
        worker_new_def settle_def)
  have 2: "pstep ?a ?b"
    using pstep.spawn [of ?a 0]
    by (simp add: dispatch_spawn_def pool_start_def pool_empty_def settle_def built_def
        worker_construct_def worker_new_def set_worker_def Let_def)
  have 3: "pstep ?b ?c"
    using pstep.interrupt [of ?b] by (simp add: pool_start_def pool_empty_def)
  have w: "j < length (workers ?c) \<and> wk_main (workers ?c ! j) \<and> wk_thread (workers ?c ! j) = None"
    if "0 < j" "j < Suc 99" for j
    using that by (simp add: pool_start_def pool_empty_def nth_list_update built_def
        worker_construct_def worker_new_def Let_def)
  obtain d where d: "preaches ?c d" "trap d = None" "main_at d = PDelete 1"
    "workers d ! 0 = workers ?c ! 0" "length (workers d) = length (workers ?c)"
    using delete_idle [of ?c 99] w by (auto simp: pool_start_def pool_empty_def)
  let ?e = "delete_worker 0 d"
  have dw: "workers d ! 0 = ?w" "0 < length (workers d)"
    using d(4,5) by (simp_all add: pool_start_def pool_empty_def)
  have 4: "pstep d ?e" by (rule pstep.delete) (use d in simp_all)
  have e: "?e = (set_worker 0 (worker_stop ?w) d)\<lparr>main_at := PJoin 0\<rparr>"
    using dw by (simp add: delete_worker_def Let_def built_def worker_construct_def worker_new_def)
  have "(\<forall>t. preaches ?e t \<longrightarrow> main_at t = PJoin 0) \<and> (\<exists>t. preaches ?e t \<and> trap t = Some AssertFailed)"
    by (rule close_with_pending_update_aborts [of _ _ 0])
      (use dw d(2) in \<open>simp_all add: e worker_stop_def built_def worker_construct_def worker_new_def Let_def\<close>)
  moreover have "preaches (pool_start 1) ?e"
    using 1 2 3 4 d(1) by (meson converse_rtranclp_into_rtranclp rtranclp.rtrancl_into_rtrancl rtranclp_trans)
  ultimately show ?thesis by blast
qed

end
