(* ===== verification/HistoryDb.thy ===== *)
theory HistoryDb
  imports CLib "HOL-Library.Multiset"
begin

section \<open>The database of the history scraper\<close>

text \<open>
  The statements \<open>Modules/Preload/HistoryScraper.cpp\<close> (under \<open>old.old/src.old2/tgvisd\<close>) sends to
  MySQL, and what it relies on. The server is a parameter: a function that answers a statement
  with its bound values by an error message or by rows. \<open>conn\<close> is what one connection sees: the
  tables, what a rollback of the open transaction restores, and \<open>LAST_INSERT_ID()\<close>.

  \<open>sql_ok\<close> is the documented effect of each statement when it succeeds, over the tables of
  \<open>old.old/database.sql\<close> with the column \<open>is_deleted\<close> and the table \<open>gw_group_message_forward\<close>
  the statements name but that file does not create. The locale \<open>history_db\<close> is the contract the
  scraper is verified against; at the end it is interpreted on an executable server with those
  tables, which can also be given the schema as shipped.
\<close>

subsection \<open>Statements and values\<close>

datatype query =
    QStart | QRollback | QCommit
  | QTrackEvent | QLastInsertId
  | QInsertUser | QSelectUser
  | QInsertGroup | QSelectGroup
  | QInsertForward
  | QSetEdited | QSetDeleted
  | QSelectMessage | QInsertMessage
  | QInsertDataText | QInsertDataFile
  | QInsertFile

text \<open>The text given to \<open>prepare\<close>.\<close>

fun sql_text :: "query \<Rightarrow> string" where
  "sql_text QStart = ''START TRANSACTION''"
| "sql_text QRollback = ''ROLLBACK''"
| "sql_text QCommit = ''COMMIT''"
| "sql_text QTrackEvent = ''INSERT INTO track_event_id VALUES (?)''"
| "sql_text QLastInsertId = ''SELECT LAST_INSERT_ID();''"
| "sql_text QInsertUser =
     ''INSERT INTO `gw_users` (`tg_user_id`,`username`,`first_name`,`last_name`,`is_bot`,`created_at`,`updated_at`) VALUES (?, ?, ?, ?, '0', ?, NULL);''"
| "sql_text QSelectUser = ''SELECT id FROM gw_users WHERE tg_user_id = ?''"
| "sql_text QInsertGroup =
     ''INSERT INTO `gw_groups` (`tg_group_id`,`username`,`name`,`link`,`created_at`,`updated_at`) VALUES (?, ?, ?, NULL, ?, NULL);''"
| "sql_text QSelectGroup = ''SELECT id FROM gw_groups WHERE tg_group_id = ?''"
| "sql_text QInsertForward =
     ''INSERT INTO `gw_group_message_forward` (`msg_id`,`origin_type`,`orig_date`,`pas_at`,`orig_id`,`origin_text`,`from_chat_id`,`from_msg_id`) VALUES (?, ?, ?, ?, ?, ?, ?, ?);''"
| "sql_text QSetEdited =
     ''UPDATE gw_group_messages SET has_edited_msg = '1', updated_at = ? WHERE id = ? AND group_id = ? LIMIT 1''"
| "sql_text QSetDeleted =
     ''UPDATE gw_group_messages SET is_deleted = '1' updated_at = ? WHERE id = ? AND group_id = ? LIMIT 1''"
| "sql_text QSelectMessage =
     ''SELECT a.id, a.has_edited_msg FROM gw_group_messages AS a INNER JOIN gw_groups AS b ON b.id = a.group_id WHERE a.tg_msg_id = ? AND b.tg_group_id = ?''"
| "sql_text QInsertMessage =
     ''INSERT INTO `gw_group_messages`(`group_id`,`user_id`,`tg_msg_id`,`reply_to_tg_msg_id`,`msg_type`,`has_edited_msg`,`is_forwarded_msg`,`is_deleted`,`created_at`,`updated_at`) VALUES (?, ?, ?, ?, ?, '0', ?, ?, ?, NULL);''"
| "sql_text QInsertDataText =
     ''INSERT INTO `gw_group_message_data`(`msg_id`,`text`,`text_entities`,`file`,`is_edited`,`tg_date`,`created_at`) VALUES (?, ?, ?, NULL, ?, ?, ?);''"
| "sql_text QInsertDataFile =
     ''INSERT INTO `gw_group_message_data`(`msg_id`,`text`,`text_entities`,`file`,`is_edited`,`tg_date`,`created_at`) VALUES (?, ?, ?, ?, ?, ?, ?);''"
| "sql_text QInsertFile =
     ''INSERT INTO `gw_files` (`tg_file_id`,`tg_uniq_id`,`md5_sum`,`sha1_sum`,`ext`,`size`,`created_at`) VALUES (?, ?, ?, ?, ?, ?, ?)''"

text \<open>Bound values (\<open>PARAM_UINT\<close> and so on) and the cells of a result row.\<close>

datatype param = PUint "64 word" | PSint "64 word" | PString string | PBytes string | PNull

datatype cell = CUint "64 word" | CBytes string | CNull

subsection \<open>The tables\<close>

record msg_row =
  mr_group :: "64 word"
  mr_user :: "64 word"
  mr_tg_msg_id :: "64 word"
  mr_edited :: string
  mr_rest :: "param list"

text \<open>
  Rows are kept by their keys: users and groups by the unique Telegram identifier, with the
  row's own identifier, the other tables by their identifier.
\<close>

record tables =
  gw_users :: "(64 word \<times> 64 word \<times> param list) list"
  gw_groups :: "(64 word \<times> 64 word \<times> param list) list"
  gw_tracked :: "64 word list"
  gw_messages :: "(64 word \<times> msg_row) list"
  gw_data :: "(64 word \<times> param list) list"
  gw_forwards :: "(64 word \<times> param list) list"
  gw_files :: "(64 word \<times> param list) list"

record conn =
  cn_tables :: tables
  cn_saved :: "tables option"
  cn_last_id :: "64 word"

definition user_row :: "64 word \<Rightarrow> tables \<Rightarrow> 64 word option" where
  "user_row t g = map_option fst (map_of (gw_users g) t)"

definition group_row :: "64 word \<Rightarrow> tables \<Rightarrow> 64 word option" where
  "group_row t g = map_option fst (map_of (gw_groups g) t)"

definition ids_of :: "('k \<times> 64 word \<times> 'r) list \<Rightarrow> 64 word set" where
  "ids_of rs = (fst \<circ> snd) ` set rs"

text \<open>The join of \<open>QSelectMessage\<close>.\<close>

definition message_rows :: "64 word \<Rightarrow> 64 word \<Rightarrow> tables \<Rightarrow> cell list list" where
  "message_rows tg_msg_id tg_group_id g =
     map (\<lambda>(i, r). [CUint i, CBytes (mr_edited r)])
       (filter (\<lambda>(i, r). mr_tg_msg_id r = tg_msg_id \<and> Some (mr_group r) = group_row tg_group_id g)
          (gw_messages g))"

definition set_edited :: "64 word \<Rightarrow> 64 word \<Rightarrow> tables \<Rightarrow> tables" where
  "set_edited k gid g = g\<lparr>gw_messages :=
     map (\<lambda>(i, r). (i, if i = k \<and> mr_group r = gid then r\<lparr>mr_edited := ''1''\<rparr> else r)) (gw_messages g)\<rparr>"

definition row_ids :: "64 word option \<Rightarrow> cell list list" where
  "row_ids r = (case r of None \<Rightarrow> [] | Some k \<Rightarrow> [[CUint k]])"

text \<open>A statement that inserts one row with a generated identifier.\<close>

definition inserted :: "64 word \<Rightarrow> (tables \<Rightarrow> tables) \<Rightarrow> conn \<Rightarrow> conn" where
  "inserted k f c = c\<lparr>cn_tables := f (cn_tables c), cn_last_id := k\<rparr>"

inductive sql_ok :: "query \<Rightarrow> param list \<Rightarrow> conn \<Rightarrow> cell list list \<Rightarrow> conn \<Rightarrow> bool" where
  start: "sql_ok QStart [] c [] (c\<lparr>cn_saved := Some (cn_tables c)\<rparr>)"
| rollback: "sql_ok QRollback [] c []
    (case cn_saved c of None \<Rightarrow> c | Some g \<Rightarrow> c\<lparr>cn_tables := g, cn_saved := None\<rparr>)"
| commit: "sql_ok QCommit [] c [] (c\<lparr>cn_saved := None\<rparr>)"
| track: "i \<notin> set (gw_tracked (cn_tables c)) \<Longrightarrow>
    sql_ok QTrackEvent [PUint i] c []
      (c\<lparr>cn_tables := (cn_tables c)\<lparr>gw_tracked := i # gw_tracked (cn_tables c)\<rparr>\<rparr>)"
| last_id: "sql_ok QLastInsertId [] c [[CUint (cn_last_id c)]] c"
| insert_user: "user_row t (cn_tables c) = None \<Longrightarrow> k \<noteq> 0 \<Longrightarrow> k \<notin> ids_of (gw_users (cn_tables c)) \<Longrightarrow>
    sql_ok QInsertUser (PUint t # ps) c []
      (inserted k (\<lambda>g. g\<lparr>gw_users := (t, k, ps) # gw_users g\<rparr>) c)"
| select_user: "sql_ok QSelectUser [PSint t] c
    (if sint t < 0 then [] else row_ids (user_row t (cn_tables c))) c"
| insert_group: "group_row t (cn_tables c) = None \<Longrightarrow> k \<noteq> 0 \<Longrightarrow>
    k \<notin> ids_of (gw_groups (cn_tables c)) \<Longrightarrow>
    sql_ok QInsertGroup (PSint t # ps) c []
      (inserted k (\<lambda>g. g\<lparr>gw_groups := (t, k, ps) # gw_groups g\<rparr>) c)"
| select_group: "sql_ok QSelectGroup [PSint t] c (row_ids (group_row t (cn_tables c))) c"
| insert_message: "gid \<in> ids_of (gw_groups (cn_tables c)) \<Longrightarrow> uid \<in> ids_of (gw_users (cn_tables c)) \<Longrightarrow>
    k \<noteq> 0 \<Longrightarrow> k \<notin> fst ` set (gw_messages (cn_tables c)) \<Longrightarrow>
    sql_ok QInsertMessage (PUint gid # PUint uid # PUint tg # ps) c []
      (inserted k (\<lambda>g. g\<lparr>gw_messages :=
         (k, \<lparr>mr_group = gid, mr_user = uid, mr_tg_msg_id = tg, mr_edited = ''0'', mr_rest = ps\<rparr>)
           # gw_messages g\<rparr>) c)"
| select_message: "mset rows = mset (message_rows tg chat (cn_tables c)) \<Longrightarrow>
    sql_ok QSelectMessage [PUint tg, PSint chat] c rows c"
| set_edited: "sql_ok QSetEdited [PString d, PUint k, PSint gid] c []
    (c\<lparr>cn_tables := set_edited k gid (cn_tables c)\<rparr>)"
| insert_text: "msg \<in> fst ` set (gw_messages (cn_tables c)) \<Longrightarrow>
    k \<noteq> 0 \<Longrightarrow> k \<notin> fst ` set (gw_data (cn_tables c)) \<Longrightarrow>
    sql_ok QInsertDataText (PUint msg # ps) c []
      (inserted k (\<lambda>g. g\<lparr>gw_data := (k, PUint msg # ps) # gw_data g\<rparr>) c)"
| insert_data: "msg \<in> fst ` set (gw_messages (cn_tables c)) \<Longrightarrow>
    file \<in> fst ` set (gw_files (cn_tables c)) \<Longrightarrow>
    k \<noteq> 0 \<Longrightarrow> k \<notin> fst ` set (gw_data (cn_tables c)) \<Longrightarrow>
    sql_ok QInsertDataFile (PUint msg # text # ents # PUint file # ps) c []
      (inserted k (\<lambda>g. g\<lparr>gw_data := (k, PUint msg # text # ents # PUint file # ps) # gw_data g\<rparr>) c)"
| insert_forward: "k \<noteq> 0 \<Longrightarrow> k \<notin> fst ` set (gw_forwards (cn_tables c)) \<Longrightarrow>
    sql_ok QInsertForward ps c [] (inserted k (\<lambda>g. g\<lparr>gw_forwards := (k, ps) # gw_forwards g\<rparr>) c)"
| insert_file: "k \<noteq> 0 \<Longrightarrow> k \<notin> fst ` set (gw_files (cn_tables c)) \<Longrightarrow>
    sql_ok QInsertFile ps c [] (inserted k (\<lambda>g. g\<lparr>gw_files := (k, ps) # gw_files g\<rparr>) c)"

text \<open>There is no rule for \<open>QSetDeleted\<close>: its text is not a statement of SQL.\<close>

inductive_cases sql_ok_elims:
  "sql_ok QStart ps c rows c'" "sql_ok QRollback ps c rows c'" "sql_ok QCommit ps c rows c'"
  "sql_ok QTrackEvent ps c rows c'" "sql_ok QLastInsertId ps c rows c'"
  "sql_ok QInsertUser ps c rows c'" "sql_ok QSelectUser ps c rows c'"
  "sql_ok QInsertGroup ps c rows c'" "sql_ok QSelectGroup ps c rows c'"
  "sql_ok QSelectMessage ps c rows c'" "sql_ok QInsertMessage ps c rows c'"
  "sql_ok QSetEdited ps c rows c'" "sql_ok QSetDeleted ps c rows c'"
  "sql_ok QInsertDataText ps c rows c'" "sql_ok QInsertDataFile ps c rows c'"
  "sql_ok QInsertForward ps c rows c'" "sql_ok QInsertFile ps c rows c'"

inductive_simps sql_ok_simps:
  "sql_ok QStart [] c rows c'" "sql_ok QRollback [] c rows c'" "sql_ok QCommit [] c rows c'"
  "sql_ok QTrackEvent [PUint i] c rows c'" "sql_ok QLastInsertId [] c rows c'"
  "sql_ok QInsertUser (PUint t # ps) c rows c'" "sql_ok QSelectUser [PSint t] c rows c'"
  "sql_ok QInsertGroup (PSint t # ps) c rows c'" "sql_ok QSelectGroup [PSint t] c rows c'"
  "sql_ok QSelectMessage [PUint tg, PSint chat] c rows c'"
  "sql_ok QInsertMessage (PUint g # PUint u # PUint tg # ps) c rows c'"
  "sql_ok QSetEdited [PString d, PUint k, PSint g] c rows c'" "sql_ok QSetDeleted ps c rows c'"
  "sql_ok QInsertDataText (PUint m # ps) c rows c'"
  "sql_ok QInsertDataFile (PUint m # t # e # PUint f # ps) c rows c'"
  "sql_ok QInsertForward ps c rows c'" "sql_ok QInsertFile ps c rows c'"

subsection \<open>The contract\<close>

type_synonym 'd sql_engine = "query \<Rightarrow> param list \<Rightarrow> 'd \<Rightarrow> (string + cell list list) \<times> 'd"

text \<open>A statement that succeeds has its effect, one that is refused has none.\<close>

locale history_db =
  fixes exec :: "'d sql_engine"
    and conn :: "'d \<Rightarrow> conn"
  assumes ok: "exec q ps d = (Inr rows, d') \<Longrightarrow> sql_ok q ps (conn d) rows (conn d')"
    and refused: "exec q ps d = (Inl msg, d') \<Longrightarrow> conn d' = conn d"

text \<open>The statements the scraper uses to mark an event as seen.\<close>

definition marks :: "query \<Rightarrow> bool" where
  "marks q \<longleftrightarrow> q \<in> {QStart, QRollback, QCommit, QTrackEvent}"

text \<open>A server that refuses none of these that could succeed.\<close>

locale reliable_db = history_db +
  assumes accepts: "marks q \<Longrightarrow> sql_ok q ps (conn d) rows c \<Longrightarrow> \<exists>rows' d'. exec q ps d = (Inr rows', d')"


subsection \<open>A server with the tables of database.sql\<close>

text \<open>
  \<open>Shipped\<close>: the tables as \<open>database.sql\<close> creates them. \<open>Extended\<close>: with the column and the
  table the statements need besides. Identifiers come from one counter per table.
\<close>

datatype schema = Shipped | Extended

record mysql =
  my_conn :: conn
  my_next :: "query \<Rightarrow> 64 word"

definition my_insert ::
  "query \<Rightarrow> bool \<Rightarrow> (64 word \<Rightarrow> bool) \<Rightarrow> (64 word \<Rightarrow> tables \<Rightarrow> tables) \<Rightarrow> mysql \<Rightarrow>
     (string + cell list list) \<times> mysql" where
  "my_insert q allowed free f d =
     (let k = my_next d q in
      if \<not> allowed then (Inl ''constraint fails'', d)
      else if k = 0 \<or> \<not> free k then (Inl ''Duplicate entry for key PRIMARY'', d)
      else (Inr [], d\<lparr>my_conn := inserted k (f k) (my_conn d), my_next := (my_next d)(q := k + 1)\<rparr>))"

abbreviation my_tables :: "mysql \<Rightarrow> tables" where
  "my_tables d \<equiv> cn_tables (my_conn d)"

definition on_tables :: "(tables \<Rightarrow> tables) \<Rightarrow> mysql \<Rightarrow> mysql" where
  "on_tables f d = d\<lparr>my_conn := (my_conn d)\<lparr>cn_tables := f (my_tables d)\<rparr>\<rparr>"

definition bad_query :: "mysql \<Rightarrow> (string + cell list list) \<times> mysql" where
  "bad_query d = (Inl ''You have an error in your SQL syntax'', d)"

text \<open>The statements that change rows, on their bound values.\<close>

fun my_track :: "param list \<Rightarrow> mysql \<Rightarrow> (string + cell list list) \<times> mysql" where
  "my_track [PUint i] d =
     (if i \<in> set (gw_tracked (my_tables d)) then (Inl ''Duplicate entry for key PRIMARY'', d)
      else (Inr [], on_tables (\<lambda>g. g\<lparr>gw_tracked := i # gw_tracked g\<rparr>) d))"
| "my_track _ d = bad_query d"

fun my_user :: "param list \<Rightarrow> mysql \<Rightarrow> (string + cell list list) \<times> mysql" where
  "my_user (PUint t # ps) d =
     my_insert QInsertUser (user_row t (my_tables d) = None)
       (\<lambda>k. k \<notin> ids_of (gw_users (my_tables d))) (\<lambda>k g. g\<lparr>gw_users := (t, k, ps) # gw_users g\<rparr>) d"
| "my_user _ d = bad_query d"

fun my_group :: "param list \<Rightarrow> mysql \<Rightarrow> (string + cell list list) \<times> mysql" where
  "my_group (PSint t # ps) d =
     my_insert QInsertGroup (group_row t (my_tables d) = None)
       (\<lambda>k. k \<notin> ids_of (gw_groups (my_tables d))) (\<lambda>k g. g\<lparr>gw_groups := (t, k, ps) # gw_groups g\<rparr>) d"
| "my_group _ d = bad_query d"

fun my_message :: "schema \<Rightarrow> param list \<Rightarrow> mysql \<Rightarrow> (string + cell list list) \<times> mysql" where
  "my_message sc (PUint gid # PUint uid # PUint tg # ps) d =
     my_insert QInsertMessage
       (sc = Extended \<and> gid \<in> ids_of (gw_groups (my_tables d)) \<and> uid \<in> ids_of (gw_users (my_tables d)))
       (\<lambda>k. k \<notin> fst ` set (gw_messages (my_tables d)))
       (\<lambda>k g. g\<lparr>gw_messages :=
          (k, \<lparr>mr_group = gid, mr_user = uid, mr_tg_msg_id = tg, mr_edited = ''0'', mr_rest = ps\<rparr>)
            # gw_messages g\<rparr>) d"
| "my_message sc _ d = bad_query d"

fun my_edited :: "param list \<Rightarrow> mysql \<Rightarrow> (string + cell list list) \<times> mysql" where
  "my_edited [PString dt, PUint k, PSint gid] d = (Inr [], on_tables (set_edited k gid) d)"
| "my_edited _ d = bad_query d"

definition my_data :: "bool \<Rightarrow> 64 word \<Rightarrow> param list \<Rightarrow> mysql \<Rightarrow> (string + cell list list) \<times> mysql" where
  "my_data file_ok msg ps d =
     my_insert QInsertDataText (msg \<in> fst ` set (gw_messages (my_tables d)) \<and> file_ok)
       (\<lambda>k. k \<notin> fst ` set (gw_data (my_tables d)))
       (\<lambda>k g. g\<lparr>gw_data := (k, ps) # gw_data g\<rparr>) d"

fun my_text :: "param list \<Rightarrow> mysql \<Rightarrow> (string + cell list list) \<times> mysql" where
  "my_text (PUint msg # ps) d = my_data True msg (PUint msg # ps) d"
| "my_text _ d = bad_query d"

fun my_file_data :: "param list \<Rightarrow> mysql \<Rightarrow> (string + cell list list) \<times> mysql" where
  "my_file_data (PUint msg # text # ents # PUint file # ps) d =
     my_data (file \<in> fst ` set (gw_files (my_tables d))) msg (PUint msg # text # ents # PUint file # ps) d"
| "my_file_data _ d = bad_query d"

fun my_select_user :: "param list \<Rightarrow> mysql \<Rightarrow> (string + cell list list) \<times> mysql" where
  "my_select_user [PSint t] d = (Inr (if sint t < 0 then [] else row_ids (user_row t (my_tables d))), d)"
| "my_select_user _ d = bad_query d"

fun my_select_group :: "param list \<Rightarrow> mysql \<Rightarrow> (string + cell list list) \<times> mysql" where
  "my_select_group [PSint t] d = (Inr (row_ids (group_row t (my_tables d))), d)"
| "my_select_group _ d = bad_query d"

fun my_select_message :: "param list \<Rightarrow> mysql \<Rightarrow> (string + cell list list) \<times> mysql" where
  "my_select_message [PUint tg, PSint chat] d = (Inr (message_rows tg chat (my_tables d)), d)"
| "my_select_message _ d = bad_query d"

definition my_set_conn :: "param list \<Rightarrow> (conn \<Rightarrow> conn) \<Rightarrow> mysql \<Rightarrow> (string + cell list list) \<times> mysql" where
  "my_set_conn ps f d = (if ps = [] then (Inr [], d\<lparr>my_conn := f (my_conn d)\<rparr>) else bad_query d)"

fun my_exec :: "schema \<Rightarrow> mysql sql_engine" where
  "my_exec sc QStart ps d = my_set_conn ps (\<lambda>c. c\<lparr>cn_saved := Some (cn_tables c)\<rparr>) d"
| "my_exec sc QRollback ps d = my_set_conn ps (\<lambda>c. case cn_saved c of
      None \<Rightarrow> c | Some g \<Rightarrow> c\<lparr>cn_tables := g, cn_saved := None\<rparr>) d"
| "my_exec sc QCommit ps d = my_set_conn ps (\<lambda>c. c\<lparr>cn_saved := None\<rparr>) d"
| "my_exec sc QTrackEvent ps d = my_track ps d"
| "my_exec sc QLastInsertId ps d =
     (if ps = [] then (Inr [[CUint (cn_last_id (my_conn d))]], d) else bad_query d)"
| "my_exec sc QInsertUser ps d = my_user ps d"
| "my_exec sc QSelectUser ps d = my_select_user ps d"
| "my_exec sc QInsertGroup ps d = my_group ps d"
| "my_exec sc QSelectGroup ps d = my_select_group ps d"
| "my_exec sc QInsertMessage ps d = my_message sc ps d"
| "my_exec sc QSelectMessage ps d = my_select_message ps d"
| "my_exec sc QSetEdited ps d = my_edited ps d"
| "my_exec sc QSetDeleted ps d = bad_query d"
| "my_exec sc QInsertDataText ps d = my_text ps d"
| "my_exec sc QInsertDataFile ps d = my_file_data ps d"
| "my_exec sc QInsertForward ps d =
     my_insert QInsertForward (sc = Extended) (\<lambda>k. k \<notin> fst ` set (gw_forwards (my_tables d)))
       (\<lambda>k g. g\<lparr>gw_forwards := (k, ps) # gw_forwards g\<rparr>) d"
| "my_exec sc QInsertFile ps d =
     my_insert QInsertFile True (\<lambda>k. k \<notin> fst ` set (gw_files (my_tables d)))
       (\<lambda>k g. g\<lparr>gw_files := (k, ps) # gw_files g\<rparr>) d"

lemmas my_queries = my_track.simps my_user.simps my_group.simps my_message.simps my_edited.simps
  my_text.simps my_file_data.simps my_select_user.simps my_select_group.simps my_select_message.simps

lemma my_insert_ok:
  assumes "my_insert q allowed free f d = (Inr rows, d')"
  shows "allowed \<and> (\<exists>k. k \<noteq> 0 \<and> free k \<and> rows = [] \<and> my_conn d' = inserted k (f k) (my_conn d))"
  using assms by (auto simp: my_insert_def Let_def split: if_splits)

lemma my_insert_refused: "my_insert q allowed free f d = (Inl msg, d') \<Longrightarrow> d' = d"
  by (auto simp: my_insert_def Let_def split: if_splits)

text \<open>Each kind of statement, on every list of values.\<close>

lemma my_track_ok: "my_track ps d = (Inr rows, d') \<Longrightarrow> sql_ok QTrackEvent ps (my_conn d) rows (my_conn d')"
  by (cases "(ps, d)" rule: my_track.cases)
    (auto simp: sql_ok_simps on_tables_def bad_query_def split: if_splits)

lemma my_user_ok: "my_user ps d = (Inr rows, d') \<Longrightarrow> sql_ok QInsertUser ps (my_conn d) rows (my_conn d')"
  by (cases "(ps, d)" rule: my_user.cases)
    (auto simp: sql_ok_simps bad_query_def dest!: my_insert_ok)

lemma my_group_ok: "my_group ps d = (Inr rows, d') \<Longrightarrow> sql_ok QInsertGroup ps (my_conn d) rows (my_conn d')"
  by (cases "(ps, d)" rule: my_group.cases)
    (auto simp: sql_ok_simps bad_query_def dest!: my_insert_ok)

lemma my_message_ok:
  "my_message sc ps d = (Inr rows, d') \<Longrightarrow> sql_ok QInsertMessage ps (my_conn d) rows (my_conn d')"
  by (cases "(sc, ps, d)" rule: my_message.cases)
    (auto simp: sql_ok_simps bad_query_def dest!: my_insert_ok)

lemma my_edited_ok: "my_edited ps d = (Inr rows, d') \<Longrightarrow> sql_ok QSetEdited ps (my_conn d) rows (my_conn d')"
  by (cases "(ps, d)" rule: my_edited.cases) (auto simp: sql_ok_simps on_tables_def bad_query_def)

lemma my_text_ok: "my_text ps d = (Inr rows, d') \<Longrightarrow> sql_ok QInsertDataText ps (my_conn d) rows (my_conn d')"
  by (cases "(ps, d)" rule: my_text.cases)
    (auto simp: sql_ok_simps my_data_def bad_query_def dest!: my_insert_ok)

lemma my_file_data_ok:
  "my_file_data ps d = (Inr rows, d') \<Longrightarrow> sql_ok QInsertDataFile ps (my_conn d) rows (my_conn d')"
  by (cases "(ps, d)" rule: my_file_data.cases)
    (auto simp: sql_ok_simps my_data_def bad_query_def dest!: my_insert_ok)

lemma my_select_ok:
  "my_select_user ps d = (Inr rows, d') \<Longrightarrow> sql_ok QSelectUser ps (my_conn d) rows (my_conn d')"
  "my_select_group ps d = (Inr rows, d') \<Longrightarrow> sql_ok QSelectGroup ps (my_conn d) rows (my_conn d')"
  "my_select_message ps d = (Inr rows, d') \<Longrightarrow> sql_ok QSelectMessage ps (my_conn d) rows (my_conn d')"
  by (cases "(ps, d)" rule: my_select_user.cases, auto simp: sql_ok_simps bad_query_def)
    (cases "(ps, d)" rule: my_select_group.cases, auto simp: sql_ok_simps bad_query_def,
     cases "(ps, d)" rule: my_select_message.cases, auto simp: sql_ok_simps bad_query_def)

lemmas my_queries_ok = my_track_ok my_user_ok my_group_ok my_message_ok my_edited_ok my_text_ok
  my_file_data_ok my_select_ok

lemma my_exec_ok:
  "my_exec sc q ps d = (Inr rows, d') \<Longrightarrow> sql_ok q ps (my_conn d) rows (my_conn d')"
  by (cases q)
    (auto simp: sql_ok_simps my_set_conn_def bad_query_def my_queries_ok split: if_splits dest!: my_insert_ok)

text \<open>A refused statement leaves the server as it was.\<close>

lemma my_track_refused: "my_track ps d = (Inl msg, d') \<Longrightarrow> d' = d"
  by (cases "(ps, d)" rule: my_track.cases)
    (auto simp: my_data_def bad_query_def split: if_splits dest: my_insert_refused)

lemma my_user_refused: "my_user ps d = (Inl msg, d') \<Longrightarrow> d' = d"
  by (cases "(ps, d)" rule: my_user.cases)
    (auto simp: my_data_def bad_query_def split: if_splits dest: my_insert_refused)

lemma my_group_refused: "my_group ps d = (Inl msg, d') \<Longrightarrow> d' = d"
  by (cases "(ps, d)" rule: my_group.cases)
    (auto simp: my_data_def bad_query_def split: if_splits dest: my_insert_refused)

lemma my_message_refused: "my_message sc ps d = (Inl msg, d') \<Longrightarrow> d' = d"
  by (cases "(sc, ps, d)" rule: my_message.cases)
    (auto simp: my_data_def bad_query_def split: if_splits dest: my_insert_refused)

lemma my_edited_refused: "my_edited ps d = (Inl msg, d') \<Longrightarrow> d' = d"
  by (cases "(ps, d)" rule: my_edited.cases)
    (auto simp: my_data_def bad_query_def split: if_splits dest: my_insert_refused)

lemma my_text_refused: "my_text ps d = (Inl msg, d') \<Longrightarrow> d' = d"
  by (cases "(ps, d)" rule: my_text.cases)
    (auto simp: my_data_def bad_query_def split: if_splits dest: my_insert_refused)

lemma my_file_data_refused: "my_file_data ps d = (Inl msg, d') \<Longrightarrow> d' = d"
  by (cases "(ps, d)" rule: my_file_data.cases)
    (auto simp: my_data_def bad_query_def split: if_splits dest: my_insert_refused)

lemma my_select_user_refused: "my_select_user ps d = (Inl msg, d') \<Longrightarrow> d' = d"
  by (cases "(ps, d)" rule: my_select_user.cases)
    (auto simp: my_data_def bad_query_def split: if_splits dest: my_insert_refused)

lemma my_select_group_refused: "my_select_group ps d = (Inl msg, d') \<Longrightarrow> d' = d"
  by (cases "(ps, d)" rule: my_select_group.cases)
    (auto simp: my_data_def bad_query_def split: if_splits dest: my_insert_refused)

lemma my_select_message_refused: "my_select_message ps d = (Inl msg, d') \<Longrightarrow> d' = d"
  by (cases "(ps, d)" rule: my_select_message.cases)
    (auto simp: my_data_def bad_query_def split: if_splits dest: my_insert_refused)

lemmas my_queries_refused = my_track_refused my_user_refused my_group_refused my_message_refused
  my_edited_refused my_text_refused my_file_data_refused my_select_user_refused
  my_select_group_refused my_select_message_refused

lemma my_exec_refused: "my_exec sc q ps d = (Inl msg, d') \<Longrightarrow> d' = d"
  by (cases q)
    (auto simp: my_set_conn_def bad_query_def split: if_splits
      dest: my_insert_refused my_queries_refused)

interpretation my: history_db "my_exec sc" my_conn for sc
  by unfold_locales (auto simp: my_exec_ok dest: my_exec_refused)

interpretation my: reliable_db "my_exec sc" my_conn for sc
proof
  fix q ps rows c and d :: mysql
  assume "marks q" "sql_ok q ps (my_conn d) rows c"
  then show "\<exists>rows' d'. my_exec sc q ps d = (Inr rows', d')"
    by (auto simp: marks_def my_set_conn_def elim!: sql_ok_elims split: if_splits)
qed

text \<open>A server just set up.\<close>

definition empty_tables :: tables where
  "empty_tables = \<lparr>gw_users = [], gw_groups = [], gw_tracked = [], gw_messages = [], gw_data = [],
     gw_forwards = [], gw_files = []\<rparr>"

definition my_init :: mysql where
  "my_init = \<lparr>my_conn = \<lparr>cn_tables = empty_tables, cn_saved = None, cn_last_id = 0\<rparr>,
     my_next = (\<lambda>_. 1)\<rparr>"

end
