(* ===== verification/History.thy ===== *)
theory History
  imports HistoryDb TdApi DB Modules
begin

section \<open>The history scraper (Modules/Preload/HistoryScraper)\<close>

text \<open>
  The preloaded module of the multi-account program: it reads the event log of one group and
  stores every message that was deleted or edited. The operations are those of class \<open>Worker\<close> in
  \<open>HistoryScraper.cpp\<close>, in state-passing form: an operation takes the scraper's state and gives
  a value or a failure, and the new state. Printing, thread names and the pauses are left out.

  \<open>henv\<close> holds what the scraper observes: the server's answers, the clock, the objects
  \<open>send_query_sync\<close> returns (\<open>None\<close> for an error or a timeout), the digests of files (those
  computed by the code are put in by \<open>FileDigest\<close>) and the text form of entities. An observation may differ from one moment to the next, so each gets
  the number of observations made so far.
\<close>

subsection \<open>State, environment, sequencing\<close>

record 'd hist =
  h_db :: 'd
  user_tg_to_db :: "int \<Rightarrow> 64 word option"
  group_tg_to_db :: "int \<Rightarrow> 64 word option"
  user_map :: "64 word \<Rightarrow> user option"
  group_map :: "int \<Rightarrow> chat option"
  h_tick :: nat
  h_renamed :: "(string \<times> string) list"

record 'd henv =
  e_exec :: "'d sql_engine"
  e_time :: "nat \<Rightarrow> int"
  e_user :: "nat \<Rightarrow> int \<Rightarrow> user option"
  e_chat :: "nat \<Rightarrow> int \<Rightarrow> chat option"
  e_file :: "nat \<Rightarrow> int \<Rightarrow> td_file option"
  e_events :: "nat \<Rightarrow> int \<Rightarrow> int \<Rightarrow> chat_event list option"
  e_md5 :: "string \<Rightarrow> string option"
  e_sha1 :: "string \<Rightarrow> string option"
  e_entities :: "text_entity list \<Rightarrow> string"
  e_cell_error :: string

type_synonym ('d, 'a) act = "'d hist \<Rightarrow> (exn + 'a) \<times> 'd hist"

definition ret :: "'a \<Rightarrow> ('d, 'a) act" where
  "ret x s = (Inr x, s)"

definition fail_with :: "exn \<Rightarrow> ('d, 'a) act" where
  "fail_with x s = (Inl x, s)"

definition hbind :: "('d, 'a) act \<Rightarrow> ('a \<Rightarrow> ('d, 'b) act) \<Rightarrow> ('d, 'b) act" where
  "hbind m f s = (case m s of (Inl x, t) \<Rightarrow> (Inl x, t) | (Inr v, t) \<Rightarrow> f v t)"

definition hseq :: "('d, 'a) act \<Rightarrow> ('d, 'b) act \<Rightarrow> ('d, 'b) act" where
  "hseq m n = hbind m (\<lambda>_. n)"

text \<open>\<open>try { m } catch (std::string &err) { h }\<close>.\<close>

definition catch_string :: "('d, 'a) act \<Rightarrow> (string \<Rightarrow> ('d, 'a) act) \<Rightarrow> ('d, 'a) act" where
  "catch_string m h s = (case m s of (Inl (Thrown w), t) \<Rightarrow> h w t | r \<Rightarrow> r)"

definition get :: "('d hist \<Rightarrow> 'a) \<Rightarrow> ('d, 'a) act" where
  "get f s = (Inr (f s), s)"

definition put :: "('d hist \<Rightarrow> 'd hist) \<Rightarrow> ('d, unit) act" where
  "put f s = (Inr (), f s)"

definition observe :: "(nat \<Rightarrow> 'a) \<Rightarrow> ('d, 'a) act" where
  "observe f s = (Inr (f (h_tick s)), s\<lparr>h_tick := Suc (h_tick s)\<rparr>)"

text \<open>Dereferencing what a call returned.\<close>

definition deref :: "'a option \<Rightarrow> ('d, 'a) act" where
  "deref p = (case p of None \<Rightarrow> fail_with (Ub NullDeref) | Some x \<Rightarrow> ret x)"

subsection \<open>Statements\<close>

text \<open>The message the macros of \<open>DBCommon.hpp\<close> throw.\<close>

definition sql_error :: "string \<Rightarrow> string" where
  "sql_error msg = snprintf_str 2048 (NL # ''Error! '' @ msg)"

text \<open>\<open>prepare\<close>, \<open>bind\<close> and \<open>execute\<close>; the rows are what \<open>fetch\<close> will give.\<close>

definition sql :: "'d henv \<Rightarrow> query \<Rightarrow> param list \<Rightarrow> ('d, cell list list) act" where
  "sql e q ps s =
     (case e_exec e q ps (h_db s) of
        (Inl msg, d) \<Rightarrow> (Inl (Thrown (sql_error msg)), s\<lparr>h_db := d\<rparr>)
      | (Inr rows, d) \<Rightarrow> (Inr rows, s\<lparr>h_db := d\<rparr>))"

definition sql_unit :: "'d henv \<Rightarrow> query \<Rightarrow> param list \<Rightarrow> ('d, unit) act" where
  "sql_unit e q ps = hseq (sql e q ps) (ret ())"

text \<open>\<open>mysqlx_get_uint(row, i, &ret)\<close> and the first byte \<open>mysqlx_get_bytes\<close> reads into \<open>char[5]\<close>.\<close>

definition get_uint :: "'d henv \<Rightarrow> cell list \<Rightarrow> nat \<Rightarrow> ('d, 64 word) act" where
  "get_uint e row i =
     (if i < length row then
        (case row ! i of CUint n \<Rightarrow> ret n | _ \<Rightarrow> fail_with (Thrown (sql_error (e_cell_error e))))
      else fail_with (Thrown (sql_error (e_cell_error e))))"

definition get_flag :: "'d henv \<Rightarrow> cell list \<Rightarrow> nat \<Rightarrow> ('d, bool) act" where
  "get_flag e row i =
     (if i < length row then
        (case row ! i of
           CBytes b \<Rightarrow>
             (if length b < 4 then ret (b \<noteq> [] \<and> hd b = CHR ''1'')
              else fail_with (Thrown (sql_error (e_cell_error e))))
         | _ \<Rightarrow> fail_with (Thrown (sql_error (e_cell_error e))))
      else fail_with (Thrown (sql_error (e_cell_error e))))"

definition uint_of :: "int \<Rightarrow> param" where "uint_of i = PUint (word_of_int i)"
definition sint_of :: "int \<Rightarrow> param" where "sint_of i = PSint (word_of_int i)"
definition str_of :: "string \<Rightarrow> param" where "str_of t = PString (cstr (t @ [NUL]))"
definition flag_of :: "bool \<Rightarrow> param" where "flag_of b = PString (if b then ''1'' else ''0'')"

subsection \<open>Dates\<close>

text \<open>
  \<open>getDateByUnixTM\<close>: \<open>strftime\<close> of \<open>gmtime\<close> with the format the code gives, whose second field
  is the hour on the 12-hour clock. \<open>civil\<close> gives year, month and day of a day number.
\<close>

definition civil :: "int \<Rightarrow> int \<times> int \<times> int" where
  "civil z =
     (let z = z + 719468;
          era = z div 146097;
          doe = z mod 146097;
          yoe = (doe - doe div 1460 + doe div 36524 - doe div 146096) div 365;
          doy = doe - (365 * yoe + yoe div 4 - yoe div 100);
          mp = (5 * doy + 2) div 153;
          day = doy - (153 * mp + 2) div 5 + 1;
          month = (if mp < 10 then mp + 3 else mp - 9)
      in (yoe + era * 400 + (if month \<le> 2 then 1 else 0), month, day))"

definition two_digits :: "int \<Rightarrow> string" where
  "two_digits i = (if i < 10 then CHR ''0'' # dec_int i else dec_int i)"

definition hour12 :: "int \<Rightarrow> int" where
  "hour12 h = (if h mod 12 = 0 then 12 else h mod 12)"

definition date_by_unix_tm :: "int \<Rightarrow> string" where
  "date_by_unix_tm epoch =
     (case civil (epoch div 86400) of (y, m, d) \<Rightarrow>
        let secs = epoch mod 86400; hour = secs div 3600 in
        dec_int y @ ''-'' @ two_digits m @ ''-'' @ two_digits d @ '' '' @
        two_digits hour @ '':'' @ two_digits (hour12 hour) @ '':'' @ two_digits (secs mod 60))"

definition date_now :: "'d henv \<Rightarrow> ('d, string) act" where
  "date_now e = observe (\<lambda>n. date_by_unix_tm (e_time e n))"

subsection \<open>Users and groups\<close>

definition last_insert_id :: "'d henv \<Rightarrow> ('d, 64 word) act" where
  "last_insert_id e =
     hbind (sql e QLastInsertId []) (\<lambda>rows.
       case rows of [] \<Rightarrow> ret 0 | row # _ \<Rightarrow> get_uint e row 0)"

text \<open>
  \<open>resolveUser\<close>: the identifier of the user's row, and the object the caller may use. An insert
  that fails is followed by a look-up; identifiers found are remembered.
\<close>

definition user_out :: "user \<Rightarrow> 64 word \<Rightarrow> ('d, 64 word \<times> user) act" where
  "user_out u k =
     hseq (put (\<lambda>s. s\<lparr>user_tg_to_db := (user_tg_to_db s)(u_id u \<mapsto> k),
                       user_map := (user_map s)(k \<mapsto> u)\<rparr>))
       (ret (k, u))"

definition user_fetch :: "'d henv \<Rightarrow> user \<Rightarrow> ('d, 64 word \<times> user) act" where
  "user_fetch e u =
     hbind (sql e QSelectUser [sint_of (u_id u)]) (\<lambda>rows.
       case rows of
         [] \<Rightarrow> ret (0, u)
       | row # _ \<Rightarrow> hbind (get_uint e row 0) (\<lambda>k. if k \<noteq> 0 then user_out u k else ret (0, u)))"

definition insert_user :: "'d henv \<Rightarrow> user \<Rightarrow> ('d, bool) act" where
  "insert_user e u =
     catch_string
       (hbind (date_now e) (\<lambda>now.
        hseq (sql e QInsertUser [uint_of (u_id u), str_of (u_username u), str_of (u_first_name u),
                                 str_of (u_last_name u), PString now])
          (ret True)))
       (\<lambda>_. ret False)"

definition resolve_user :: "'d henv \<Rightarrow> user \<Rightarrow> ('d, 64 word \<times> user) act" where
  "resolve_user e u =
     hbind (get (\<lambda>s. user_tg_to_db s (u_id u))) (\<lambda>got.
       case got of
         Some k \<Rightarrow> ret (k, u)
       | None \<Rightarrow>
           hbind (insert_user e u) (\<lambda>fresh.
             if fresh then
               hbind (last_insert_id e) (\<lambda>k. if k \<noteq> 0 then user_out u k else user_fetch e u)
             else user_fetch e u))"

text \<open>
  \<open>resolveGroup\<close> is the same for chats, but stores the chat under its Telegram identifier and
  then reads the map at the row's identifier, which creates an empty chat there.
\<close>

definition empty_chat :: chat where
  "empty_chat = \<lparr>c_id = 0, c_title = []\<rparr>"

definition group_out :: "chat \<Rightarrow> 64 word \<Rightarrow> ('d, 64 word \<times> chat) act" where
  "group_out c k =
     hseq (put (\<lambda>s. s\<lparr>group_tg_to_db := (group_tg_to_db s)(c_id c \<mapsto> k),
                       group_map := (group_map s)(c_id c \<mapsto> c)\<rparr>))
    (hseq (put (\<lambda>s. if group_map s (sint k) = None
                     then s\<lparr>group_map := (group_map s)(sint k \<mapsto> empty_chat)\<rparr> else s))
    (hbind (get (\<lambda>s. group_map s (sint k))) (\<lambda>p. hbind (deref p) (\<lambda>c. ret (k, c)))))"

definition group_fetch :: "'d henv \<Rightarrow> chat \<Rightarrow> ('d, 64 word \<times> chat) act" where
  "group_fetch e c =
     hbind (sql e QSelectGroup [sint_of (c_id c)]) (\<lambda>rows.
       case rows of
         [] \<Rightarrow> ret (0, c)
       | row # _ \<Rightarrow> hbind (get_uint e row 0) (\<lambda>k. if k \<noteq> 0 then group_out c k else ret (0, c)))"

definition insert_group :: "'d henv \<Rightarrow> chat \<Rightarrow> ('d, bool) act" where
  "insert_group e c =
     catch_string
       (hbind (date_now e) (\<lambda>now.
        hseq (sql e QInsertGroup [sint_of (c_id c), PString ''GNUWeeb'', str_of (c_title c), PString now])
          (ret True)))
       (\<lambda>_. ret False)"

definition resolve_group :: "'d henv \<Rightarrow> chat \<Rightarrow> ('d, 64 word \<times> chat) act" where
  "resolve_group e c =
     hbind (get (\<lambda>s. group_tg_to_db s (c_id c))) (\<lambda>got.
       case got of
         Some k \<Rightarrow> ret (k, c)
       | None \<Rightarrow>
           hbind (insert_group e c) (\<lambda>fresh.
             if fresh then
               hbind (last_insert_id e) (\<lambda>k. if k \<noteq> 0 then group_out c k else group_fetch e c)
             else group_fetch e c))"


subsection \<open>Files\<close>

text \<open>\<open>get_filename_ext\<close>: what follows the last dot, unless that is the first character.\<close>

definition get_filename_ext :: "string \<Rightarrow> string" where
  "get_filename_ext f =
     (case strrchr_idx f (CHR ''.'') of
        None \<Rightarrow> []
      | Some i \<Rightarrow> if i = 0 then [] else drop (Suc i) f)"

definition hex_digit :: "nat \<Rightarrow> char" where
  "hex_digit n = ''0123456789abcdef'' ! n"

definition hex_digest :: "string \<Rightarrow> string" where
  "hex_digest bs = concat (map (\<lambda>b. [hex_digit (of_char b div 16), hex_digit (of_char b mod 16)]) bs)"

definition stored_name :: "string \<Rightarrow> string \<Rightarrow> string \<Rightarrow> string" where
  "stored_name md5 sha1 path =
     snprintf_str 1024
       (''storage/files/'' @ hex_digest md5 @ ''_'' @ hex_digest sha1 @ ''.'' @ get_filename_ext path)"

text \<open>
  \<open>resolveFile\<close>: 0 if the file cannot be had; the rename and the link are recorded, their
  failures are only printed.
\<close>

definition insert_file :: "'d henv \<Rightarrow> td_file \<Rightarrow> td_file \<Rightarrow> string \<Rightarrow> string \<Rightarrow> ('d, 64 word) act" where
  "insert_file e file loc md5 sha1 =
     hbind (date_now e) (\<lambda>now.
     hseq (sql e QInsertFile [str_of (f_remote_id file), str_of (f_unique_id file), PBytes md5, PBytes sha1,
              str_of (get_filename_ext (f_path loc)), uint_of (f_downloaded_size loc), PString now])
       (last_insert_id e))"

definition resolve_file :: "'d henv \<Rightarrow> td_file \<Rightarrow> ('d, 64 word) act" where
  "resolve_file e file =
     hbind (observe (\<lambda>n. e_file e n (f_id file))) (\<lambda>f.
       case f of
         None \<Rightarrow> ret 0
       | Some loc \<Rightarrow>
           if f_path loc = [] then ret 0
           else
             (case e_md5 e (f_path loc) of
                None \<Rightarrow> ret 0
              | Some md5 \<Rightarrow>
                  (case e_sha1 e (f_path loc) of
                     None \<Rightarrow> ret 0
                   | Some sha1 \<Rightarrow>
                       hseq (put (\<lambda>s. s\<lparr>h_renamed :=
                               h_renamed s @ [(f_path loc, stored_name md5 sha1 (f_path loc))]\<rparr>))
                         (catch_string (insert_file e file loc md5 sha1)
                            (\<lambda>err. fail_with (Thrown err))))))"

subsection \<open>Messages\<close>

definition save_forward_info :: "'d henv \<Rightarrow> 64 word \<Rightarrow> forward_info \<Rightarrow> ('d, unit) act" where
  "save_forward_info e k fwd =
     (let row = (\<lambda>ty orig_id text.
            [PUint k, PString ty, PString (date_by_unix_tm (fwd_date fwd)), str_of (fwd_psa_type fwd),
             orig_id, str_of text, uint_of (fwd_from_chat_id fwd), uint_of (fwd_from_message_id fwd)])
      in case fwd_origin fwd of
           OriginUser i \<Rightarrow> sql_unit e QInsertForward (row ''user'' (uint_of i) [])
         | OriginHiddenUser name \<Rightarrow> sql_unit e QInsertForward (row ''hidden_user'' (PUint 0) name)
         | OriginChannel sig \<Rightarrow>
             catch_string (sql_unit e QInsertForward (row ''channel'' (PUint 0) sig))
               (\<lambda>err. fail_with (Thrown err))
         | OriginChat i sig \<Rightarrow> sql_unit e QInsertForward (row ''chat'' (uint_of i) sig)
         | OriginOther \<Rightarrow> ret ())"

definition set_has_edited :: "'d henv \<Rightarrow> 64 word \<Rightarrow> 64 word \<Rightarrow> ('d, unit) act" where
  "set_has_edited e k gid =
     hbind (date_now e) (\<lambda>now. sql_unit e QSetEdited [PString now, PUint k, PSint gid])"

definition set_is_deleted :: "'d henv \<Rightarrow> 64 word \<Rightarrow> 64 word \<Rightarrow> ('d, unit) act" where
  "set_is_deleted e k gid =
     hbind (date_now e) (\<lambda>now. sql_unit e QSetDeleted [PString now, PUint k, PSint gid])"

text \<open>\<open>getDBMsgIdIfExists\<close>: the row's identifier, or 0, and its edited flag.\<close>

definition get_db_msg_id_if_exists ::
  "'d henv \<Rightarrow> 64 word \<Rightarrow> 64 word \<Rightarrow> ('d, 64 word \<times> bool) act" where
  "get_db_msg_id_if_exists e tg_msg_id chat =
     hbind (sql e QSelectMessage [PUint tg_msg_id, PSint chat]) (\<lambda>rows.
       case rows of
         [] \<Rightarrow> ret (0, False)
       | row # _ \<Rightarrow>
           hbind (get_uint e row 0) (\<lambda>k. hbind (get_flag e row 1) (\<lambda>edited. ret (k, edited))))"

definition msg_date :: "message \<Rightarrow> bool \<Rightarrow> string" where
  "msg_date m is_edited = date_by_unix_tm (if is_edited then m_edit_date m else m_date m)"

definition entities_param :: "'d henv \<Rightarrow> formatted_text \<Rightarrow> param" where
  "entities_param e ft = (if ft_entities ft \<noteq> [] then str_of (e_entities e (ft_entities ft)) else PNull)"

definition insert_msg_data_text ::
  "'d henv \<Rightarrow> 64 word \<Rightarrow> message \<Rightarrow> formatted_text \<Rightarrow> bool \<Rightarrow> ('d, unit) act" where
  "insert_msg_data_text e k m ft is_edited =
     hbind (date_now e) (\<lambda>now.
       sql_unit e QInsertDataText
         [PUint k, str_of (ft_text ft), entities_param e ft, flag_of is_edited,
          PString (msg_date m is_edited), PString now])"

definition insert_msg_data_file ::
  "'d henv \<Rightarrow> 64 word \<Rightarrow> message \<Rightarrow> string \<Rightarrow> param \<Rightarrow> td_file \<Rightarrow> bool \<Rightarrow> ('d, unit) act" where
  "insert_msg_data_file e k m text ents file is_edited =
     hbind (resolve_file e file) (\<lambda>file_id.
     hbind (date_now e) (\<lambda>now.
       sql_unit e QInsertDataFile
         [PUint k, str_of text, ents, PUint file_id, flag_of is_edited,
          PString (msg_date m is_edited), PString now]))"

text \<open>\<open>insertMsgDataPhoto\<close> takes the largest size, the first of equal ones.\<close>

definition larger :: "td_file \<Rightarrow> td_file option \<Rightarrow> td_file option" where
  "larger p taken = (case taken of None \<Rightarrow> Some p | Some t \<Rightarrow> if f_size t < f_size p then Some p else Some t)"

definition taken_file :: "td_file list \<Rightarrow> td_file option" where
  "taken_file photos = fold larger photos None"

definition insert_msg_data_photo ::
  "'d henv \<Rightarrow> 64 word \<Rightarrow> message \<Rightarrow> formatted_text \<Rightarrow> td_file list \<Rightarrow> bool \<Rightarrow> ('d, unit) act" where
  "insert_msg_data_photo e k m cap photos is_edited =
     (case taken_file photos of
        None \<Rightarrow> ret ()
      | Some f \<Rightarrow> insert_msg_data_file e k m (ft_text cap) (entities_param e cap) f is_edited)"

text \<open>The other kinds of messages with a file; a sticker has no entities.\<close>

definition insert_msg_data_document ::
  "'d henv \<Rightarrow> 64 word \<Rightarrow> message \<Rightarrow> formatted_text \<Rightarrow> td_file \<Rightarrow> bool \<Rightarrow> ('d, unit) act" where
  "insert_msg_data_document e k m cap f is_edited =
     insert_msg_data_file e k m (ft_text cap) (entities_param e cap) f is_edited"

definition insert_msg_data_audio ::
  "'d henv \<Rightarrow> 64 word \<Rightarrow> message \<Rightarrow> formatted_text \<Rightarrow> td_file \<Rightarrow> bool \<Rightarrow> ('d, unit) act" where
  "insert_msg_data_audio e k m cap f is_edited =
     insert_msg_data_file e k m (ft_text cap) (entities_param e cap) f is_edited"

definition insert_msg_data_video ::
  "'d henv \<Rightarrow> 64 word \<Rightarrow> message \<Rightarrow> formatted_text \<Rightarrow> td_file \<Rightarrow> bool \<Rightarrow> ('d, unit) act" where
  "insert_msg_data_video e k m cap f is_edited =
     insert_msg_data_file e k m (ft_text cap) (entities_param e cap) f is_edited"

definition insert_msg_data_animation ::
  "'d henv \<Rightarrow> 64 word \<Rightarrow> message \<Rightarrow> formatted_text \<Rightarrow> td_file \<Rightarrow> bool \<Rightarrow> ('d, unit) act" where
  "insert_msg_data_animation e k m cap f is_edited =
     insert_msg_data_file e k m (ft_text cap) (entities_param e cap) f is_edited"

definition insert_msg_data_sticker ::
  "'d henv \<Rightarrow> 64 word \<Rightarrow> message \<Rightarrow> string \<Rightarrow> td_file \<Rightarrow> bool \<Rightarrow> ('d, unit) act" where
  "insert_msg_data_sticker e k m emoji f is_edited = insert_msg_data_file e k m emoji PNull f is_edited"

definition insert_msg_data :: "'d henv \<Rightarrow> 64 word \<Rightarrow> message \<Rightarrow> bool \<Rightarrow> ('d, unit) act" where
  "insert_msg_data e k m is_edited =
     hbind (deref (m_content m)) (\<lambda>content.
       case content of
         MessageText ft \<Rightarrow> insert_msg_data_text e k m ft is_edited
       | MessagePhoto cap photos \<Rightarrow> insert_msg_data_photo e k m cap photos is_edited
       | MessageVideo cap f \<Rightarrow> insert_msg_data_video e k m cap f is_edited
       | MessageSticker emoji f \<Rightarrow> insert_msg_data_sticker e k m emoji f is_edited
       | MessageAnimation cap f \<Rightarrow> insert_msg_data_animation e k m cap f is_edited
       | MessageDocument cap f \<Rightarrow> insert_msg_data_document e k m cap f is_edited
       | MessageAudio cap f \<Rightarrow> insert_msg_data_audio e k m cap f is_edited
       | _ \<Rightarrow> ret ())"

lemmas insert_msg_data_kinds = insert_msg_data_photo_def insert_msg_data_document_def
  insert_msg_data_audio_def insert_msg_data_video_def insert_msg_data_animation_def
  insert_msg_data_sticker_def

definition msg_type :: "message_content \<Rightarrow> string option" where
  "msg_type c =
     (case c of
        MessageText _ \<Rightarrow> Some ''text''
      | MessagePhoto _ _ \<Rightarrow> Some ''photo''
      | MessageVideo _ _ \<Rightarrow> Some ''video''
      | MessageSticker _ _ \<Rightarrow> Some ''sticker''
      | MessageAnimation _ _ \<Rightarrow> Some ''animation''
      | MessageDocument _ _ \<Rightarrow> Some ''document''
      | MessageAudio _ _ \<Rightarrow> Some ''audio''
      | MessageChatJoinByLink \<Rightarrow> Some ''join''
      | MessageOther \<Rightarrow> None)"

text \<open>\<open>resolveMessage\<close>: the insertion of a new row, and the whole.\<close>

definition insert_message ::
  "'d henv \<Rightarrow> message \<Rightarrow> string \<Rightarrow> 64 word \<Rightarrow> 64 word \<Rightarrow> bool \<Rightarrow> ('d, 64 word) act" where
  "insert_message e m ty uid gid is_deleted =
     hbind (date_now e) (\<lambda>now.
     hseq (sql e QInsertMessage
             [PUint gid, PUint uid, uint_of (m_id m div 2 ^ 20),
              uint_of (m_reply_to_message_id m div 2 ^ 20), PString ty,
              flag_of (m_forward_info m \<noteq> None), flag_of is_deleted, PString now])
       (hbind (last_insert_id e) (\<lambda>k.
          hseq (case m_forward_info m of None \<Rightarrow> ret () | Some fwd \<Rightarrow> save_forward_info e k fwd)
            (ret k))))"

definition resolve_message ::
  "'d henv \<Rightarrow> message \<Rightarrow> 64 word \<Rightarrow> 64 word \<Rightarrow> bool \<Rightarrow> bool \<Rightarrow> ('d, unit) act" where
  "resolve_message e m uid gid is_edited is_deleted =
     hbind (deref (m_content m)) (\<lambda>content.
       case msg_type content of
         None \<Rightarrow> ret ()
       | Some ty \<Rightarrow>
           hbind (get_db_msg_id_if_exists e (word_of_int (m_id m)) (word_of_int (m_chat_id m)))
             (\<lambda>(k, has_edited).
               hbind (if k \<noteq> 0 then
                        hseq (if is_edited \<and> \<not> has_edited then set_has_edited e k gid else ret ())
                          (hseq (if is_edited then insert_msg_data e k m is_edited else ret ())
                             (ret k))
                      else hbind (insert_message e m ty uid gid is_deleted) (\<lambda>k.
                             hseq (insert_msg_data e k m is_edited) (ret k)))
                 (\<lambda>k. if is_deleted then set_is_deleted e k gid else ret ())))"

definition process_message :: "'d henv \<Rightarrow> message \<Rightarrow> bool \<Rightarrow> bool \<Rightarrow> ('d, unit) act" where
  "process_message e m is_edited is_deleted =
     (case m_sender m of
        SenderChat _ \<Rightarrow> ret ()
      | SenderUser i \<Rightarrow>
          hbind (observe (\<lambda>n. e_user e n i)) (\<lambda>u.
          hbind (observe (\<lambda>n. e_chat e n (m_chat_id m))) (\<lambda>c.
          hbind (deref u) (\<lambda>u.
          hbind (resolve_user e u) (\<lambda>(uid, _).
          hbind (deref c) (\<lambda>c.
          hbind (resolve_group e c) (\<lambda>(gid, _).
            resolve_message e m uid gid is_edited is_deleted)))))))"

subsection \<open>The event log\<close>

definition track_event_id :: "'d henv \<Rightarrow> int \<Rightarrow> ('d, bool) act" where
  "track_event_id e i =
     catch_string (hseq (sql e QTrackEvent [uint_of i]) (ret True)) (\<lambda>_. ret False)"

definition process_action :: "'d henv \<Rightarrow> event_action \<Rightarrow> ('d, unit) act" where
  "process_action e a =
     (case a of
        EventMessageDeleted m \<Rightarrow> process_message e m False False
      | EventMessageEdited old new \<Rightarrow>
          hseq (process_message e old False False) (process_message e new True False)
      | EventOther \<Rightarrow> ret ())"

definition process_event :: "'d henv \<Rightarrow> chat_event \<Rightarrow> ('d, unit) act" where
  "process_event e ev =
     (if ev_action ev = EventOther then ret ()
      else
        hseq (sql e QStart [])
          (hbind (track_event_id e (ev_id ev)) (\<lambda>fresh.
             if \<not> fresh then sql_unit e QRollback []
             else hseq (process_action e (ev_action ev)) (sql_unit e QCommit []))))"

text \<open>The loop of \<open>processChatEventLog\<close>; \<open>acc\<close> is \<open>min_event\<close>, none before the first event.\<close>

fun process_events :: "'d henv \<Rightarrow> chat_event list \<Rightarrow> int option \<Rightarrow> ('d, int option) act" where
  "process_events e [] acc = ret acc"
| "process_events e (ev # evs) acc =
     hseq (process_event e ev)
       (process_events e evs
          (Some (case acc of None \<Rightarrow> ev_id ev | Some m \<Rightarrow> if ev_id ev < m then ev_id ev else m)))"

definition process_chat_event_log :: "'d henv \<Rightarrow> chat_event list \<Rightarrow> ('d, int) act" where
  "process_chat_event_log e evs =
     hbind (process_events e evs None) (\<lambda>m. ret (case m of None \<Rightarrow> - 1 | Some m \<Rightarrow> m))"

text \<open>
  \<open>gatherChatEventLog\<close> asks for the events before the oldest one seen, until there is none: the
  loop need not end, and \<open>None\<close> is the run that does not.
\<close>

partial_function (option) gather ::
  "'d henv \<Rightarrow> int \<Rightarrow> int \<Rightarrow> 'd hist \<Rightarrow> ((exn + unit) \<times> 'd hist) option" where
  "gather e chat min_ev s =
     (if min_ev = - 1 then Some (Inr (), s)
      else case observe (\<lambda>n. e_events e n chat min_ev) s of
             (Inl x, s) \<Rightarrow> Some (Inl x, s)
           | (Inr None, s) \<Rightarrow> Some (Inr (), s)
           | (Inr (Some evs), s) \<Rightarrow>
               (case process_chat_event_log e evs s of
                  (Inl x, s) \<Rightarrow> Some (Inl x, s)
                | (Inr m, s) \<Rightarrow> gather e chat m s))"

definition gather_chat_event_log ::
  "'d henv \<Rightarrow> int \<Rightarrow> 'd hist \<Rightarrow> ((exn + unit) \<times> 'd hist) option" where
  "gather_chat_event_log e chat s = gather e chat 0 s"


subsection \<open>The thread\<close>

text \<open>
  \<open>Worker::run\<close>: a missing variable aborts; the connection is made by the older class \<open>DB\<close>; the
  destructor closes it when the log has been read. \<open>getChats\<close>, called first, only waits for an
  answer. An exception is not caught here: it ends the thread and with it the process.
\<close>

definition env_or_abort :: "(string \<Rightarrow> string option) \<Rightarrow> string \<Rightarrow> exn + string" where
  "env_or_abort env name = (case env name of None \<Rightarrow> Inl Aborted | Some v \<Rightarrow> Inr v)"

definition create_db ::
  "(string \<Rightarrow> string option) \<Rightarrow> server \<Rightarrow> xapi \<Rightarrow> (exn + db) \<times> xapi" where
  "create_db env server x =
     (case ebind (env_or_abort env ''DB_HOST'') (\<lambda>host.
           ebind (env_or_abort env ''DB_USER'') (\<lambda>user.
           ebind (env_or_abort env ''DB_PASS'') (\<lambda>pass.
           ebind (env_or_abort env ''DB_NAME'') (\<lambda>name.
             lift_ub (old_db_new host 0 user pass name))))) of
        Inl a \<Rightarrow> (Inl a, x)
      | Inr d \<Rightarrow>
          (case old_db_connect server (d, x) of
             (Inl a, d, x) \<Rightarrow> (Inl a, x)
           | (Inr _, d, x) \<Rightarrow> (Inr d, x)))"

definition gnuweeb :: int where "gnuweeb = - 1001483770714"

definition worker_run ::
  "(string \<Rightarrow> string option) \<Rightarrow> server \<Rightarrow> 'd henv \<Rightarrow> xapi \<times> 'd hist \<Rightarrow>
     ((exn + unit) \<times> xapi \<times> 'd hist) option" where
  "worker_run env server e = (\<lambda>(x, s).
     (case create_db env server x of
        (Inl a, x) \<Rightarrow> Some (Inl a, x, s)
      | (Inr d, x) \<Rightarrow>
          (case gather_chat_event_log e gnuweeb s of
             None \<Rightarrow> None
           | Some (Inl a, s) \<Rightarrow> Some (Inl a, x, s)
           | Some (Inr _, s) \<Rightarrow> Some (Inr (), old_db_destroy (d, x), s))))"

text \<open>
  \<open>HistoryScraper::initPreload\<close> takes a reference before it starts the thread, which gives it
  back at its end.
\<close>

definition init_preload ::
  "bool \<Rightarrow> (string \<Rightarrow> string option) \<Rightarrow> server \<Rightarrow> 'd henv \<Rightarrow> int \<times> xapi \<times> 'd hist \<Rightarrow>
     ((exn + unit) \<times> int \<times> xapi \<times> 'd hist) option" where
  "init_preload stop_update env server e = (\<lambda>(refs, x, s).
     (case inc_ref stop_update refs of
        Inl u \<Rightarrow> Some (Inl (Ub u), refs, x, s)
      | Inr n \<Rightarrow>
          (case worker_run env server e (x, s) of
             None \<Rightarrow> None
           | Some (Inl a, x, s) \<Rightarrow> Some (Inl a, n, x, s)
           | Some (Inr _, x, s) \<Rightarrow> Some (Inr (), dec_ref n, x, s))))"

end
