(* ===== verification/HistoryFacts.thy ===== *)
theory HistoryFacts
  imports History
begin

section \<open>What the history scraper does to the database\<close>

text \<open>
  Every operation of the scraper is built from a few combinators, so a relation between the
  state before and after that is reflexive and transitive holds for an operation if it holds for
  its statements. The locales from \<open>step_rel\<close> to \<open>full_rel\<close> state this once, each for more
  operations; the locale \<open>scraper\<close>, a server that keeps to its contract, is shown to give the relations
  the properties need: the marks of events and the open transaction are left alone, rows of users
  are never lost, and messages are left alone.
\<close>

subsection \<open>Relations kept by operations\<close>

definition within :: "('d hist \<Rightarrow> 'd hist \<Rightarrow> bool) \<Rightarrow> ('d, 'a) act \<Rightarrow> bool" where
  "within R m \<longleftrightarrow> (\<forall>s r t. m s = (r, t) \<longrightarrow> R s t)"

lemma withinD: "within R m \<Longrightarrow> m s = (r, t) \<Longrightarrow> R s t"
  by (simp add: within_def)

locale step_rel =
  fixes R :: "'d hist \<Rightarrow> 'd hist \<Rightarrow> bool"
  assumes refl: "R s s"
    and trans: "R s t \<Longrightarrow> R t u \<Longrightarrow> R s u"
    and quiet: "h_db t = h_db s \<Longrightarrow> user_tg_to_db t = user_tg_to_db s \<Longrightarrow> R s t"
begin

lemma ret: "within R (ret x)"
  by (simp add: within_def ret_def refl)

lemma fail_with: "within R (fail_with x)"
  by (simp add: within_def fail_with_def refl)

lemma get: "within R (get f)"
  by (simp add: within_def get_def refl)

lemma observe: "within R (observe f)"
  by (simp add: within_def observe_def quiet)

lemma put: "(\<And>s. h_db (f s) = h_db s \<and> user_tg_to_db (f s) = user_tg_to_db s) \<Longrightarrow> within R (put f)"
  by (simp add: within_def put_def quiet)

lemma deref: "within R (deref p)"
  by (simp add: deref_def ret fail_with split: option.split)

lemma hbind: "within R m \<Longrightarrow> (\<And>v. within R (f v)) \<Longrightarrow> within R (hbind m f)"
  by (fastforce simp: within_def hbind_def intro: trans split: prod.splits sum.splits)

lemma hseq: "within R m \<Longrightarrow> within R n \<Longrightarrow> within R (hseq m n)"
  by (simp add: hseq_def hbind)

lemma catch_string: "within R m \<Longrightarrow> (\<And>w. within R (h w)) \<Longrightarrow> within R (catch_string m h)"
  by (fastforce simp: within_def catch_string_def intro: trans split: prod.splits sum.splits exn.splits)

lemma get_uint: "within R (get_uint e row i)"
  by (simp add: get_uint_def ret fail_with split: cell.split)

lemma get_flag: "within R (get_flag e row i)"
  by (simp add: get_flag_def ret fail_with split: cell.split)

lemmas combinators = ret fail_with get observe put deref hbind hseq catch_string get_uint get_flag

end

text \<open>
  First the operations that store what belongs to a message, for a relation kept by the statements
  they use.
\<close>

definition stores :: "query \<Rightarrow> bool" where
  "stores q \<longleftrightarrow> q \<in> {QLastInsertId, QInsertForward, QInsertFile, QInsertDataText, QInsertDataFile}"

locale store_rel = step_rel R for R :: "'d hist \<Rightarrow> 'd hist \<Rightarrow> bool" +
  fixes e :: "'d henv"
  assumes store_sql: "stores q \<Longrightarrow> within R (sql e q ps)"
begin

lemma store_sql_unit: "stores q \<Longrightarrow> within R (sql_unit e q ps)"
  by (simp add: sql_unit_def combinators store_sql)

lemma date_now: "within R (date_now e)"
  by (simp add: date_now_def combinators)

lemma last_insert_id: "within R (last_insert_id e)"
  by (auto simp: last_insert_id_def stores_def intro!: combinators store_sql split: list.split)

lemma resolve_file: "within R (resolve_file e f)"
  by (auto simp: resolve_file_def insert_file_def stores_def
      intro!: combinators store_sql date_now last_insert_id split: option.split)

lemma save_forward_info: "within R (save_forward_info e k fwd)"
  by (auto simp: save_forward_info_def Let_def stores_def intro!: combinators store_sql_unit
      split: forward_origin.split)

lemma insert_msg_data_file: "within R (insert_msg_data_file e k m text ents f ed)"
  by (auto simp: insert_msg_data_file_def stores_def
      intro!: combinators store_sql_unit date_now resolve_file)

lemma insert_msg_data_text: "within R (insert_msg_data_text e k m ft ed)"
  by (auto simp: insert_msg_data_text_def stores_def intro!: combinators store_sql_unit date_now)

lemma insert_msg_data: "within R (insert_msg_data e k m ed)"
  by (auto simp: insert_msg_data_def insert_msg_data_kinds intro!: combinators insert_msg_data_file insert_msg_data_text
      split: message_content.split option.split)

end

text \<open>A relation kept by every statement that does not mark events is kept by the operations.\<close>

locale data_rel = store_rel R e for R :: "'d hist \<Rightarrow> 'd hist \<Rightarrow> bool" and e +
  assumes sql: "\<not> marks q \<Longrightarrow> within R (sql e q ps)"
begin

lemmas rules = combinators sql

lemma sql_unit: "\<not> marks q \<Longrightarrow> within R (sql_unit e q ps)"
  by (simp add: sql_unit_def rules)

lemma insert_user: "within R (insert_user e u)"
  by (auto simp: insert_user_def marks_def intro!: rules date_now)

lemma group_out: "within R (group_out c k)"
  by (simp add: group_out_def rules)

lemma group_fetch: "within R (group_fetch e c)"
  by (auto simp: group_fetch_def marks_def intro!: rules group_out split: list.split)

lemma insert_group: "within R (insert_group e c)"
  by (auto simp: insert_group_def marks_def intro!: rules date_now)

lemma resolve_group: "within R (resolve_group e c)"
  by (auto simp: resolve_group_def intro!: rules insert_group group_fetch last_insert_id group_out
      split: option.split)

lemma set_flags: "within R (set_has_edited e k gid)" "within R (set_is_deleted e k gid)"
  by (auto simp: set_has_edited_def set_is_deleted_def marks_def intro!: rules sql_unit date_now)

lemma get_db_msg_id: "within R (get_db_msg_id_if_exists e tg chat)"
  by (auto simp: get_db_msg_id_if_exists_def marks_def intro!: rules split: list.split)

lemma insert_message: "within R (insert_message e m ty uid gid del)"
  by (auto simp: insert_message_def marks_def intro!: rules date_now last_insert_id save_forward_info
      split: option.split)

lemma resolve_message: "within R (resolve_message e m uid gid ed del)"
  by (auto simp: resolve_message_def intro!: rules get_db_msg_id set_flags insert_msg_data insert_message
      split: option.split prod.split)

lemma user_fetch_if: "(\<And>k. within R (user_out u k)) \<Longrightarrow> within R (user_fetch e u)"
  by (auto simp: user_fetch_def marks_def intro!: rules split: list.split)

lemma resolve_user_if: "(\<And>k. within R (user_out u k)) \<Longrightarrow> within R (resolve_user e u)"
  by (auto simp: resolve_user_def intro!: rules insert_user user_fetch_if last_insert_id
      split: option.split)

end

text \<open>Messages as well, for a relation also kept by \<open>resolveUser\<close>.\<close>

locale full_rel = data_rel R e for R :: "'d hist \<Rightarrow> 'd hist \<Rightarrow> bool" and e +
  assumes resolve_user: "within R (resolve_user e u)"
begin

lemma process_message: "within R (process_message e m ed del)"
  by (auto simp: process_message_def intro!: rules resolve_user resolve_group resolve_message
      split: message_sender.split prod.split)

lemma process_action: "within R (process_action e a)"
  by (auto simp: process_action_def intro!: rules process_message split: event_action.split)

end

text \<open>The relations, over what the connection sees.\<close>

definition marks_kept :: "('d \<Rightarrow> conn) \<Rightarrow> 'd hist \<Rightarrow> 'd hist \<Rightarrow> bool" where
  "marks_kept conn s t \<longleftrightarrow>
     gw_tracked (cn_tables (conn (h_db t))) = gw_tracked (cn_tables (conn (h_db s))) \<and>
     cn_saved (conn (h_db t)) = cn_saved (conn (h_db s))"

definition rows_grow :: "('d \<Rightarrow> conn) \<Rightarrow> 'd hist \<Rightarrow> 'd hist \<Rightarrow> bool" where
  "rows_grow conn s t \<longleftrightarrow>
     map_of (gw_users (cn_tables (conn (h_db s)))) \<subseteq>\<^sub>m map_of (gw_users (cn_tables (conn (h_db t)))) \<and>
     map_of (gw_groups (cn_tables (conn (h_db s)))) \<subseteq>\<^sub>m map_of (gw_groups (cn_tables (conn (h_db t))))"

definition users_known :: "('d \<Rightarrow> conn) \<Rightarrow> 'd hist \<Rightarrow> 'd hist \<Rightarrow> bool" where
  "users_known conn s t \<longleftrightarrow> rows_grow conn s t \<and> user_tg_to_db t = user_tg_to_db s"

lemma sql_ok_keeps_marks:
  "sql_ok q ps c rows c' \<Longrightarrow> \<not> marks q \<Longrightarrow>
     gw_tracked (cn_tables c') = gw_tracked (cn_tables c) \<and> cn_saved c' = cn_saved c"
  by (induction rule: sql_ok.induct) (auto simp: marks_def inserted_def set_edited_def)

lemma sql_ok_keeps_rows:
  "sql_ok q ps c rows c' \<Longrightarrow> \<not> marks q \<Longrightarrow>
     map_of (gw_users (cn_tables c)) \<subseteq>\<^sub>m map_of (gw_users (cn_tables c')) \<and>
     map_of (gw_groups (cn_tables c)) \<subseteq>\<^sub>m map_of (gw_groups (cn_tables c'))"
  by (induction rule: sql_ok.induct)
    (auto simp: marks_def inserted_def set_edited_def user_row_def group_row_def map_le_def)

locale scraper = history_db exec conn for exec :: "'d sql_engine" and conn +
  fixes e :: "'d henv"
  assumes exec: "e_exec e = exec"
begin

lemma sql_Inr: "sql e q ps s = (Inr rows, t) \<Longrightarrow>
    sql_ok q ps (conn (h_db s)) rows (conn (h_db t)) \<and> t = s\<lparr>h_db := h_db t\<rparr>"
  using ok by (auto simp: sql_def exec split: prod.splits sum.splits)

lemma sql_Inl: "sql e q ps s = (Inl x, t) \<Longrightarrow>
    conn (h_db t) = conn (h_db s) \<and> (\<exists>w. x = Thrown w) \<and> t = s\<lparr>h_db := h_db t\<rparr>"
  using refused by (auto simp: sql_def exec split: prod.splits sum.splits)

lemma within_sql:
  assumes "\<And>d d' rows. sql_ok q ps (conn d) rows (conn d') \<Longrightarrow> P (conn d) (conn d')"
    and "\<And>c. P c c" and "\<And>s t. R s t \<longleftrightarrow> P (conn (h_db s)) (conn (h_db t))"
  shows "within R (sql e q ps)"
  unfolding within_def
proof (intro allI impI)
  fix s t :: "'d hist" and r
  assume "sql e q ps s = (r, t)"
  then show "R s t" using sql_Inr sql_Inl assms by (cases r) metis+
qed

end

lemma stores_not_marks: "stores q \<Longrightarrow> \<not> marks q"
  by (auto simp: stores_def marks_def)

sublocale scraper \<subseteq> mark: data_rel "marks_kept conn" e
proof -
  have data: "within (marks_kept conn) (sql e q ps)" if "\<not> marks q" for q ps
    using that
    by (intro within_sql [where P = "\<lambda>c c'. gw_tracked (cn_tables c') = gw_tracked (cn_tables c) \<and>
          cn_saved c' = cn_saved c"])
      (auto simp: marks_kept_def dest: sql_ok_keeps_marks)
  show "data_rel (marks_kept conn) e"
    by unfold_locales (auto simp: data stores_not_marks, auto simp: marks_kept_def)
qed

sublocale scraper \<subseteq> mark: full_rel "marks_kept conn" e
proof
  fix u show "within (marks_kept conn) (resolve_user e u)"
  proof (rule mark.resolve_user_if)
    fix k show "within (marks_kept conn) (user_out u k)"
      by (auto simp: marks_kept_def within_def user_out_def hseq_def hbind_def put_def ret_def)
  qed
qed

sublocale scraper \<subseteq> known: data_rel "users_known conn" e
proof -
  have data: "within (users_known conn) (sql e q ps)" if q: "\<not> marks q" for q ps
  proof -
    have "within (rows_grow conn) (sql e q ps)"
      by (intro within_sql [where P = "\<lambda>c c'.
            map_of (gw_users (cn_tables c)) \<subseteq>\<^sub>m map_of (gw_users (cn_tables c')) \<and>
            map_of (gw_groups (cn_tables c)) \<subseteq>\<^sub>m map_of (gw_groups (cn_tables c'))"])
        (use q in \<open>auto simp: rows_grow_def dest: sql_ok_keeps_rows\<close>)
    moreover have "within (\<lambda>s t. user_tg_to_db t = user_tg_to_db s) (sql e q ps)"
      by (auto simp: within_def sql_def split: prod.splits sum.splits)
    ultimately show ?thesis
      by (auto simp: within_def users_known_def)
  qed
  show "data_rel (users_known conn) e"
    by unfold_locales
      (auto simp: data stores_not_marks, auto simp: users_known_def rows_grow_def intro: map_le_trans)
qed

text \<open>Messages change only through the statements about messages.\<close>

definition messages_kept :: "('d \<Rightarrow> conn) \<Rightarrow> 'd hist \<Rightarrow> 'd hist \<Rightarrow> bool" where
  "messages_kept conn s t \<longleftrightarrow>
     gw_messages (cn_tables (conn (h_db t))) = gw_messages (cn_tables (conn (h_db s)))"

lemma sql_ok_keeps_messages:
  "sql_ok q ps c rows c' \<Longrightarrow> stores q \<Longrightarrow> gw_messages (cn_tables c') = gw_messages (cn_tables c)"
  by (induction rule: sql_ok.induct) (auto simp: stores_def inserted_def)

sublocale scraper \<subseteq> message: store_rel "messages_kept conn" e
proof
  fix q ps assume "stores q"
  then show "within (messages_kept conn) (sql e q ps)"
    by (intro within_sql [where P = "\<lambda>c c'. gw_messages (cn_tables c') = gw_messages (cn_tables c)"])
      (auto simp: messages_kept_def dest: sql_ok_keeps_messages)
qed (auto simp: messages_kept_def)

subsection \<open>One event\<close>

text \<open>
  What the scraper's connection sees, and what survives if the connection is lost: the server
  rolls an open transaction back.
\<close>

abbreviation seen :: "('d \<Rightarrow> conn) \<Rightarrow> 'd hist \<Rightarrow> tables" where
  "seen conn s \<equiv> cn_tables (conn (h_db s))"

definition committed :: "('d \<Rightarrow> conn) \<Rightarrow> 'd hist \<Rightarrow> tables" where
  "committed conn s = (case cn_saved (conn (h_db s)) of None \<Rightarrow> seen conn s | Some g \<Rightarrow> g)"

definition at_rest :: "('d \<Rightarrow> conn) \<Rightarrow> 'd hist \<Rightarrow> bool" where
  "at_rest conn s \<longleftrightarrow> cn_saved (conn (h_db s)) = None"

definition relevant :: "chat_event \<Rightarrow> bool" where
  "relevant ev \<longleftrightarrow> ev_action ev \<noteq> EventOther"

definition mark_of :: "chat_event \<Rightarrow> 64 word" where
  "mark_of ev = word_of_int (ev_id ev)"

lemma hseq_simps: "hseq m n s = (case m s of (Inl x, t) \<Rightarrow> (Inl x, t) | (Inr _, t) \<Rightarrow> n t)"
  by (simp add: hseq_def hbind_def)

context scraper begin

lemma sql_unit_cases:
  assumes "sql_unit e q ps s = (r, t)"
  shows "user_tg_to_db t = user_tg_to_db s \<and>
    ((r = Inr () \<and> (\<exists>rows. sql_ok q ps (conn (h_db s)) rows (conn (h_db t)))) \<or>
     (\<exists>x. r = Inl x \<and> conn (h_db t) = conn (h_db s)))"
  using assms sql_Inr [of q ps s] sql_Inl [of q ps s]
  by (cases "sql e q ps s")
    (auto simp: sql_unit_def hseq_simps ret_def sql_def split: prod.splits sum.splits)

lemma track_event_id_cases:
  assumes "track_event_id e i s = (r, t)"
  shows "user_tg_to_db t = user_tg_to_db s \<and>
    ((r = Inr True \<and> (\<exists>rows. sql_ok QTrackEvent [uint_of i] (conn (h_db s)) rows (conn (h_db t)))) \<or>
     (r = Inr False \<and> conn (h_db t) = conn (h_db s) \<and>
        (\<exists>msg d. exec QTrackEvent [uint_of i] (h_db s) = (Inl msg, d))))"
proof (cases "exec QTrackEvent [uint_of i] (h_db s)")
  case (Pair r1 d)
  then show ?thesis
    using assms ok [of QTrackEvent "[uint_of i]" "h_db s"] refused [of QTrackEvent "[uint_of i]" "h_db s"]
    by (cases r1) (auto simp: track_event_id_def catch_string_def hseq_simps ret_def sql_def exec)
qed

text \<open>The statements that open and end a transaction, when they work and when they do not.\<close>

lemma start_cases:
  assumes "at_rest conn s" and "sql e QStart [] s = (r, t)"
  obtains (worked) rows where "r = Inr rows" "user_tg_to_db t = user_tg_to_db s"
      "conn (h_db t) = (conn (h_db s))\<lparr>cn_saved := Some (seen conn s)\<rparr>"
  | (failed) x where "r = Inl x" "committed conn t = seen conn s"
proof (cases r)
  case (Inl x)
  with assms(2) sql_Inl have "conn (h_db t) = conn (h_db s)" by blast
  with Inl assms(1) show thesis by (intro failed) (simp_all add: committed_def at_rest_def)
next
  case (Inr rows)
  with assms(2) sql_Inr have "sql_ok QStart [] (conn (h_db s)) rows (conn (h_db t))"
    "t = s\<lparr>h_db := h_db t\<rparr>" by blast+
  with Inr show thesis
    by (intro worked) (auto elim: sql_ok_elims, metis hist.select_convs(2) hist.surjective hist.update_convs(1))
qed

lemma rollback_cases:
  assumes "cn_saved (conn (h_db s)) = Some g" and "sql_unit e QRollback [] s = (r, t)"
  obtains (worked) "r = Inr ()" "user_tg_to_db t = user_tg_to_db s" "at_rest conn t" "seen conn t = g"
  | (failed) x where "r = Inl x" "committed conn t = g"
proof -
  note c = sql_unit_cases [OF assms(2)]
  from conjunct2 [OF c] show thesis
  proof (elim disjE conjE exE)
    fix rows assume "r = Inr ()" "sql_ok QRollback [] (conn (h_db s)) rows (conn (h_db t))"
    then show thesis using assms(1) c by (intro worked) (auto simp: at_rest_def elim: sql_ok_elims)
  next
    fix x assume "r = Inl x" "conn (h_db t) = conn (h_db s)"
    then show thesis using assms(1) by (intro failed) (simp_all add: committed_def)
  qed
qed

lemma commit_cases:
  assumes "cn_saved (conn (h_db s)) = Some g" and "sql_unit e QCommit [] s = (r, t)"
  obtains (worked) "r = Inr ()" "user_tg_to_db t = user_tg_to_db s" "at_rest conn t" "seen conn t = seen conn s"
  | (failed) x where "r = Inl x" "committed conn t = g"
proof -
  note c = sql_unit_cases [OF assms(2)]
  from conjunct2 [OF c] show thesis
  proof (elim disjE conjE exE)
    fix rows assume "r = Inr ()" "sql_ok QCommit [] (conn (h_db s)) rows (conn (h_db t))"
    then show thesis using assms(1) c by (intro worked) (auto simp: at_rest_def elim: sql_ok_elims)
  next
    fix x assume "r = Inl x" "conn (h_db t) = conn (h_db s)"
    then show thesis using assms(1) by (intro failed) (simp_all add: committed_def)
  qed
qed

text \<open>A new event between its mark and the end of its transaction, which restores \<open>g\<close> if undone.\<close>

lemma store_cases:
  assumes "cn_saved (conn (h_db u)) = Some g"
    and "hseq (process_action e (ev_action ev)) (sql_unit e QCommit []) u = (r, t)"
  obtains (worked) v where "r = Inr ()" "at_rest conn t" "gw_tracked (seen conn t) = gw_tracked (seen conn u)"
      "process_action e (ev_action ev) u = (Inr (), v)"
      "user_tg_to_db t = user_tg_to_db v" "seen conn t = seen conn v"
  | (failed) x where "r = Inl x" "committed conn t = g"
proof -
  obtain r3 v where 3: "process_action e (ev_action ev) u = (r3, v)" by fastforce
  have k: "marks_kept conn u v" using withinD [OF mark.process_action 3] .
  then have g: "cn_saved (conn (h_db v)) = Some g" using assms(1) by (simp add: marks_kept_def)
  show thesis
  proof (cases r3)
    case (Inl x)
    with 3 assms(2) have "r = Inl x" "t = v" by (simp_all add: hseq_simps)
    with g show thesis by (intro failed [of x]) (simp_all add: committed_def)
  next
    case Inr
    with 3 assms(2) have "sql_unit e QCommit [] v = (r, t)" by (simp add: hseq_simps)
    with g show thesis
    proof (cases rule: commit_cases)
      case worked
      with 3 Inr k that(1) show thesis by (simp add: marks_kept_def)
    qed (rule that(2))
  qed
qed

text \<open>
  An event that is of no interest changes nothing; one that was seen before is skipped; a new one
  is stored completely, with its mark, or, if anything fails, nothing of it is committed.
\<close>

lemma process_event_cases:
  assumes "at_rest conn s" and "process_event e ev s = (r, t)"
  obtains (failed) x where "r = Inl x" "committed conn t = seen conn s"
  | (other) "r = Inr ()" "\<not> relevant ev" "t = s"
  | (skipped) msg d d' where "r = Inr ()" "relevant ev" "at_rest conn t" "seen conn t = seen conn s"
      "user_tg_to_db t = user_tg_to_db s" "exec QTrackEvent [PUint (mark_of ev)] d = (Inl msg, d')"
      "gw_tracked (cn_tables (conn d)) = gw_tracked (seen conn s)"
  | (stored) u v where "r = Inr ()" "relevant ev" "at_rest conn t" "mark_of ev \<notin> set (gw_tracked (seen conn s))"
      "gw_tracked (seen conn t) = mark_of ev # gw_tracked (seen conn s)"
      "process_action e (ev_action ev) u = (Inr (), v)" "user_tg_to_db u = user_tg_to_db s"
      "gw_users (seen conn u) = gw_users (seen conn s)"
      "user_tg_to_db t = user_tg_to_db v" "seen conn t = seen conn v"
proof (cases "relevant ev")
  case False
  then show thesis using assms other by (simp add: process_event_def relevant_def ret_def)
next
  case rel: True
  obtain r1 s1 where 1: "sql e QStart [] s = (r1, s1)" by fastforce
  from assms(1) 1 show thesis
  proof (cases rule: start_cases)
    case (failed x)
    with 1 assms(2) rel have "r = Inl x" "t = s1"
      by (simp_all add: process_event_def relevant_def hseq_simps)
    with failed that(1) show thesis by simp
  next
    case (worked rows)
    obtain r2 s2 where 2: "track_event_id e (ev_id ev) s1 = (r2, s2)" by fastforce
    note m2 = conjunct1 [OF track_event_id_cases [OF 2]]
    have rest: "process_event e ev s = hbind (track_event_id e (ev_id ev)) (\<lambda>fresh.
        if \<not> fresh then sql_unit e QRollback []
        else hseq (process_action e (ev_action ev)) (sql_unit e QCommit [])) s1"
      using rel 1 worked(1) by (simp add: process_event_def relevant_def hseq_simps)
    from conjunct2 [OF track_event_id_cases [OF 2]] show thesis
    proof (elim disjE conjE exE)
      fix msg d'
      assume f: "r2 = Inr False" "conn (h_db s2) = conn (h_db s1)"
        and x: "exec QTrackEvent [uint_of (ev_id ev)] (h_db s1) = (Inl msg, d')"
      then have "cn_saved (conn (h_db s2)) = Some (seen conn s)" "sql_unit e QRollback [] s2 = (r, t)"
        using rest 2 assms(2) worked(3) by (simp_all add: hbind_def)
      then show thesis
      proof (cases rule: rollback_cases)
        case d2: worked
        with skipped [OF _ rel _ _ _ x [unfolded uint_of_def mark_of_def [symmetric]]] m2 worked
        show thesis by simp
      qed (rule that(1))
    next
      fix rows' assume r2: "r2 = Inr True"
        and tr: "sql_ok QTrackEvent [uint_of (ev_id ev)] (conn (h_db s1)) rows' (conn (h_db s2))"
      then have c2: "mark_of ev \<notin> set (gw_tracked (seen conn s))"
        "gw_tracked (seen conn s2) = mark_of ev # gw_tracked (seen conn s)"
        "cn_saved (conn (h_db s2)) = Some (seen conn s)" "gw_users (seen conn s2) = gw_users (seen conn s)"
        using worked(3) by (auto simp: uint_of_def mark_of_def elim!: sql_ok_elims)
      have "hseq (process_action e (ev_action ev)) (sql_unit e QCommit []) s2 = (r, t)"
        using rest 2 assms(2) r2 by (simp add: hbind_def)
      with c2(3) show thesis
      proof (cases rule: store_cases)
        case d2: (worked v)
        with stored [OF _ rel _ c2(1), of s2 v] c2 worked m2 show thesis by simp
      qed (rule that(1))
    qed
  qed
qed

end


subsection \<open>A list of events\<close>

context scraper begin

lemma at_rest_committed: "at_rest conn s \<Longrightarrow> committed conn s = seen conn s"
  by (simp add: at_rest_def committed_def)

lemma process_event_failed:
  "at_rest conn s \<Longrightarrow> process_event e ev s = (Inl x, t) \<Longrightarrow> committed conn t = seen conn s"
  by (erule (1) process_event_cases) auto

lemma process_event_done:
  assumes "at_rest conn s" and "process_event e ev s = (Inr (), t)"
  shows "at_rest conn t" and "set (gw_tracked (seen conn s)) \<subseteq> set (gw_tracked (seen conn t))"
    and "(relevant ev \<longrightarrow> mark_of ev \<in> set (gw_tracked (seen conn s))) \<longrightarrow> seen conn t = seen conn s"
proof -
  have "at_rest conn t \<and> set (gw_tracked (seen conn s)) \<subseteq> set (gw_tracked (seen conn t)) \<and>
    ((relevant ev \<longrightarrow> mark_of ev \<in> set (gw_tracked (seen conn s))) \<longrightarrow> seen conn t = seen conn s)"
    using assms
  proof (cases rule: process_event_cases)
    case other
    then show ?thesis using assms(1) by simp
  next
    case skipped
    then show ?thesis by simp
  next
    case stored
    then show ?thesis by (simp add: subset_insertI)
  qed simp
  then show "at_rest conn t" "set (gw_tracked (seen conn s)) \<subseteq> set (gw_tracked (seen conn t))"
    "(relevant ev \<longrightarrow> mark_of ev \<in> set (gw_tracked (seen conn s))) \<longrightarrow> seen conn t = seen conn s"
    by simp_all
qed

lemma process_events_failed:
  assumes "at_rest conn s" and "process_events e evs acc s = (Inl x, t)"
  shows "\<exists>k < length evs. \<exists>m u. process_events e (take k evs) acc s = (Inr m, u) \<and>
    at_rest conn u \<and> committed conn t = seen conn u"
  using assms
proof (induction evs arbitrary: acc s)
  case (Cons ev evs)
  obtain r s1 where 1: "process_event e ev s = (r, s1)" by fastforce
  show ?case
  proof (cases r)
    case (Inl y)
    then have "t = s1" using Cons.prems(2) 1 by (simp add: hseq_simps)
    moreover have "committed conn s1 = seen conn s"
      using process_event_failed [OF Cons.prems(1)] 1 Inl by blast
    ultimately show ?thesis
      using Cons.prems(1) by (intro exI [of _ 0]) (simp add: ret_def)
  next
    case (Inr v)
    have r1: "at_rest conn s1" using process_event_done(1) [OF Cons.prems(1)] 1 Inr by simp
    let ?acc = "Some (case acc of None \<Rightarrow> ev_id ev | Some m \<Rightarrow> if ev_id ev < m then ev_id ev else m)"
    have 2: "process_events e evs ?acc s1 = (Inl x, t)"
      using Cons.prems(2) 1 Inr by (simp add: hseq_simps)
    from Cons.IH [OF r1 2] obtain k m u where "k < length evs"
      "process_events e (take k evs) ?acc s1 = (Inr m, u)" "at_rest conn u"
      "committed conn t = seen conn u" by blast
    then show ?thesis
      using 1 Inr by (intro exI [of _ "Suc k"]) (simp add: hseq_simps)
  qed
qed (simp add: ret_def)

lemma process_events_seen:
  assumes "at_rest conn s" and "process_events e evs acc s = (Inr m, t)"
    and "\<forall>ev \<in> set evs. relevant ev \<longrightarrow> mark_of ev \<in> set (gw_tracked (seen conn s))"
  shows "seen conn t = seen conn s"
  using assms
proof (induction evs arbitrary: acc s)
  case (Cons ev evs)
  then obtain s1 acc1 where 1: "process_event e ev s = (Inr (), s1)"
    and 2: "process_events e evs acc1 s1 = (Inr m, t)"
    by (auto simp: hseq_simps split: prod.splits sum.splits)
  have "at_rest conn s1" "seen conn s1 = seen conn s"
    using process_event_done [OF Cons.prems(1) 1] Cons.prems(3) by simp_all
  with Cons.IH [OF _ 2] Cons.prems(3) show ?case by simp
qed (simp add: ret_def)

lemma process_events_at_rest:
  assumes "at_rest conn s" and "process_events e evs acc s = (Inr m, t)"
  shows "at_rest conn t \<and> set (gw_tracked (seen conn s)) \<subseteq> set (gw_tracked (seen conn t))"
  using assms
proof (induction evs arbitrary: acc s)
  case (Cons ev evs)
  then obtain s1 acc1 where 1: "process_event e ev s = (Inr (), s1)"
    and 2: "process_events e evs acc1 s1 = (Inr m, t)"
    by (auto simp: hseq_simps split: prod.splits sum.splits)
  have "at_rest conn s1 \<and> set (gw_tracked (seen conn s)) \<subseteq> set (gw_tracked (seen conn s1))"
    using process_event_done [OF Cons.prems(1) 1] by simp
  with Cons.IH [OF _ 2] show ?case by blast
qed (simp add: ret_def)

end

text \<open>On a server that does not refuse a new mark, every event of interest ends up marked.\<close>

locale reliable_scraper = scraper exec conn e + reliable_db exec conn
  for exec :: "'d sql_engine" and conn and e
begin

lemma process_event_marks:
  assumes "at_rest conn s" and "process_event e ev s = (Inr (), t)" and "relevant ev"
  shows "mark_of ev \<in> set (gw_tracked (seen conn t))"
  using assms(1,2)
proof (cases rule: process_event_cases)
  case (skipped msg d d')
  have "mark_of ev \<in> set (gw_tracked (cn_tables (conn d)))"
  proof (rule ccontr)
    assume "mark_of ev \<notin> set (gw_tracked (cn_tables (conn d)))"
    from accepts [OF _ sql_ok.track [OF this]] skipped(6) show False by (simp add: marks_def)
  qed
  then show ?thesis using skipped(4,7) by simp
qed (use assms(3) in auto)

lemma process_events_marks:
  assumes "at_rest conn s" and "process_events e evs acc s = (Inr m, t)"
    and "ev \<in> set evs" and "relevant ev"
  shows "mark_of ev \<in> set (gw_tracked (seen conn t))"
  using assms
proof (induction evs arbitrary: acc s)
  case (Cons v evs)
  then obtain s1 acc1 where 1: "process_event e v s = (Inr (), s1)"
    and 2: "process_events e evs acc1 s1 = (Inr m, t)"
    by (auto simp: hseq_simps split: prod.splits sum.splits)
  have r1: "at_rest conn s1" by (rule process_event_done [OF Cons.prems(1) 1])
  show ?case
  proof (cases "ev = v")
    case True
    then show ?thesis
      using process_event_marks [OF Cons.prems(1) 1] process_events_at_rest [OF r1 2] Cons.prems(4) by blast
  next
    case False
    then show ?thesis using Cons.IH [OF r1 2] Cons.prems by simp
  qed
qed simp

end

lemma process_log_events:
  "process_chat_event_log e evs s = (Inr m, t) \<longleftrightarrow>
     (\<exists>k. process_events e evs None s = (Inr k, t) \<and> m = (case k of None \<Rightarrow> - 1 | Some i \<Rightarrow> i))"
  "process_chat_event_log e evs s = (Inl x, t) \<longleftrightarrow> process_events e evs None s = (Inl x, t)"
  by (auto simp: process_chat_event_log_def hbind_def ret_def split: prod.splits sum.splits)

end
