(* ===== verification/HistoryProps.thy ===== *)
theory HistoryProps
  imports HistoryFacts
begin

section \<open>Properties of the history scraper\<close>

text \<open>
  The identifiers of users, messages and files the scraper works with, and the properties of the
  whole, each with a run on the server of \<open>HistoryDb\<close>.
\<close>

subsection \<open>Identifiers of users\<close>

text \<open>Everything remembered about users is what the table says.\<close>

definition cache_ok :: "('d \<Rightarrow> conn) \<Rightarrow> 'd hist \<Rightarrow> bool" where
  "cache_ok conn s \<longleftrightarrow>
     (\<forall>i k. user_tg_to_db s i = Some k \<longrightarrow> k \<noteq> 0 \<and> user_row (word_of_int i) (seen conn s) = Some k)"

lemma user_row_mono:
  "map_of (gw_users g) \<subseteq>\<^sub>m map_of (gw_users g') \<Longrightarrow> user_row t g = Some k \<Longrightarrow> user_row t g' = Some k"
  by (auto simp: user_row_def map_le_def dom_def)

lemma cache_ok_known: "cache_ok conn s \<Longrightarrow> users_known conn s t \<Longrightarrow> cache_ok conn t"
  by (auto simp: cache_ok_def users_known_def rows_grow_def dest: user_row_mono)

lemma cache_ok_same_users:
  "cache_ok conn s \<Longrightarrow> user_tg_to_db t = user_tg_to_db s \<Longrightarrow>
     gw_users (seen conn t) = gw_users (seen conn s) \<Longrightarrow> cache_ok conn t"
  by (simp add: cache_ok_def user_row_def)

text \<open>What \<open>user_out\<close> leaves behind.\<close>

lemma user_out_eq:
  "user_out u k s = (Inr (k, u), s\<lparr>user_tg_to_db := (user_tg_to_db s)(u_id u \<mapsto> k),
                                  user_map := (user_map s)(k \<mapsto> u)\<rparr>)"
  by (simp add: user_out_def hseq_simps put_def ret_def)

lemma cache_ok_user_out:
  assumes "cache_ok conn s" and "k \<noteq> 0" and "user_row (word_of_int (u_id u)) (seen conn s) = Some k"
    and "user_out u k s = (r, t)"
  shows "cache_ok conn t \<and> r = Inr (k, u) \<and> user_row (word_of_int (u_id u)) (seen conn t) = Some k \<and>
    user_tg_to_db t (u_id u) = Some k"
  using assms by (fastforce simp: user_out_eq cache_ok_def split: if_splits)

text \<open>
  A result of \<open>resolveUser\<close> is right if it is the identifier of the user's row and remembered from
  then on, or 0 when the query finds no row with an identifier (it compares signed numbers).
\<close>

definition unlisted :: "user \<Rightarrow> tables \<Rightarrow> bool" where
  "unlisted u g \<longleftrightarrow> sint (word_of_int (u_id u) :: 64 word) < 0 \<or> user_row (word_of_int (u_id u)) g \<in> {None, Some 0}"

definition select_refused :: "'d sql_engine \<Rightarrow> bool" where
  "select_refused exec \<longleftrightarrow> (\<exists>q \<in> {QSelectUser, QLastInsertId}. \<exists>ps d w. fst (exec q ps d) = Inl w)"

definition right_user :: "('d \<Rightarrow> conn) \<Rightarrow> 'd sql_engine \<Rightarrow> user \<Rightarrow> exn + 64 word \<times> user \<Rightarrow> 'd hist \<Rightarrow> bool" where
  "right_user conn exec u r t \<longleftrightarrow> cache_ok conn t \<and>
     (case r of Inl x \<Rightarrow> (\<exists>w. x = Thrown w) \<and> select_refused exec
      | Inr (k, v) \<Rightarrow> v = u \<and>
          (if k = 0 then user_tg_to_db t (u_id u) = None \<and> unlisted u (seen conn t)
           else user_row (word_of_int (u_id u)) (seen conn t) = Some k \<and> user_tg_to_db t (u_id u) = Some k))"

context scraper begin

lemma sql_refused: "sql e q ps s = (Inl x, t) \<Longrightarrow> \<exists>w. fst (exec q ps (h_db s)) = Inl w"
  by (auto simp: sql_def exec split: prod.splits sum.splits)

lemma last_insert_id_cases:
  assumes "last_insert_id e s = (r, t)"
  shows "t = s\<lparr>h_db := h_db t\<rparr> \<and> conn (h_db t) = conn (h_db s) \<and>
    (r = Inr (cn_last_id (conn (h_db s))) \<or> (\<exists>x. r = Inl x) \<and> select_refused exec)"
proof (cases "sql e QLastInsertId [] s")
  case (Pair r1 t1)
  then show ?thesis
  proof (cases r1)
    case (Inl x)
    have "select_refused exec" using sql_refused Pair Inl by (fastforce simp: select_refused_def)
    then show ?thesis using assms Pair Inl sql_Inl [of QLastInsertId "[]" s]
      by (auto simp: last_insert_id_def hbind_def)
  next
    case (Inr rows)
    with sql_Inr Pair have "sql_ok QLastInsertId [] (conn (h_db s)) rows (conn (h_db t1))"
      "t1 = s\<lparr>h_db := h_db t1\<rparr>" by blast+
    then show ?thesis using assms Pair Inr
      by (auto simp: last_insert_id_def hbind_def get_uint_def ret_def elim!: sql_ok_elims)
  qed
qed

lemma last_insert_id_thrown: "last_insert_id e s = (Inl x, t) \<Longrightarrow> \<exists>w. x = Thrown w"
proof -
  assume a: "last_insert_id e s = (Inl x, t)"
  obtain r1 t1 where 1: "sql e QLastInsertId [] s = (r1, t1)" by fastforce
  show ?thesis
  proof (cases r1)
    case (Inl y)
    with sql_Inl 1 have "\<exists>w. y = Thrown w" by blast
    with a 1 Inl show ?thesis by (auto simp: last_insert_id_def hbind_def)
  next
    case (Inr rows)
    with sql_Inr 1 have "sql_ok QLastInsertId [] (conn (h_db s)) rows (conn (h_db t1))" by blast
    with a 1 Inr show ?thesis
      by (auto simp: last_insert_id_def hbind_def get_uint_def ret_def elim!: sql_ok_elims)
  qed
qed

lemma user_fetch_right:
  assumes "cache_ok conn s" and "user_tg_to_db s (u_id u) = None" and "user_fetch e u s = (r, t)"
  shows "right_user conn exec u r t"
proof (cases "sql e QSelectUser [sint_of (u_id u)] s")
  case (Pair r1 s1)
  have c1: "cache_ok conn s1"
    using cache_ok_known [OF assms(1) withinD [OF known.sql Pair]] by (simp add: marks_def)
  have n1: "user_tg_to_db s1 (u_id u) = None"
    using assms(2) withinD [OF known.sql Pair] by (simp add: marks_def users_known_def)
  show ?thesis
  proof (cases r1)
    case (Inl x)
    have "select_refused exec" using sql_refused Pair Inl by (fastforce simp: select_refused_def)
    moreover have "\<exists>w. x = Thrown w" using sql_Inl Pair Inl by blast
    ultimately show ?thesis using assms(3) Pair c1 Inl by (auto simp: user_fetch_def hbind_def right_user_def)
  next
    case (Inr rows)
    with sql_Inr Pair have q: "sql_ok QSelectUser [sint_of (u_id u)] (conn (h_db s)) rows (conn (h_db s1))"
      by blast
    show ?thesis
    proof (cases "rows = []")
      case True
      with q have "unlisted u (seen conn s1)"
        by (auto simp: sint_of_def row_ids_def unlisted_def elim!: sql_ok_elims split: if_splits option.splits)
      with True show ?thesis using assms(3) Pair Inr c1 n1
        by (auto simp: user_fetch_def hbind_def right_user_def ret_def)
    next
      case False
      with q obtain k where k: "rows = [[CUint k]]" "conn (h_db s1) = conn (h_db s)"
        "user_row (word_of_int (u_id u)) (seen conn s) = Some k"
        by (auto simp: sint_of_def row_ids_def elim!: sql_ok_elims split: if_splits option.splits)
      then have f: "user_fetch e u s = (if k \<noteq> 0 then user_out u k s1 else (Inr (0, u), s1))"
        using Pair Inr by (simp add: user_fetch_def hbind_def get_uint_def ret_def)
      show ?thesis
      proof (cases "k = 0")
        case True
        then show ?thesis using f assms(3) c1 n1 k by (auto simp: right_user_def unlisted_def)
      next
        case False
        then have "user_out u k s1 = (r, t)" using f assms(3) by simp
        with cache_ok_user_out [OF c1 False, of u r t] k False show ?thesis by (auto simp: right_user_def)
      qed
    qed
  qed
qed

lemma insert_user_cases:
  assumes "insert_user e u s = (r, t)"
  shows "r = Inr False \<or> (r = Inr True \<and> cn_last_id (conn (h_db t)) \<noteq> 0 \<and>
    user_row (word_of_int (u_id u)) (seen conn t) = Some (cn_last_id (conn (h_db t))))"
proof -
  let ?s = "s\<lparr>h_tick := Suc (h_tick s)\<rparr>" and ?d = "date_by_unix_tm (e_time e (h_tick s))"
  let ?ps = "[uint_of (u_id u), str_of (u_username u), str_of (u_first_name u), str_of (u_last_name u),
    PString ?d]"
  obtain r1 t1 where q: "sql e QInsertUser ?ps ?s = (r1, t1)" by fastforce
  show ?thesis
  proof (cases r1)
    case (Inl x)
    then have "\<exists>w. x = Thrown w" using sql_Inl q by blast
    then show ?thesis using assms q Inl
      by (auto simp: insert_user_def catch_string_def hbind_def hseq_simps date_now_def observe_def ret_def)
  next
    case (Inr rows)
    with sql_Inr q have "sql_ok QInsertUser ?ps (conn (h_db ?s)) rows (conn (h_db t1))" by blast
    moreover have "r = Inr True" "t = t1" using assms q Inr
      by (auto simp: insert_user_def catch_string_def hbind_def hseq_simps date_now_def observe_def ret_def)
    ultimately show ?thesis
      by (auto simp: uint_of_def inserted_def user_row_def elim!: sql_ok_elims)
  qed
qed

lemma resolve_user_cached:
  "user_tg_to_db s (u_id u) = Some k \<Longrightarrow> resolve_user e u s = (Inr (k, u), s)"
  by (simp add: resolve_user_def hbind_def get_def ret_def)

lemma resolve_user_right:
  assumes "cache_ok conn s" and "resolve_user e u s = (r, t)"
  shows "right_user conn exec u r t"
proof (cases "user_tg_to_db s (u_id u)")
  case (Some k)
  with resolve_user_cached [OF Some] assms show ?thesis by (auto simp: right_user_def cache_ok_def)
next
  case None
  obtain r1 s1 where 1: "insert_user e u s = (r1, s1)" by fastforce
  have c1: "cache_ok conn s1" using cache_ok_known [OF assms(1) withinD [OF known.insert_user 1]] .
  have n1: "user_tg_to_db s1 (u_id u) = None"
    using None withinD [OF known.insert_user 1] by (simp add: users_known_def)
  show ?thesis
  proof (cases "r1 = Inr True")
    case True
    then have k: "cn_last_id (conn (h_db s1)) \<noteq> 0"
      "user_row (word_of_int (u_id u)) (seen conn s1) = Some (cn_last_id (conn (h_db s1)))"
      using insert_user_cases [OF 1] by auto
    obtain r2 s2 where 2: "last_insert_id e s1 = (r2, s2)" by fastforce
    have c2: "cache_ok conn s2" using cache_ok_known [OF c1 withinD [OF known.last_insert_id 2]] .
    note l = last_insert_id_cases [OF 2]
    show ?thesis
    proof (cases r2)
      case (Inl x)
      with last_insert_id_thrown [of s1 x s2] 2 l have "\<exists>w. x = Thrown w" "select_refused exec" by auto
      then show ?thesis using assms(2) None 1 2 True c2 Inl
        by (auto simp: resolve_user_def hbind_def get_def right_user_def)
    next
      case (Inr i)
      with l have i: "i = cn_last_id (conn (h_db s1))" "conn (h_db s2) = conn (h_db s1)" by auto
      then have "user_out u i s2 = (r, t)" using assms(2) None 1 2 True Inr k(1)
        by (simp add: resolve_user_def hbind_def get_def)
      with cache_ok_user_out [OF c2, of i u r t] k i show ?thesis by (auto simp: right_user_def)
    qed
  next
    case False
    with insert_user_cases [OF 1] have "r1 = Inr False" by auto
    then have "user_fetch e u s1 = (r, t)" using assms(2) None 1
      by (simp add: resolve_user_def hbind_def get_def)
    with user_fetch_right [OF c1 n1] show ?thesis .
  qed
qed

end


text \<open>So every operation keeps what is remembered about users right.\<close>

definition cache_kept :: "('d \<Rightarrow> conn) \<Rightarrow> 'd hist \<Rightarrow> 'd hist \<Rightarrow> bool" where
  "cache_kept conn s t \<longleftrightarrow> (cache_ok conn s \<longrightarrow> cache_ok conn t)"

sublocale scraper \<subseteq> cache: full_rel "cache_kept conn" e
proof -
  have "within (cache_kept conn) (sql e q ps)" if "\<not> marks q" for q ps
    using known.sql [OF that] cache_ok_known by (fastforce simp: within_def cache_kept_def)
  moreover have "within (cache_kept conn) (resolve_user e u)" for u
    using resolve_user_right by (fastforce simp: within_def cache_kept_def right_user_def)
  moreover have "cache_kept conn s t" if "h_db t = h_db s" "user_tg_to_db t = user_tg_to_db s" for s t
    using that by (simp add: cache_kept_def cache_ok_def)
  ultimately show "full_rel (cache_kept conn) e"
    by unfold_locales (simp_all add: stores_not_marks, simp_all add: cache_kept_def)
qed

context scraper begin

lemma process_event_cache:
  assumes "at_rest conn s" and "cache_ok conn s" and "process_event e ev s = (Inr (), t)"
  shows "cache_ok conn t"
  using assms(1,3)
proof (cases rule: process_event_cases)
  case (stored u v)
  have "cache_ok conn u" using cache_ok_same_users [OF assms(2)] stored by simp
  with withinD [OF cache.process_action stored(6)] have "cache_ok conn v" by (simp add: cache_kept_def)
  then show ?thesis by (rule cache_ok_same_users) (use stored in simp_all)
next
  case (skipped msg d d')
  show ?thesis by (rule cache_ok_same_users [OF assms(2)]) (use skipped in simp_all)
qed (use assms(2) in simp_all)

lemma process_events_cache:
  assumes "at_rest conn s" and "cache_ok conn s" and "process_events e evs acc s = (Inr m, t)"
  shows "cache_ok conn t"
  using assms
proof (induction evs arbitrary: acc s)
  case (Cons ev evs)
  then obtain s1 acc1 where 1: "process_event e ev s = (Inr (), s1)"
    and 2: "process_events e evs acc1 s1 = (Inr m, t)"
    by (auto simp: hseq_simps split: prod.splits sum.splits)
  show ?case
    by (rule Cons.IH [OF process_event_done(1) [OF Cons.prems(1) 1]
          process_event_cache [OF Cons.prems(1,2) 1] 2])
qed (simp add: ret_def)

end


subsection \<open>Identifiers of messages\<close>

text \<open>The identifier a message is stored under is not the one it is looked up with.\<close>

lemma shifted_id_differs:
  assumes "0 < i" and "i < 2 ^ 63"
  shows "word_of_int (i div 2 ^ 20) \<noteq> (word_of_int i :: 64 word)"
proof
  assume e: "word_of_int (i div 2 ^ 20) = (word_of_int i :: 64 word)"
  have "i div 2 ^ 20 < i" using assms(1) by (intro int_div_less_self) simp_all
  moreover have "0 \<le> i div 2 ^ 20" using assms(1) by simp
  ultimately have "uint (word_of_int (i div 2 ^ 20) :: 64 word) = i div 2 ^ 20"
    "uint (word_of_int i :: 64 word) = i"
    using assms by (simp_all add: uint_word_of_int)
  with e \<open>i div 2 ^ 20 < i\<close> show False by simp
qed

definition not_stored :: "64 word \<Rightarrow> tables \<Rightarrow> bool" where
  "not_stored tg g \<longleftrightarrow> (\<forall>(k, r) \<in> set (gw_messages g). mr_tg_msg_id r \<noteq> tg)"

lemma message_rows_none: "not_stored tg g \<Longrightarrow> message_rows tg chat g = []"
  by (auto simp: not_stored_def message_rows_def filter_empty_conv)

text \<open>A row of the message as first stored: under its shifted identifier, not marked edited.\<close>

definition first_row :: "message \<Rightarrow> 64 word \<times> msg_row \<Rightarrow> bool" where
  "first_row m row \<longleftrightarrow>
     mr_tg_msg_id (snd row) = word_of_int (m_id m div 2 ^ 20) \<and> mr_edited (snd row) = ''0''"

lemma first_row_not_stored:
  assumes "not_stored (word_of_int (m_id m)) g" and "0 < m_id m" and "m_id m < 2 ^ 63"
    and "gw_messages g' = row # gw_messages g" and "first_row m row"
  shows "not_stored (word_of_int (m_id m)) g'"
  using assms shifted_id_differs [OF assms(2,3)] by (auto simp: not_stored_def first_row_def)

lemma hbind_Inr:
  "hbind m f s = (Inr v, t) \<longleftrightarrow> (\<exists>x u. m s = (Inr x, u) \<and> f x u = (Inr v, t))"
  by (auto simp: hbind_def split: prod.splits sum.splits)

lemma hseq_Inr:
  "hseq m n s = (Inr v, t) \<longleftrightarrow> (\<exists>x u. m s = (Inr x, u) \<and> n u = (Inr v, t))"
  by (simp add: hseq_def hbind_Inr)

context scraper begin

lemma lookup_none:
  assumes "not_stored tg (seen conn s)" and "get_db_msg_id_if_exists e tg chat s = (Inr v, t)"
  shows "v = (0, False) \<and> conn (h_db t) = conn (h_db s)"
proof -
  obtain rows u where q: "sql e QSelectMessage [PUint tg, PSint chat] s = (Inr rows, u)"
    and r: "(case rows of [] \<Rightarrow> ret (0, False)
       | row # _ \<Rightarrow> hbind (get_uint e row 0) (\<lambda>k. hbind (get_flag e row 1) (\<lambda>b. ret (k, b)))) u = (Inr v, t)"
    using assms(2) unfolding get_db_msg_id_if_exists_def hbind_Inr [of "sql e _ _"] by blast
  from q sql_Inr have "sql_ok QSelectMessage [PUint tg, PSint chat] (conn (h_db s)) rows (conn (h_db u))"
    by blast
  then have "rows = [] \<and> conn (h_db u) = conn (h_db s)"
    using message_rows_none [OF assms(1)] by (auto elim!: sql_ok_elims)
  with r show ?thesis by (auto simp: ret_def)
qed

lemma insert_message_row:
  assumes "insert_message e m ty uid gid del s = (Inr k, t)"
  shows "\<exists>row. gw_messages (seen conn t) = row # gw_messages (seen conn s) \<and> first_row m row \<and> fst row \<noteq> 0 \<and>
    k = fst row"
proof -
  let ?s = "s\<lparr>h_tick := Suc (h_tick s)\<rparr>"
  let ?ps = "[PUint gid, PUint uid, uint_of (m_id m div 2 ^ 20), uint_of (m_reply_to_message_id m div 2 ^ 20),
    PString ty, flag_of (m_forward_info m \<noteq> None), flag_of del,
    PString (date_by_unix_tm (e_time e (h_tick s)))]"
  let ?fwd = "case m_forward_info m of None \<Rightarrow> ret () | Some fwd \<Rightarrow> save_forward_info e k fwd"
  have "hseq (sql e QInsertMessage ?ps) (hbind (last_insert_id e) (\<lambda>k.
      hseq (case m_forward_info m of None \<Rightarrow> ret () | Some fwd \<Rightarrow> save_forward_info e k fwd) (ret k))) ?s =
    (Inr k, t)"
    using assms by (simp add: insert_message_def hbind_def date_now_def observe_def)
  then obtain v s2 s3 where 2: "sql e QInsertMessage ?ps ?s = (Inr v, s2)"
    and 3: "last_insert_id e s2 = (Inr k, s3)" and 4: "?fwd s3 = (Inr (), t)"
    unfolding hseq_Inr hbind_Inr ret_def by auto
  have m4: "messages_kept conn s3 t"
    using 4 by (cases "m_forward_info m")
      (auto simp: ret_def messages_kept_def dest: withinD [OF message.save_forward_info])
  note l = last_insert_id_cases [OF 3]
  from 2 sql_Inr have "sql_ok QInsertMessage ?ps (conn (h_db ?s)) v (conn (h_db s2))" by blast
  then show ?thesis using l m4
    by (auto simp: uint_of_def inserted_def messages_kept_def first_row_def elim!: sql_ok_elims)
qed

lemma resolve_message_inserts:
  assumes "not_stored (word_of_int (m_id m)) (seen conn s)" and "m_content m = Some c"
    and "msg_type c = Some ty" and "resolve_message e m uid gid ed False s = (Inr (), t)"
  shows "\<exists>row. gw_messages (seen conn t) = row # gw_messages (seen conn s) \<and> first_row m row"
proof -
  have step: "resolve_message e m uid gid ed False s =
      hbind (get_db_msg_id_if_exists e (word_of_int (m_id m)) (word_of_int (m_chat_id m)))
        (\<lambda>(k, has_edited).
           hbind (if k \<noteq> 0 then
                    hseq (if ed \<and> \<not> has_edited then set_has_edited e k gid else ret ())
                      (hseq (if ed then insert_msg_data e k m ed else ret ()) (ret k))
                  else hbind (insert_message e m ty uid gid False) (\<lambda>k.
                         hseq (insert_msg_data e k m ed) (ret k))) (\<lambda>_. ret ())) s"
    using assms(2,3) by (simp add: resolve_message_def deref_def hbind_def ret_def)
  then obtain v s1 where 1: "get_db_msg_id_if_exists e (word_of_int (m_id m)) (word_of_int (m_chat_id m)) s
      = (Inr v, s1)"
    using assms(4) unfolding step hbind_Inr [of "get_db_msg_id_if_exists e _ _"] by blast
  note n = lookup_none [OF assms(1) 1]
  have "resolve_message e m uid gid ed False s =
      hbind (hbind (insert_message e m ty uid gid False) (\<lambda>k. hseq (insert_msg_data e k m ed) (ret k)))
        (\<lambda>_. ret ()) s1"
    unfolding step by (subst hbind_def) (simp add: 1 n)
  with assms(4) obtain k s2 x where 2: "insert_message e m ty uid gid False s1 = (Inr k, s2)"
    and 3: "insert_msg_data e k m ed s2 = (Inr x, t)"
    by (auto simp: hbind_Inr hseq_Inr ret_def)
  show ?thesis
    using insert_message_row [OF 2] withinD [OF message.insert_msg_data 3] n
    by (auto simp: messages_kept_def)
qed

end


subsection \<open>Files that cannot be had\<close>

text \<open>The file stored with a message, if it has one.\<close>

definition file_of :: "message_content \<Rightarrow> td_file option" where
  "file_of c =
     (case c of
        MessagePhoto _ photos \<Rightarrow> taken_file photos
      | MessageVideo _ f \<Rightarrow> Some f
      | MessageSticker _ f \<Rightarrow> Some f
      | MessageAnimation _ f \<Rightarrow> Some f
      | MessageDocument _ f \<Rightarrow> Some f
      | MessageAudio _ f \<Rightarrow> Some f
      | _ \<Rightarrow> None)"

lemma insert_msg_data_of_file:
  assumes "m_content m = Some c" and "file_of c = Some f"
  obtains body ents where "insert_msg_data e k m ed = insert_msg_data_file e k m body ents f ed"
proof -
  have body: "insert_msg_data e k m ed = (\<lambda>s. (case c of
         MessageText ft \<Rightarrow> insert_msg_data_text e k m ft ed
       | MessagePhoto cap photos \<Rightarrow> insert_msg_data_photo e k m cap photos ed
       | MessageVideo cap f \<Rightarrow> insert_msg_data_video e k m cap f ed
       | MessageSticker emoji f \<Rightarrow> insert_msg_data_sticker e k m emoji f ed
       | MessageAnimation cap f \<Rightarrow> insert_msg_data_animation e k m cap f ed
       | MessageDocument cap f \<Rightarrow> insert_msg_data_document e k m cap f ed
       | MessageAudio cap f \<Rightarrow> insert_msg_data_audio e k m cap f ed
       | _ \<Rightarrow> ret ()) s)"
    by (rule ext) (simp add: insert_msg_data_def assms(1) deref_def ret_def hbind_def)
  show thesis
    using assms(2) that unfolding body
    by (cases c) (auto simp: file_of_def insert_msg_data_kinds)
qed

text \<open>A file that cannot be downloaded, has no path, or has no digests.\<close>

definition unreadable :: "'d henv \<Rightarrow> td_file \<Rightarrow> bool" where
  "unreadable e f \<longleftrightarrow>
     (\<forall>n. case e_file e n (f_id f) of
            None \<Rightarrow> True
          | Some loc \<Rightarrow> f_path loc = [] \<or> e_md5 e (f_path loc) = None \<or> e_sha1 e (f_path loc) = None)"

lemma resolve_file_none:
  "unreadable e f \<Longrightarrow> resolve_file e f s = (Inr 0, s\<lparr>h_tick := Suc (h_tick s)\<rparr>)"
  by (auto simp: resolve_file_def unreadable_def hbind_def observe_def ret_def
      split: option.split dest!: spec [of _ "h_tick s"])

context scraper begin

lemma insert_data_without_file:
  assumes "unreadable e f" and "0 \<notin> fst ` set (gw_files (seen conn s))"
    and "insert_msg_data_file e k m text ents f ed s = (r, t)"
  shows "(\<exists>w. r = Inl (Thrown w)) \<and> conn (h_db t) = conn (h_db s)"
proof -
  let ?s = "s\<lparr>h_tick := Suc (Suc (h_tick s))\<rparr>"
  let ?ps = "[PUint k, str_of text, ents, PUint 0, flag_of ed, PString (msg_date m ed),
    PString (date_by_unix_tm (e_time e (Suc (h_tick s))))]"
  obtain r1 t1 where 1: "sql e QInsertDataFile ?ps ?s = (r1, t1)" by fastforce
  have "r1 \<noteq> Inr rows" for rows
  proof
    assume "r1 = Inr rows"
    with 1 sql_Inr have "sql_ok QInsertDataFile ?ps (conn (h_db ?s)) rows (conn (h_db t1))" by blast
    then show False using assms(2) by (auto elim!: sql_ok_elims)
  qed
  then obtain x where x: "r1 = Inl x" by (cases r1) auto
  with 1 sql_Inl have "\<exists>w. x = Thrown w" "conn (h_db t1) = conn (h_db ?s)" by blast+
  moreover have "insert_msg_data_file e k m text ents f ed s = (Inl x, t1)"
    using 1 x resolve_file_none [OF assms(1)]
    by (simp add: insert_msg_data_file_def hbind_def date_now_def observe_def sql_unit_def hseq_simps)
  ultimately show ?thesis using assms(3) by simp
qed

end

subsection \<open>The end of the log\<close>

text \<open>What \<open>processChatEventLog\<close> returns is the identifier of an event of the page, or -1.\<close>

lemma process_events_min:
  assumes "process_events e evs acc s = (Inr k, t)"
  shows "(evs = [] \<and> k = acc) \<or> (\<exists>i. k = Some i \<and> (i \<in> ev_id ` set evs \<or> acc = Some i))"
  using assms
proof (induction evs arbitrary: acc s)
  case (Cons ev evs)
  let ?acc = "Some (case acc of None \<Rightarrow> ev_id ev | Some m \<Rightarrow> if ev_id ev < m then ev_id ev else m)"
  from Cons.prems obtain s1 where "process_events e evs ?acc s1 = (Inr k, t)"
    by (auto simp: hseq_Inr)
  from Cons.IH [OF this] show ?case by (auto split: option.splits if_splits)
qed (simp add: ret_def)

lemma log_min:
  assumes "process_chat_event_log e evs s = (Inr m, t)"
  shows "m = - 1 \<or> m \<in> ev_id ` set evs"
  using assms process_events_min [of e evs None s]
  by (fastforce simp: process_log_events split: option.splits)

definition older_pages :: "'d henv \<Rightarrow> int \<Rightarrow> bool" where
  "older_pages e chat \<longleftrightarrow>
     (\<forall>n m evs ev. e_events e n chat m = Some evs \<longrightarrow> ev \<in> set evs \<longrightarrow>
        0 < ev_id ev \<and> (m \<noteq> 0 \<longrightarrow> ev_id ev < m))"

lemma gather_step:
  "gather e chat m s =
     (if m = - 1 then Some (Inr (), s)
      else let s1 = s\<lparr>h_tick := Suc (h_tick s)\<rparr> in
           case e_events e (h_tick s) chat m of
             None \<Rightarrow> Some (Inr (), s1)
           | Some evs \<Rightarrow>
               (case process_chat_event_log e evs s1 of
                  (Inl x, s) \<Rightarrow> Some (Inl x, s)
                | (Inr m, s) \<Rightarrow> gather e chat m s))"
  by (subst gather.simps) (simp add: observe_def Let_def split: option.split)

lemma gather_ends_from:
  assumes "older_pages e chat"
  shows "0 < m \<Longrightarrow> \<exists>r t. gather e chat m s = Some (r, t)"
proof (induction "nat m" arbitrary: m s rule: less_induct)
  case less
  have "\<exists>r t. (case process_chat_event_log e evs s1 of
      (Inl x, s) \<Rightarrow> Some (Inl x, s) | (Inr m, s) \<Rightarrow> gather e chat m s) = Some (r, t)"
    if evs: "e_events e n chat m = Some evs" for evs n s1
  proof (cases "process_chat_event_log e evs s1")
    case (Pair r t)
    show ?thesis
    proof (cases r)
      case (Inr i)
      from log_min [OF Pair [unfolded Inr]]
      have "i = - 1 \<or> (0 < i \<and> i < m)" using assms evs less(2) by (auto simp: older_pages_def)
      then have "\<exists>r' t'. gather e chat i t = Some (r', t')"
        using less(1) [of i t] by (auto simp: gather_step [of e chat "- 1"])
      then show ?thesis using Pair Inr by simp
    qed (use Pair in simp)
  qed
  then show ?case by (subst gather_step) (auto simp: Let_def split: option.split)
qed

lemma gather_ends:
  assumes "older_pages e chat"
  shows "\<exists>r t. gather e chat 0 s = Some (r, t)"
proof -
  have "\<exists>r t. (case process_chat_event_log e evs s1 of
      (Inl x, s) \<Rightarrow> Some (Inl x, s) | (Inr m, s) \<Rightarrow> gather e chat m s) = Some (r, t)"
    if evs: "e_events e n chat 0 = Some evs" for evs n s1
  proof (cases "process_chat_event_log e evs s1")
    case (Pair r t)
    show ?thesis
    proof (cases r)
      case (Inr i)
      from log_min [OF Pair [unfolded Inr]]
      have "i = - 1 \<or> 0 < i" using assms evs by (auto simp: older_pages_def)
      then have "\<exists>r' t'. gather e chat i t = Some (r', t')"
        using gather_ends_from [OF assms] by (auto simp: gather_step [of e chat "- 1"])
      then show ?thesis using Pair Inr by simp
    qed (use Pair in simp)
  qed
  then show ?thesis by (subst gather_step) (auto simp: Let_def split: option.split)
qed

text \<open>
  A chat's log, the latest event first, and a Telegram that serves it: a request for the events
  before \<open>m\<close> is answered with the next of them, at least one if there is one, or not at all.
\<close>

definition older :: "chat_event list \<Rightarrow> int \<Rightarrow> chat_event list" where
  "older log m = (if m = 0 then log else filter (\<lambda>ev. ev_id ev < m) log)"

definition serves_log :: "'d henv \<Rightarrow> int \<Rightarrow> chat_event list \<Rightarrow> bool" where
  "serves_log e chat log \<longleftrightarrow> sorted_wrt (\<lambda>a b. ev_id b < ev_id a) log \<and> (\<forall>ev \<in> set log. 0 < ev_id ev) \<and>
     (\<forall>n m. e_events e n chat m = None \<or> (\<exists>k > 0. e_events e n chat m = Some (take k (older log m))))"

lemma serves_older:
  assumes "serves_log e chat log"
  shows "older_pages e chat"
  unfolding older_pages_def
proof (intro allI impI)
  fix n m evs ev assume evs: "e_events e n chat m = Some evs" "ev \<in> set evs"
  with assms obtain k where "evs = take k (older log m)" unfolding serves_log_def by (metis option.distinct(1) option.inject)
  with evs(2) have "ev \<in> set (older log m)" by (auto dest: in_set_takeD)
  with assms show "0 < ev_id ev \<and> (m \<noteq> 0 \<longrightarrow> ev_id ev < m)"
    by (auto simp: older_def serves_log_def split: if_split_asm)
qed

text \<open>Processing pages one after the other, each a request later.\<close>

definition tick :: "'d hist \<Rightarrow> 'd hist" where
  "tick s = s\<lparr>h_tick := Suc (h_tick s)\<rparr>"

fun read_pages :: "'d henv \<Rightarrow> chat_event list list \<Rightarrow> ('d, unit) act" where
  "read_pages e [] s = (Inr (), s)"
| "read_pages e (p # ps) s =
     (case process_chat_event_log e p (tick s) of
        (Inl x, t) \<Rightarrow> (Inl x, t)
      | (Inr _, t) \<Rightarrow> read_pages e ps t)"

definition next_min :: "chat_event \<Rightarrow> int option \<Rightarrow> int option" where
  "next_min ev acc = Some (case acc of None \<Rightarrow> ev_id ev | Some m \<Rightarrow> if ev_id ev < m then ev_id ev else m)"

lemma process_events_result: "process_events e evs acc s = (Inr k, t) \<Longrightarrow> k = fold next_min evs acc"
  by (induction evs arbitrary: acc s) (auto simp: hseq_Inr ret_def next_min_def)

lemma fold_next_min:
  "sorted_wrt (\<lambda>a b. ev_id b < ev_id a) evs \<Longrightarrow> evs \<noteq> [] \<Longrightarrow>
   (\<And>m ev. acc = Some m \<Longrightarrow> ev \<in> set evs \<Longrightarrow> ev_id ev < m) \<Longrightarrow>
   fold next_min evs acc = Some (ev_id (last evs))"
proof (induction evs arbitrary: acc)
  case (Cons ev evs)
  have 1: "next_min ev acc = Some (ev_id ev)" using Cons.prems(3) by (cases acc) (auto simp: next_min_def)
  show ?case
  proof (cases "evs = []")
    case False
    have "fold next_min evs (Some (ev_id ev)) = Some (ev_id (last evs))"
      by (rule Cons.IH) (use Cons.prems(1) False in auto)
    with 1 False show ?thesis by simp
  qed (simp add: 1)
qed simp

lemma page_min:
  assumes "sorted_wrt (\<lambda>a b. ev_id b < ev_id a) p" and "process_chat_event_log e p s = (Inr m, t)"
  shows "m = (if p = [] then - 1 else ev_id (last p))"
proof -
  obtain k where k: "process_events e p None s = (Inr k, t)" "m = (case k of None \<Rightarrow> - 1 | Some m \<Rightarrow> m)"
    using assms(2) by (auto simp: process_chat_event_log_def hbind_def ret_def split: prod.splits sum.splits)
  from process_events_result [OF k(1)] fold_next_min [OF assms(1), of None] k(2) show ?thesis
    by (cases "p = []") auto
qed

lemma older_page:
  assumes "sorted_wrt (\<lambda>a b. ev_id b < ev_id a) (A @ p @ B)" and "p \<noteq> []" and "\<forall>ev \<in> set p. 0 < ev_id ev"
  shows "older (A @ p @ B) (ev_id (last p)) = B"
proof -
  obtain q x where p: "p = q @ [x]" using assms(2) by (cases p rule: rev_cases) auto
  with assms(1,3) show ?thesis
    by (force simp: older_def sorted_wrt_append filter_empty_conv intro!: filter_True)
qed

lemma gather_pages:
  assumes "serves_log e chat log"
  shows "m \<noteq> - 1 \<Longrightarrow> log = A @ L \<Longrightarrow> older log m = L \<Longrightarrow>
    \<exists>pages later r t. L = concat pages @ later \<and> [] \<notin> set pages \<and> read_pages e pages s = (r, t) \<and>
      gather e chat m s = Some (r, if r = Inr () then tick t else t) \<and>
      (later = [] \<or> r \<noteq> Inr () \<or> (\<exists>m. e_events e (h_tick t) chat m = None))"
proof (induction "length L" arbitrary: A L m s rule: less_induct)
  case less
  note log = assms [unfolded serves_log_def]
  have step: "gather e chat m s = (case e_events e (h_tick s) chat m of
      None \<Rightarrow> Some (Inr (), tick s)
    | Some evs \<Rightarrow> (case process_chat_event_log e evs (tick s) of
        (Inl x, s) \<Rightarrow> Some (Inl x, s) | (Inr m, s) \<Rightarrow> gather e chat m s))"
    using less.prems(1) by (subst gather_step) (simp add: Let_def tick_def split: option.split)
  show ?case
  proof (cases "e_events e (h_tick s) chat m")
    case None
    with step show ?thesis
      by (intro exI [of _ "[]"] exI [of _ L] exI [of _ "Inr ()"] exI [of _ s]) auto
  next
    case (Some evs)
    with log obtain k where k: "0 < k" "evs = take k (older log m)" by (metis option.distinct(1) option.inject)
    let ?p = "take k L" and ?B = "drop k L"
    have evs: "evs = ?p" using k(2) less.prems(3) by simp
    have sorted: "sorted_wrt (\<lambda>a b. ev_id b < ev_id a) (A @ ?p @ ?B)" using log less.prems(2) by simp
    then have sp: "sorted_wrt (\<lambda>a b. ev_id b < ev_id a) ?p" by (simp add: sorted_wrt_append del: append_take_drop_id)
    obtain r t where r: "process_chat_event_log e ?p (tick s) = (r, t)" by fastforce
    show ?thesis
    proof (cases r)
      case (Inl x)
      have "L \<noteq> []"
      proof
        assume "L = []"
        with r Inl show False by (simp add: process_chat_event_log_def hbind_def ret_def)
      qed
      with k(1) Inl r step Some evs show ?thesis
        by (intro exI [of _ "[?p]"] exI [of _ ?B] exI [of _ "Inl x"] exI [of _ t]) simp
    next
      case (Inr i)
      from page_min [OF sp r [unfolded Inr]] have i: "i = (if ?p = [] then - 1 else ev_id (last ?p))" .
      show ?thesis
      proof (cases "L = []")
        case True
        with r Inr i have "t = tick s"
          by (simp add: process_chat_event_log_def hbind_def ret_def)
        with True i r Inr step Some evs show ?thesis
          by (intro exI [of _ "[]"] exI [of _ "[]"] exI [of _ "Inr ()"] exI [of _ s])
            (simp add: gather_step [of e chat "- 1"])
      next
        case False
        with k(1) have p: "?p \<noteq> []" by simp
        have pos: "\<forall>ev \<in> set ?p. 0 < ev_id ev" using log less.prems(2) by (auto dest: in_set_takeD)
        have old: "older log i = ?B"
          using older_page [OF sorted p pos] i p less.prems(2) by simp
        have "0 < i" using i p pos by simp
        then have i1: "i \<noteq> - 1" by simp
        have shorter: "length ?B < length L" using False k(1) by simp
        have log': "log = (A @ ?p) @ ?B" using less.prems(2) by simp
        from less.hyps [OF shorter i1 log' old, of t] obtain pages later r' t' where
          ih: "?B = concat pages @ later" "[] \<notin> set pages" "read_pages e pages t = (r', t')"
          "gather e chat i t = Some (r', if r' = Inr () then tick t' else t')"
          "later = [] \<or> r' \<noteq> Inr () \<or> (\<exists>m. e_events e (h_tick t') chat m = None)" by blast
        have "L = concat (?p # pages) @ later" using ih(1) by (metis append_take_drop_id append_assoc concat.simps(2))
        with ih(2-5) p r Inr step Some evs show ?thesis
          by (intro exI [of _ "?p # pages"] exI [of _ later] exI [of _ r'] exI [of _ t']) simp
      qed
    qed
  qed
qed

subsection \<open>Dates\<close>

text \<open>
  The format prints the hour twice and never the minute: two moments of the same hour with the
  same second are stored as the same text.
\<close>

lemma date_drops_minutes:
  assumes "t div 3600 = u div 3600" and "t mod 60 = u mod 60"
  shows "date_by_unix_tm t = date_by_unix_tm u"
proof -
  have d: "x div 86400 = (x div 3600) div 24" for x :: int
    using zdiv_zmult2_eq [of 24 x 3600] by simp
  have h: "x mod 86400 div 3600 = (x div 3600) mod 24" for x :: int
  proof -
    have "x mod 86400 = 3600 * (x div 3600 mod 24) + x mod 3600"
      using zmod_zmult2_eq [of 24 x 3600] by simp
    moreover have "0 \<le> x mod 3600" "x mod 3600 < 3600" by simp_all
    ultimately show ?thesis by (simp add: div_add1_eq)
  qed
  have s: "x mod 86400 mod 60 = x mod 60" for x :: int
    by (simp add: mod_mod_cancel)
  show ?thesis by (simp add: date_by_unix_tm_def Let_def d h s assms)
qed

lemma date_example: "date_by_unix_tm 1626883211 = ''2021-07-21 16:04:11''"
  by code_simp


subsection \<open>A scraper on the server of database.sql\<close>

text \<open>
  Every user and chat is known to Telegram, no file can be downloaded, the log has one event, and
  the clock stands at 0. The tables hold one user and one group.
\<close>

definition text_message_of :: "int \<Rightarrow> message_sender \<Rightarrow> message" where
  "text_message_of i sender = \<lparr>m_id = i * 2 ^ 20, m_sender = sender, m_chat_id = 9,
     m_date = 0, m_edit_date = 0, m_forward_info = None, m_reply_in_chat_id = 0,
     m_reply_to_message_id = 0, m_content = Some (MessageText \<lparr>ft_text = ''hi'', ft_entities = []\<rparr>)\<rparr>"

definition deleted_event :: "int \<Rightarrow> message_sender \<Rightarrow> chat_event" where
  "deleted_event i sender = \<lparr>ev_id = i, ev_action = EventMessageDeleted (text_message_of 5 sender)\<rparr>"

definition sticker :: td_file where
  "sticker = \<lparr>f_id = 3, f_size = 10, f_path = [], f_downloaded_size = 0, f_remote_id = [], f_unique_id = []\<rparr>"

definition user_42 :: user where
  "user_42 = \<lparr>u_id = 42, u_username = ''u'', u_first_name = ''f'', u_last_name = ''l''\<rparr>"

definition my_env :: "schema \<Rightarrow> mysql henv" where
  "my_env sc = \<lparr>e_exec = my_exec sc, e_time = (\<lambda>_. 0), e_user = (\<lambda>_ _. Some user_42),
     e_chat = (\<lambda>_ i. Some \<lparr>c_id = i, c_title = ''c''\<rparr>), e_file = (\<lambda>_ _. None),
     e_events = (\<lambda>_ _ m. Some (if m = 0 then [deleted_event 7 (SenderChat 9)] else [])),
     e_md5 = (\<lambda>_. None), e_sha1 = (\<lambda>_. None), e_entities = (\<lambda>_. []), e_cell_error = []\<rparr>"

definition hist_init :: "mysql hist" where
  "hist_init = \<lparr>h_db = my_init\<lparr>my_conn := \<lparr>cn_tables = empty_tables\<lparr>gw_users := [(41, 1, [])],
        gw_groups := [(9, 1, [])]\<rparr>, cn_saved = None, cn_last_id = 0\<rparr>, my_next := (\<lambda>_. 2)\<rparr>,
     user_tg_to_db = (\<lambda>_. None), group_tg_to_db = (\<lambda>_. None),
     user_map = (\<lambda>_. None), group_map = (\<lambda>_. None), h_tick = 0, h_renamed = []\<rparr>"

interpretation my_scraper: reliable_scraper "my_exec sc" my_conn "my_env sc" for sc
  by unfold_locales (simp add: my_env_def)

lemma date_zero [simp]: "date_by_unix_tm 0 = ''1970-01-01 00:12:00''"
  by code_simp

lemmas act_defs = ret_def fail_with_def hbind_def hseq_def catch_string_def get_def put_def observe_def
  deref_def sql_def sql_unit_def get_uint_def get_flag_def uint_of_def sint_of_def str_of_def flag_of_def
  date_now_def last_insert_id_def

lemmas run_defs = act_defs process_log_events user_out_def user_fetch_def insert_user_def resolve_user_def
  resolve_group_def insert_group_def group_fetch_def group_out_def
  resolve_message_def get_db_msg_id_if_exists_def insert_message_def insert_msg_data_def insert_msg_data_kinds
  insert_msg_data_text_def entities_param_def msg_date_def msg_type_def
  process_message_def process_action_def track_event_id_def process_event_def

lemmas db_defs = my_env_def hist_init_def my_init_def empty_tables_def my_set_conn_def bad_query_def
  on_tables_def my_insert_def my_data_def inserted_def user_row_def group_row_def ids_of_def row_ids_def
  message_rows_def text_message_of_def deleted_event_def user_42_def

subsection \<open>Properties\<close>

text \<open>
  C2: The event log is stored event by event, all or nothing: if processing it ends with an
  exception, which ends the process and makes the server roll back the open transaction, what is
  left in the database is what storing some first events completely leaves.
\<close>

theorem history_all_or_nothing:
  assumes "scraper exec conn e" and "at_rest conn s"
    and "process_chat_event_log e evs s = (Inl x, t)"
  shows "\<exists>k < length evs. \<exists>m u. process_chat_event_log e (take k evs) s = (Inr m, u) \<and>
    at_rest conn u \<and> committed conn t = seen conn u"
proof -
  from assms(3) have "process_events e evs None s = (Inl x, t)" by (simp add: process_log_events)
  from scraper.process_events_failed [OF assms(1,2) this] show ?thesis
    by (auto simp: process_log_events)
qed

lemma shipped_schema_refuses:
  "\<exists>w t. process_chat_event_log (my_env Shipped) [deleted_event 7 (SenderUser 42)] hist_init = (Inl (Thrown w), t)"
  by (simp add: run_defs db_defs)

lemma hist_init_at_rest: "at_rest my_conn hist_init"
  by (simp add: at_rest_def hist_init_def)

theorem history_all_or_nothing_witness:
  "\<exists>x t. process_chat_event_log (my_env Shipped) [deleted_event 7 (SenderUser 42)] hist_init = (Inl x, t) \<and>
     (\<exists>k < length [deleted_event 7 (SenderUser 42)]. \<exists>m u.
        process_chat_event_log (my_env Shipped) (take k [deleted_event 7 (SenderUser 42)]) hist_init = (Inr m, u) \<and>
        at_rest my_conn u \<and> committed my_conn t = seen my_conn u)"
proof -
  obtain x t where "process_chat_event_log (my_env Shipped) [deleted_event 7 (SenderUser 42)] hist_init = (Inl x, t)"
    using shipped_schema_refuses by blast
  with history_all_or_nothing [OF my_scraper.scraper_axioms hist_init_at_rest this] show ?thesis by blast
qed

text \<open>
  C9: Every event is stored at most once: on a server that refuses a mark only if the event is
  marked, processing events that were all processed before, in any order and whatever Telegram
  answers the second time, leaves the tables as they are.
\<close>

theorem history_stored_once:
  assumes "reliable_scraper exec conn e" and "scraper exec conn e'" and "at_rest conn s"
    and "process_chat_event_log e evs s = (Inr m, t)"
    and "process_chat_event_log e' evs' t = (Inr m', u)" and "set evs' \<subseteq> set evs"
  shows "seen conn u = seen conn t"
proof -
  note sc = reliable_scraper.axioms(1) [OF assms(1)]
  obtain k k' where 1: "process_events e evs None s = (Inr k, t)"
    and 2: "process_events e' evs' None t = (Inr k', u)"
    using assms(4,5) by (auto simp: process_log_events)
  show ?thesis
    by (rule scraper.process_events_seen [OF assms(2) _ 2])
      (use scraper.process_events_at_rest [OF sc assms(3) 1]
        reliable_scraper.process_events_marks [OF assms(1,3) 1] assms(6) in auto)
qed

definition after_log :: "mysql hist" where
  "after_log = hist_init\<lparr>h_db := (h_db hist_init)\<lparr>my_conn := (my_conn (h_db hist_init))\<lparr>
     cn_tables := (seen my_conn hist_init)\<lparr>gw_tracked := [7]\<rparr>\<rparr>\<rparr>\<rparr>"

lemma after_log_eq:
  "process_chat_event_log (my_env Extended) [deleted_event 7 (SenderChat 9)] hist_init = (Inr 7, after_log)"
  by (simp add: run_defs db_defs after_log_def)

lemma log_again:
  "process_chat_event_log (my_env Extended) [deleted_event 7 (SenderChat 9)] after_log = (Inr 7, after_log)"
  by (simp add: run_defs db_defs after_log_def)

theorem history_stored_once_witness:
  "\<exists>u. process_chat_event_log (my_env Extended) [deleted_event 7 (SenderChat 9)] after_log = (Inr 7, u) \<and>
     gw_tracked (seen my_conn u) = [7]"
proof -
  have "seen my_conn after_log = seen my_conn after_log"
    by (rule history_stored_once [OF my_scraper.reliable_scraper_axioms my_scraper.scraper_axioms
          hist_init_at_rest after_log_eq log_again]) simp
  then show ?thesis using log_again by (simp add: after_log_def)
qed


lemma user_42_new: "\<exists>w. resolve_user (my_env Extended) user_42 after_log = (Inr (2, user_42), w)"
  by (simp add: run_defs db_defs after_log_def)

lemma hist_init_cache: "cache_ok my_conn hist_init"
  by (simp add: cache_ok_def hist_init_def)


text \<open>
  C34: The message of an edit event is stored twice: rows carry the shifted identifier and are
  looked up with the unshifted one, so the edited version does not find the row of the old one,
  gets a row of its own, and neither row is marked as edited.
\<close>

theorem edited_message_stored_twice:
  assumes "scraper exec conn e" and "not_stored (word_of_int (m_id old)) (seen conn s)"
    and "m_id new = m_id old" and "0 < m_id old" and "m_id old < 2 ^ 63"
    and "m_content old = Some c" and "msg_type c \<noteq> None"
    and "m_content new = Some c'" and "msg_type c' \<noteq> None"
    and "resolve_message e old uid gid False False s = (Inr (), t)"
    and "resolve_message e new uid' gid' True False t = (Inr (), u)"
  shows "\<exists>row row'. gw_messages (seen conn u) = row' # row # gw_messages (seen conn s) \<and>
    mr_tg_msg_id (snd row) = mr_tg_msg_id (snd row') \<and>
    mr_edited (snd row) = ''0'' \<and> mr_edited (snd row') = ''0''"
proof -
  obtain ty ty' where ty: "msg_type c = Some ty" "msg_type c' = Some ty'" using assms(7,9) by blast
  obtain row where 1: "gw_messages (seen conn t) = row # gw_messages (seen conn s)" "first_row old row"
    using scraper.resolve_message_inserts [OF assms(1,2,6) ty(1) assms(10)] by blast
  then have n: "not_stored (word_of_int (m_id new)) (seen conn t)"
    using first_row_not_stored [OF assms(2,4,5)] assms(3) by simp
  obtain row' where "gw_messages (seen conn u) = row' # gw_messages (seen conn t)" "first_row new row'"
    using scraper.resolve_message_inserts [OF assms(1) n assms(8) ty(2) assms(11)] by blast
  with 1 assms(3) show ?thesis by (auto simp: first_row_def)
qed

lemma edit_runs:
  "\<exists>t u. resolve_message (my_env Extended) (text_message_of 6 (SenderUser 41)) 1 1 False False hist_init = (Inr (), t) \<and>
     resolve_message (my_env Extended) (text_message_of 6 (SenderUser 41)) 1 1 True False t = (Inr (), u)"
  by (simp add: run_defs db_defs)

theorem edited_message_stored_twice_witness:
  "\<exists>(u :: mysql hist) row row'. gw_messages (seen my_conn u) = row' # row # gw_messages (seen my_conn hist_init) \<and>
     mr_tg_msg_id (snd row) = mr_tg_msg_id (snd row')"
proof -
  let ?m = "text_message_of 6 (SenderUser 41)"
  obtain t u where 1: "resolve_message (my_env Extended) ?m 1 1 False False hist_init = (Inr (), t)"
    and 2: "resolve_message (my_env Extended) ?m 1 1 True False t = (Inr (), u)"
    using edit_runs by blast
  have n: "not_stored (word_of_int (m_id ?m)) (seen my_conn hist_init)"
    by (simp add: not_stored_def hist_init_def empty_tables_def)
  let ?c = "MessageText \<lparr>ft_text = ''hi'', ft_entities = []\<rparr>"
  have c: "m_content ?m = Some ?c" "msg_type ?c \<noteq> None" by (simp_all add: text_message_of_def msg_type_def)
  have "\<exists>row row'. gw_messages (seen my_conn u) = row' # row # gw_messages (seen my_conn hist_init) \<and>
    mr_tg_msg_id (snd row) = mr_tg_msg_id (snd row') \<and>
    mr_edited (snd row) = ''0'' \<and> mr_edited (snd row') = ''0''"
    by (rule edited_message_stored_twice [OF my_scraper.scraper_axioms n _ _ _ c c 1 2])
      (simp_all add: text_message_of_def)
  then show ?thesis by blast
qed

text \<open>
  C18: If Telegram answers with older events only, as it documents, the call returns, whatever the
  database answers on the way. If moreover its answers are the next events of the chat's log,
  of whatever number, the scraper processes the log from its latest event down, page by page and
  without a gap, and goes on to its last event, unless the processing of an event throws,
  which ends the run with that exception, or Telegram leaves a request unanswered.
\<close>

theorem gather_terminates:
  assumes "older_pages e chat"
  shows "(\<exists>r t. gather_chat_event_log e chat s = Some (r, t)) \<and>
    (\<forall>log. serves_log e chat log \<longrightarrow>
      (\<exists>pages later r t. log = concat pages @ later \<and> [] \<notin> set pages \<and> read_pages e pages s = (r, t) \<and>
         gather_chat_event_log e chat s = Some (r, if r = Inr () then tick t else t) \<and>
         (later = [] \<or> r \<noteq> Inr () \<or> (\<exists>m. e_events e (h_tick t) chat m = None))))"
  using gather_ends [OF assms, of s] gather_pages [of e chat _ 0 "[]" _ s]
  by (simp add: gather_chat_event_log_def older_def)

definition two_events :: "chat_event list" where
  "two_events = [deleted_event 9 (SenderChat 9), deleted_event 7 (SenderChat 9)]"

definition paged_env :: "mysql henv" where
  "paged_env = (my_env Extended)\<lparr>e_events := (\<lambda>_ _ m. Some (take 1 (older two_events m)))\<rparr>"

lemma paged_env_serves: "serves_log paged_env gnuweeb two_events"
  by (auto simp: serves_log_def paged_env_def two_events_def deleted_event_def)

theorem gather_terminates_witness:
  "\<exists>pages later r t. two_events = concat pages @ later \<and> read_pages paged_env pages hist_init = (r, t) \<and>
     gather_chat_event_log paged_env gnuweeb hist_init = Some (r, if r = Inr () then tick t else t)"
  using gather_terminates [OF serves_older [OF paged_env_serves], of hist_init] paged_env_serves by blast

text \<open>A thread that ends well has given its reference back and left no session open.\<close>

lemma init_preload_balanced:
  assumes "owns_all {} x" and "init_preload stop env server e (n, x, s) = Some (Inr (), n', x', s')"
  shows "n' = n \<and> x_sessions x' = {}"
proof -
  obtain d y s1 where c: "create_db env server x = (Inr d, y)" and n: "n' = n" "x' = old_db_destroy (d, y)"
    using assms(2) by (auto simp: init_preload_def worker_run_def inc_ref_def dec_ref_def
        split: if_splits option.splits sum.splits prod.splits)
  from c have "db_sess d \<noteq> None \<and> x_sessions y = insert (the (db_sess d)) (x_sessions x)"
    by (auto simp: create_db_def old_db_connect_def mysqlx_get_session_def Let_def
        split: sum.splits prod.splits option.splits)
  moreover have "x_sessions x = {}" using assms(1) by (simp add: owns_all_def)
  ultimately show ?thesis using n by (auto simp: old_db_destroy_def mysqlx_session_close_def)
qed

end
