(* ===== verification/HistoryEnd.thy ===== *)
theory HistoryEnd
  imports HistoryProps
begin

section \<open>A file that cannot be had ends the scraper\<close>

text \<open>
  \<open>resolveFile\<close> gives the identifier 0 for a file that cannot be downloaded or read, and the statement
  that stores a message with a file needs the row of that file. Followed here from the refused
  statement through \<open>resolveMessage\<close>, \<open>processMessage\<close>, \<open>processChatEventLog\<close>, \<open>gatherChatEventLog\<close>
  and \<open>Worker::run\<close>, none of which catches the exception.
\<close>

subsection \<open>No file has the identifier 0\<close>

definition no_file_0 :: "tables \<Rightarrow> bool" where
  "no_file_0 g \<longleftrightarrow> 0 \<notin> fst ` set (gw_files g)"

definition files_kept :: "('d \<Rightarrow> conn) \<Rightarrow> 'd hist \<Rightarrow> 'd hist \<Rightarrow> bool" where
  "files_kept conn s t \<longleftrightarrow> (no_file_0 (seen conn s) \<longrightarrow> no_file_0 (seen conn t))"

lemma sql_ok_no_file_0: "sql_ok q ps c rows c' \<Longrightarrow> \<not> marks q \<Longrightarrow> no_file_0 (cn_tables c) \<Longrightarrow> no_file_0 (cn_tables c')"
  by (induction rule: sql_ok.induct) (auto simp: marks_def inserted_def no_file_0_def set_edited_def)

sublocale scraper \<subseteq> files: data_rel "files_kept conn" e
proof -
  have data: "within (files_kept conn) (sql e q ps)" if "\<not> marks q" for q ps
    using that
    by (intro within_sql [where P = "\<lambda>c c'. no_file_0 (cn_tables c) \<longrightarrow> no_file_0 (cn_tables c')"])
      (auto simp: files_kept_def dest: sql_ok_no_file_0)
  show "data_rel (files_kept conn) e"
    by unfold_locales (auto simp: data stores_not_marks, auto simp: files_kept_def)
qed

context scraper begin

lemma user_out_files: "within (files_kept conn) (user_out u k)"
  by (auto simp: files_kept_def within_def user_out_eq)

text \<open>Users and chats are resolved without touching the messages.\<close>

lemma resolving_sql:
  "q \<in> {QInsertUser, QSelectUser, QInsertGroup, QSelectGroup} \<Longrightarrow> within (messages_kept conn) (sql e q ps)"
  by (intro within_sql [where P = "\<lambda>c c'. gw_messages (cn_tables c') = gw_messages (cn_tables c)"])
    (auto simp: messages_kept_def inserted_def elim!: sql_ok_elims)

lemma resolve_user_messages: "within (messages_kept conn) (resolve_user e u)"
proof -
  have out: "within (messages_kept conn) (user_out u k)" for k
    by (auto simp: messages_kept_def within_def user_out_eq)
  then have "within (messages_kept conn) (user_fetch e u)"
    by (auto simp: user_fetch_def intro!: message.combinators resolving_sql split: list.split)
  moreover have "within (messages_kept conn) (insert_user e u)"
    by (auto simp: insert_user_def intro!: message.combinators message.date_now resolving_sql)
  ultimately show ?thesis
    by (auto simp: resolve_user_def intro!: message.combinators message.last_insert_id out split: option.split)
qed

lemma resolve_group_messages: "within (messages_kept conn) (resolve_group e c)"
proof -
  have out: "within (messages_kept conn) (group_out c k)" for k
    by (simp add: group_out_def message.combinators)
  then have "within (messages_kept conn) (group_fetch e c)"
    by (auto simp: group_fetch_def intro!: message.combinators resolving_sql split: list.split)
  moreover have "within (messages_kept conn) (insert_group e c)"
    by (auto simp: insert_group_def intro!: message.combinators message.date_now resolving_sql)
  ultimately show ?thesis
    by (auto simp: resolve_group_def intro!: message.combinators message.last_insert_id out split: option.split)
qed

end

subsection \<open>Operations that only throw\<close>

definition throws :: "('d, 'a) act \<Rightarrow> bool" where
  "throws m \<longleftrightarrow> (\<forall>s x t. m s = (Inl x, t) \<longrightarrow> (\<exists>w. x = Thrown w))"

named_theorems throw

lemma throws_ret [throw]: "throws (ret x)" by (simp add: throws_def ret_def)
lemma throws_fail [throw]: "throws (fail_with (Thrown w))" by (simp add: throws_def fail_with_def)
lemma throws_get [throw]: "throws (get f)" by (simp add: throws_def get_def)
lemma throws_put [throw]: "throws (put f)" by (simp add: throws_def put_def)
lemma throws_observe [throw]: "throws (observe f)" by (simp add: throws_def observe_def)
lemma throws_sql [throw]: "throws (sql e q ps)" by (auto simp: throws_def sql_def split: prod.splits sum.splits)

lemma throws_hbind [throw]: "throws m \<Longrightarrow> (\<And>x. throws (f x)) \<Longrightarrow> throws (hbind m f)"
  by (fastforce simp: throws_def hbind_def split: prod.splits sum.splits)

lemma throws_hseq [throw]: "throws m \<Longrightarrow> throws n \<Longrightarrow> throws (hseq m n)"
  by (simp add: hseq_def throw)

lemma throws_catch [throw]: "throws m \<Longrightarrow> (\<And>w. throws (h w)) \<Longrightarrow> throws (catch_string m h)"
  by (auto simp: throws_def catch_string_def split: prod.splits sum.splits exn.splits)

lemma throws_deref [throw]: "p \<noteq> None \<Longrightarrow> throws (deref p)"
  by (auto simp: deref_def throw)

lemma throws_sql_unit [throw]: "throws (sql_unit e q ps)" by (simp add: sql_unit_def throw)
lemma throws_get_uint [throw]: "throws (get_uint e row i)"
  by (auto simp: get_uint_def intro!: throw split: cell.split)
lemma throws_get_flag [throw]: "throws (get_flag e row i)"
  by (auto simp: get_flag_def intro!: throw split: cell.split)
lemma throws_date_now [throw]: "throws (date_now e)" by (simp add: date_now_def throw)
lemma throws_last_id [throw]: "throws (last_insert_id e)"
  by (auto simp: last_insert_id_def intro!: throw split: list.split)
lemma throws_user_out [throw]: "throws (user_out u k)" by (simp add: user_out_def throw)

lemma throws_group_out [throw]: "throws (group_out c k)"
  by (auto simp: throws_def group_out_def hseq_simps put_def hbind_def get_def deref_def ret_def fail_with_def
      split: option.splits if_splits)

lemma throws_resolve_user [throw]: "throws (resolve_user e u)"
  by (auto simp: resolve_user_def insert_user_def user_fetch_def intro!: throw split: option.split list.split)

lemma throws_resolve_group [throw]: "throws (resolve_group e c)"
  by (auto simp: resolve_group_def insert_group_def group_fetch_def intro!: throw split: option.split list.split)

lemma throws_resolve_file [throw]: "throws (resolve_file e f)"
  by (auto simp: resolve_file_def insert_file_def intro!: throw split: option.split)

lemma throws_forward [throw]: "throws (save_forward_info e k fwd)"
  by (auto simp: save_forward_info_def Let_def intro!: throw split: forward_origin.split)

lemma throws_data [throw]: "m_content m \<noteq> None \<Longrightarrow> throws (insert_msg_data e k m ed)"
  by (auto simp: insert_msg_data_def insert_msg_data_kinds insert_msg_data_text_def insert_msg_data_file_def
      intro!: throw split: message_content.split option.split)

lemma throws_message [throw]: "m_content m \<noteq> None \<Longrightarrow> throws (resolve_message e m uid gid ed del)"
  by (auto simp: resolve_message_def get_db_msg_id_if_exists_def insert_message_def set_has_edited_def
      set_is_deleted_def intro!: throw split: option.split prod.split list.split)

subsection \<open>The message\<close>

text \<open>A message of a user Telegram knows, whose file cannot be had.\<close>

definition lacks_file :: "'d henv \<Rightarrow> message \<Rightarrow> bool" where
  "lacks_file e m \<longleftrightarrow>
     (\<forall>n. e_chat e n (m_chat_id m) \<noteq> None) \<and>
     (\<exists>i. m_sender m = SenderUser i \<and> (\<forall>n. e_user e n i \<noteq> None)) \<and>
     (\<exists>c f. m_content m = Some c \<and> file_of c = Some f \<and> unreadable e f)"

lemma file_has_type: "file_of c = Some f \<Longrightarrow> msg_type c \<noteq> None"
  by (cases c) (simp_all add: file_of_def msg_type_def)

lemma process_message_of_user:
  assumes "lacks_file e m"
  obtains u c where "process_message e m ed del s =
    hbind (resolve_user e u) (\<lambda>(uid, _). hbind (resolve_group e c) (\<lambda>(gid, _). resolve_message e m uid gid ed del))
      (tick (tick s))"
proof -
  from assms obtain i u c where "m_sender m = SenderUser i" "e_user e (h_tick s) i = Some u"
    "e_chat e (Suc (h_tick s)) (m_chat_id m) = Some c"
    unfolding lacks_file_def by blast
  then show thesis
    by (intro that [of u c]) (simp add: process_message_def hbind_def observe_def deref_def ret_def tick_def
        split: prod.split sum.split)
qed

context scraper begin

text \<open>No row is found for it, so its data is to be inserted with the file 0.\<close>

lemma resolve_message_without_file:
  assumes "lacks_file e m" and "not_stored (word_of_int (m_id m)) (seen conn s)"
    and "no_file_0 (seen conn s)"
  shows "resolve_message e m uid gid ed del s \<noteq> (Inr (), t)"
proof
  assume run: "resolve_message e m uid gid ed del s = (Inr (), t)"
  from assms(1) obtain c f where c: "m_content m = Some c" "file_of c = Some f" "unreadable e f"
    unfolding lacks_file_def by blast
  with file_has_type obtain ty where ty: "msg_type c = Some ty" by blast
  let ?last = "\<lambda>k. if del then set_is_deleted e k gid else ret ()"
  have step: "resolve_message e m uid gid ed del s =
      hbind (get_db_msg_id_if_exists e (word_of_int (m_id m)) (word_of_int (m_chat_id m)))
        (\<lambda>(k, has_edited).
           hbind (if k \<noteq> 0 then
                    hseq (if ed \<and> \<not> has_edited then set_has_edited e k gid else ret ())
                      (hseq (if ed then insert_msg_data e k m ed else ret ()) (ret k))
                  else hbind (insert_message e m ty uid gid del) (\<lambda>k.
                         hseq (insert_msg_data e k m ed) (ret k))) ?last) s"
    using c(1) ty by (simp add: resolve_message_def deref_def hbind_def ret_def)
  with run obtain v s1 where
    1: "get_db_msg_id_if_exists e (word_of_int (m_id m)) (word_of_int (m_chat_id m)) s = (Inr v, s1)"
    unfolding step hbind_Inr [of "get_db_msg_id_if_exists e _ _"] by blast
  note n = lookup_none [OF assms(2) 1]
  have "resolve_message e m uid gid ed del s =
      hbind (hbind (insert_message e m ty uid gid del) (\<lambda>k. hseq (insert_msg_data e k m ed) (ret k))) ?last s1"
    unfolding step by (subst hbind_def) (simp add: 1 n)
  with run obtain k s2 x s3 where 2: "insert_message e m ty uid gid del s1 = (Inr k, s2)"
    and 3: "insert_msg_data e k m ed s2 = (Inr x, s3)"
    by (auto simp: hbind_Inr hseq_Inr)
  have "no_file_0 (seen conn s2)"
    using withinD [OF files.insert_message 2] n assms(3) by (simp add: files_kept_def)
  then have nf: "0 \<notin> fst ` set (gw_files (seen conn s2))" by (simp add: no_file_0_def)
  obtain body ents where d: "insert_msg_data e k m ed = insert_msg_data_file e k m body ents f ed"
    using insert_msg_data_of_file [OF c(1,2)] by blast
  from insert_data_without_file [OF c(3) nf 3 [unfolded d]] show False by simp
qed

lemma process_message_throws:
  assumes "lacks_file e m" and "not_stored (word_of_int (m_id m)) (seen conn s)"
    and "no_file_0 (seen conn s)" and "process_message e m ed del s = (r, t)"
  shows "\<exists>w. r = Inl (Thrown w)"
proof -
  obtain u c where p: "process_message e m ed del s =
      hbind (resolve_user e u) (\<lambda>(uid, _). hbind (resolve_group e c) (\<lambda>(gid, _). resolve_message e m uid gid ed del))
        (tick (tick s))"
    using process_message_of_user [OF assms(1)] .
  show ?thesis
  proof (cases r)
    case (Inl x)
    have "m_content m \<noteq> None" using assms(1) by (auto simp: lacks_file_def)
    then have "throws (hbind (resolve_user e u)
        (\<lambda>(uid, _). hbind (resolve_group e c) (\<lambda>(gid, _). resolve_message e m uid gid ed del)))"
      by (auto intro!: throw split: prod.split)
    with assms(4) p Inl show ?thesis by (auto simp: throws_def)
  next
    case (Inr v)
    with assms(4) p obtain uid s1 gid s2 where 1: "resolve_user e u (tick (tick s)) = (Inr uid, s1)"
      and 2: "resolve_group e c s1 = (Inr gid, s2)"
      and 3: "resolve_message e m (fst uid) (fst gid) ed del s2 = (Inr (), t)"
      by (force simp: hbind_Inr split: prod.splits)
    have t: "conn (h_db (tick (tick s))) = conn (h_db s)" by (simp add: tick_def)
    have "files_kept conn (tick (tick s)) s1"
      using withinD [OF files.resolve_user_if [OF user_out_files] 1] .
    moreover have "files_kept conn s1 s2" using withinD [OF files.resolve_group 2] .
    ultimately have "no_file_0 (seen conn s2)" using assms(3) t by (simp add: files_kept_def)
    moreover have "gw_messages (seen conn s2) = gw_messages (seen conn s)"
      using withinD [OF resolve_user_messages 1] withinD [OF resolve_group_messages 2] t
      by (simp add: messages_kept_def)
    then have "not_stored (word_of_int (m_id m)) (seen conn s2)" using assms(2) by (simp add: not_stored_def)
    ultimately show ?thesis using resolve_message_without_file [OF assms(1)] 3 by blast
  qed
qed

end

subsection \<open>The event, the log, the thread\<close>

fun first_message :: "event_action \<Rightarrow> message option" where
  "first_message (EventMessageDeleted m) = Some m"
| "first_message (EventMessageEdited old new) = Some old"
| "first_message EventOther = None"

text \<open>An event that has not been seen, on the tables, and whose file cannot be had.\<close>

definition cannot_store :: "'d henv \<Rightarrow> chat_event \<Rightarrow> tables \<Rightarrow> bool" where
  "cannot_store e ev g \<longleftrightarrow> no_file_0 g \<and> mark_of ev \<notin> set (gw_tracked g) \<and>
     (\<exists>m. first_message (ev_action ev) = Some m \<and> lacks_file e m \<and> not_stored (word_of_int (m_id m)) g)"

text \<open>\<open>gatherChatEventLog\<close> from one request to a later one.\<close>

inductive reads :: "'d henv \<Rightarrow> int \<Rightarrow> int \<Rightarrow> 'd hist \<Rightarrow> int \<Rightarrow> 'd hist \<Rightarrow> bool" for e chat where
  here: "reads e chat m s m s"
| page: "m \<noteq> - 1 \<Longrightarrow> e_events e (h_tick s) chat m = Some evs \<Longrightarrow>
    process_chat_event_log e evs (tick s) = (Inr m', s') \<Longrightarrow> reads e chat m' s' m'' s'' \<Longrightarrow>
    reads e chat m s m'' s''"

lemma gather_reads: "reads e chat m s m' s' \<Longrightarrow> gather e chat m s = gather e chat m' s'"
  by (induction rule: reads.induct) (simp_all add: gather_step Let_def tick_def)

lemma process_events_throw:
  assumes "process_events e pre acc s = (Inr k, t)" and "process_event e ev t = (Inl x, u)"
  shows "process_events e (pre @ ev # post) acc s = (Inl x, u)"
  using assms
proof (induction pre arbitrary: acc s)
  case (Cons v pre)
  then show ?case by (fastforce simp: hseq_simps split: prod.splits sum.splits)
qed (simp add: ret_def hseq_simps)

context scraper begin

lemma process_action_throws:
  assumes "first_message a = Some m" and "lacks_file e m" and "not_stored (word_of_int (m_id m)) (seen conn s)"
    and "no_file_0 (seen conn s)" and "process_action e a s = (r, t)"
  shows "\<exists>w. r = Inl (Thrown w)"
proof -
  obtain r1 s1 where 1: "process_message e m False False s = (r1, s1)" by fastforce
  with process_message_throws [OF assms(2-4) 1] assms(1,5) show ?thesis
    by (cases a) (auto simp: process_action_def hseq_simps)
qed

end

context reliable_scraper begin

lemma process_event_throws:
  assumes "at_rest conn s" and "cannot_store e ev (seen conn s)" and "process_event e ev s = (r, t)"
  shows "(\<exists>w. r = Inl (Thrown w)) \<and> committed conn t = seen conn s"
proof -
  from assms(2) obtain m where m: "first_message (ev_action ev) = Some m" "lacks_file e m"
    "not_stored (word_of_int (m_id m)) (seen conn s)" "no_file_0 (seen conn s)"
    "mark_of ev \<notin> set (gw_tracked (seen conn s))"
    unfolding cannot_store_def by blast
  then have rel: "ev_action ev \<noteq> EventOther" by auto
  obtain r1 s1 where 1: "sql e QStart [] s = (r1, s1)" by fastforce
  have "\<exists>w. r = Inl (Thrown w)"
    using assms(1) 1
  proof (cases rule: start_cases)
    case (failed x)
    with 1 throws_sql [of e QStart "[]"] have "\<exists>w. x = Thrown w" by (auto simp: throws_def)
    with 1 failed assms(3) rel show ?thesis by (auto simp: process_event_def hseq_simps)
  next
    case (worked rows)
    obtain r2 s2 where 2: "track_event_id e (ev_id ev) s1 = (r2, s2)" by fastforce
    have new: "uint_of (ev_id ev) = PUint (mark_of ev)" "mark_of ev \<notin> set (gw_tracked (seen conn s1))"
      using m(5) worked(3) by (simp_all add: uint_of_def mark_of_def)
    have not_refused: "exec QTrackEvent [uint_of (ev_id ev)] (h_db s1) \<noteq> (Inl msg, d)" for msg d
      using accepts [OF _ sql_ok.track [OF new(2)]] new(1) by (auto simp: marks_def)
    with conjunct2 [OF track_event_id_cases [OF 2]] obtain rows' where r2: "r2 = Inr True"
      and tr: "sql_ok QTrackEvent [uint_of (ev_id ev)] (conn (h_db s1)) rows' (conn (h_db s2))" by blast
    from tr worked(3) have same: "gw_files (seen conn s2) = gw_files (seen conn s)"
      "gw_messages (seen conn s2) = gw_messages (seen conn s)"
      by (auto simp: uint_of_def elim!: sql_ok_elims)
    have run: "hseq (process_action e (ev_action ev)) (sql_unit e QCommit []) s2 = (r, t)"
      using 1 2 r2 worked(1) assms(3) rel by (simp add: process_event_def hseq_simps hbind_def)
    obtain r3 s3 where 3: "process_action e (ev_action ev) s2 = (r3, s3)" by fastforce
    have "not_stored (word_of_int (m_id m)) (seen conn s2)" "no_file_0 (seen conn s2)"
      using m(3,4) same by (simp_all add: not_stored_def no_file_0_def)
    from process_action_throws [OF m(1,2) this 3] run 3 show ?thesis by (auto simp: hseq_simps)
  qed
  with process_event_failed [OF assms(1), of ev _ t] assms(3) show ?thesis by auto
qed

lemma gather_throws:
  assumes "reads e chat 0 s0 m s1" and "m \<noteq> - 1"
    and "e_events e (h_tick s1) chat m = Some (pre @ ev # post)"
    and "process_events e pre None (tick s1) = (Inr k, s)"
    and "at_rest conn s" and "cannot_store e ev (seen conn s)"
  shows "\<exists>w t. gather_chat_event_log e chat s0 = Some (Inl (Thrown w), t) \<and> committed conn t = seen conn s"
proof -
  obtain r t where p: "process_event e ev s = (r, t)" by fastforce
  from process_event_throws [OF assms(5,6) p] obtain w where w: "r = Inl (Thrown w)" "committed conn t = seen conn s"
    by blast
  from process_events_throw [OF assms(4) p [unfolded w(1)]]
  have "process_chat_event_log e (pre @ ev # post) (tick s1) = (Inl (Thrown w), t)"
    by (simp add: process_log_events)
  with gather_reads [OF assms(1)] assms(2,3) w(2) show ?thesis
    by (simp add: gather_chat_event_log_def gather_step Let_def tick_def)
qed

end

text \<open>
  C35: A deleted or edited message whose file cannot be downloaded or read ends the scraper: when
  the loop, on whatever page, comes to its event, the file gets the identifier 0, which the foreign
  key refuses, no caller up to \<open>Worker::run\<close> catches the exception, so that it leaves the thread,
  and of the event nothing is committed. The server refuses no mark of a new event, the sender and
  the chat are known to Telegram, and no row has the message's unshifted identifier.
\<close>

theorem missing_file_throws:
  assumes "reliable_scraper exec conn e" and "create_db env server x = (Inr d, x')"
    and "reads e gnuweeb 0 s0 m s1" and "m \<noteq> - 1"
    and "e_events e (h_tick s1) gnuweeb m = Some (pre @ ev # post)"
    and "process_events e pre None (tick s1) = (Inr k, s)"
    and "at_rest conn s" and "cannot_store e ev (seen conn s)"
  shows "\<exists>w t. worker_run env server e (x, s0) = Some (Inl (Thrown w), x', t) \<and>
    committed conn t = seen conn s"
  using reliable_scraper.gather_throws [OF assms(1,3-8)] assms(2) by (auto simp: worker_run_def)

text \<open>A sticker sent by user 42 and deleted.\<close>

definition sticker_event :: chat_event where
  "sticker_event = \<lparr>ev_id = 7, ev_action = EventMessageDeleted
     ((text_message_of 5 (SenderUser 42))\<lparr>m_content := Some (MessageSticker ''x'' sticker)\<rparr>)\<rparr>"

definition sticker_env :: "mysql henv" where
  "sticker_env = (my_env Extended)\<lparr>e_events := (\<lambda>_ _ _. Some [deleted_event 8 (SenderChat 9), sticker_event])\<rparr>"

interpretation sticker_scraper: reliable_scraper "my_exec Extended" my_conn sticker_env
  by unfold_locales (simp add: sticker_env_def my_env_def)

lemma sticker_before:
  "\<exists>k s. process_events sticker_env [deleted_event 8 (SenderChat 9)] None (tick hist_init) = (Inr k, s) \<and>
     at_rest my_conn s \<and> cannot_store sticker_env sticker_event (seen my_conn s)"
  by (simp add: run_defs db_defs sticker_env_def tick_def at_rest_def cannot_store_def no_file_0_def
      not_stored_def sticker_event_def lacks_file_def file_of_def unreadable_def mark_of_def)

lemma connected: "\<exists>d y. create_db (\<lambda>_. Some ''x'') (\<lambda>_ _ _ _ _. None) xapi_init = (Inr d, y)"
proof -
  from copy_bounded_ok [of "replicate 128 NUL" "''x''"] copy_bounded_ok [of "replicate 64 NUL" "''x''"]
  obtain d where "old_db_new ''x'' 0 ''x'' ''x'' ''x'' = Inr d"
    "db_credentials d = Inr (''x'', 33060, ''x'', ''x'', ''x'')"
    by (auto simp: old_db_new_def db_credentials_def c_arg_def)
  then show ?thesis
    by (simp add: create_db_def env_or_abort_def old_db_connect_accepted)
qed

theorem missing_file_throws_witness:
  "\<exists>w y t. worker_run (\<lambda>_. Some ''x'') (\<lambda>_ _ _ _ _. None) sticker_env (xapi_init, hist_init) =
     Some (Inl (Thrown w), y, t)"
proof -
  obtain d y where c: "create_db (\<lambda>_. Some ''x'') (\<lambda>_ _ _ _ _. None) xapi_init = (Inr d, y)"
    using connected by blast
  obtain k s where p: "process_events sticker_env [deleted_event 8 (SenderChat 9)] None (tick hist_init) = (Inr k, s)"
    "at_rest my_conn s" "cannot_store sticker_env sticker_event (seen my_conn s)"
    using sticker_before by blast
  have ev: "e_events sticker_env (h_tick hist_init) gnuweeb 0 =
      Some ([deleted_event 8 (SenderChat 9)] @ sticker_event # [])"
    by (simp add: sticker_env_def)
  from missing_file_throws [OF sticker_scraper.reliable_scraper_axioms c reads.here _ ev p] show ?thesis by fastforce
qed

end
