(* ===== verification/Crud.thy ===== *)
theory Crud
  imports DB
begin

section \<open>The first history connection (Main/History/CRUD)\<close>

text \<open>
  Class \<open>CRUD\<close> of \<open>old.old/src.old2/tgvisd/Main/History\<close>: a connection made from a URL and one
  query, over the same ledger of the MySQL client library as class \<open>DB\<close>. The server's answers
  are arguments; the arrays start zeroed.
\<close>

record crud =
  cr_host :: "char list"
  cr_user :: "char list"
  cr_pass :: "char list"
  cr_sess :: "nat option"

text \<open>\<open>snprintf(url, sizeof(url), "mysqlx://%s:%s@%s", user_, pass_, host_)\<close>: 128 + 64 + 64 + 64 bytes.\<close>

definition crud_url :: "string \<Rightarrow> string \<Rightarrow> string \<Rightarrow> string" where
  "crud_url user pass host = snprintf_str 320 (''mysqlx://'' @ user @ '':'' @ pass @ ''@'' @ host)"

definition crud_new ::
  "(string \<Rightarrow> (string \<times> int) option) \<Rightarrow> string \<Rightarrow> string \<Rightarrow> string \<Rightarrow> xapi \<Rightarrow> ub + crud \<times> xapi" where
  "crud_new server host user pass x =
     ebind (copy_bounded (replicate 128 NUL) host) (\<lambda>h.
     ebind (copy_bounded (replicate 64 NUL) user) (\<lambda>u.
     ebind (copy_bounded (replicate 64 NUL) pass) (\<lambda>p.
       let c = \<lparr>cr_host = h, cr_user = u, cr_pass = p, cr_sess = None\<rparr> in
       Inr (case mysqlx_get_session (server (crud_url (cstr u) (cstr p) (cstr h))) x of
              (Inr s, x) \<Rightarrow> (c\<lparr>cr_sess := Some s\<rparr>, x)
            | (Inl (e, msg, code), x) \<Rightarrow> (c, mysqlx_free_error e x)))))"

text \<open>
  \<open>insertMessage\<close> prints the version of the server. \<open>version\<close> is the second cell of the row, if
  the query gives one; what is printed is the array, which nothing has filled otherwise.
\<close>

definition crud_insert_message :: "string option \<Rightarrow> crud \<times> xapi \<Rightarrow> (ub + string) \<times> crud \<times> xapi" where
  "crud_insert_message version = (\<lambda>(c, x).
     case cr_sess c of
       None \<Rightarrow> (Inl UninitRead, c, x)
     | Some s \<Rightarrow>
         (case mysqlx_execute s x of (r, x) \<Rightarrow>
            ((case version of None \<Rightarrow> Inl UninitRead | Some v \<Rightarrow> Inr (snprintf_str 1024 v)),
             c, mysqlx_free_result r x)))"

definition crud_destroy :: "crud \<times> xapi \<Rightarrow> xapi" where
  "crud_destroy = (\<lambda>(c, x). case cr_sess c of None \<Rightarrow> x | Some s \<Rightarrow> mysqlx_session_close s x)"

text \<open>The URL always fits: no array is longer than its size without the terminator.\<close>

lemma crud_url_fits:
  "length user \<le> 63 \<Longrightarrow> length pass \<le> 63 \<Longrightarrow> length host \<le> 127 \<Longrightarrow>
     crud_url user pass host = ''mysqlx://'' @ user @ '':'' @ pass @ ''@'' @ host"
  by (simp add: crud_url_def snprintf_str_def)

text \<open>An object leaves no session, no error and no result behind, however often it is used.\<close>

lemma crud_leaves_nothing:
  assumes "crud_new server host user pass xapi_init = Inr (c, x)"
  shows "x_sessions (crud_destroy (fold (\<lambda>v s. snd (crud_insert_message v s)) vs (c, x))) = {} \<and>
    x_errors (crud_destroy (fold (\<lambda>v s. snd (crud_insert_message v s)) vs (c, x))) = {}"
proof -
  have start: "x_errors x = {} \<and> x_sessions x = set_option (cr_sess c)"
    using assms by (auto simp: crud_new_def mysqlx_get_session_def mysqlx_free_error_def xapi_init_def
        Let_def res_simps split: option.splits)
  have step: "fst (snd (crud_insert_message v (c, y))) = c \<and>
      x_errors (snd (snd (crud_insert_message v (c, y)))) = x_errors y \<and>
      x_sessions (snd (snd (crud_insert_message v (c, y)))) = x_sessions y" for v y
    by (simp add: crud_insert_message_def mysqlx_execute_def mysqlx_free_result_def split: option.split)
  have "\<exists>y. fold (\<lambda>v s. snd (crud_insert_message v s)) vs (c, x) = (c, y) \<and>
      x_errors y = x_errors x \<and> x_sessions y = x_sessions x"
    by (induction vs arbitrary: x) (auto, metis prod.collapse step)
  then show ?thesis using start
    by (cases "cr_sess c") (auto simp: crud_destroy_def mysqlx_session_close_def)
qed

end
