(* ===== verification/TeaModules.thy ===== *)
theory TeaModules
  imports Helpers TdHandler
begin

section \<open>Message handling of TeaBot (Response.cpp, Responses/*, Modules/*, TeaBot.cpp)\<close>

text \<open>
  Every text message becomes a \<open>Response\<close>; it is handed to the modules in turn, and the first
  module whose \<open>match\<close> accepts the text answers it. What a module sends is the list of
  functions passed to \<open>send_query\<close>. The shell, the reply to \<open>getMessage\<close>, the text form of an
  update and the releases fetched from kernel.org are fields of \<open>world\<close>. Buffers made with
  \<open>new char[n]\<close> hold \<open>w_fill\<close> until they are written, and every access is checked.
\<close>

record world =
  w_popen :: "string \<Rightarrow> popen_result"
  w_get_message :: "int \<Rightarrow> int \<Rightarrow> string + message"
  w_to_string :: "message \<Rightarrow> string"
  w_kernel :: "string + string \<times> string \<times> string"
  w_fill :: char

record request =
  rq_self :: bool
  rq_chat_id :: int
  rq_sender_id :: int
  rq_sender_name :: string
  rq_text :: string
  rq_msg :: message

text \<open>\<open>text.c_str()\<close>: the bytes of the text and the terminator.\<close>

definition c_str :: "string \<Rightarrow> char list" where
  "c_str s = s @ [NUL]"

subsection \<open>The modules\<close>

definition debug_run :: "world \<Rightarrow> request \<Rightarrow> ub + td_function list" where
  "debug_run w rq =
     Inr [EditMessageText (rq_chat_id rq) (m_id (rq_msg rq)) (w_to_string w (rq_msg rq)) []]"

text \<open>\<open>w_kernel\<close>: the text of the exception thrown on the way, or the three strings of the JSON.\<close>

definition kernel_run :: "world \<Rightarrow> request \<Rightarrow> ub + td_function list" where
  "kernel_run w rq =
     ebind (case w_kernel w of
              Inl what \<Rightarrow> Inr (''Error: '' @ what)
            | Inr (stb, version, moniker) \<Rightarrow>
                ebind (shell_exec (w_fill w) (w_popen w ''date -u'')) (\<lambda>date.
                  Inr (''[Linux Kernel Release Info]'' @ [CHR 0x0A] @
                       ''Latest stable: '' @ stb @ [CHR 0x0A] @
                       ''Latest release: '' @ version @ '' ('' @ moniker @ '')'' @ [CHR 0x0A] @
                       ''Scraped at: '' @ date @ [CHR 0x0A, CHR 0x0A] @
                       ''See detailed info here: https://www.kernel.org/releases.json'')))
       (\<lambda>reply. Inr [SendMessage (rq_chat_id rq) (m_id (rq_msg rq)) reply []])"

text \<open>\<open>check_replied_msg\<close>, the same in Mock and Sed: the text of the replied message, if it has one.\<close>

definition check_replied_msg :: "world \<Rightarrow> request \<Rightarrow> ub + string option" where
  "check_replied_msg w rq =
     (case w_get_message w (m_reply_in_chat_id (rq_msg rq)) (m_reply_to_message_id (rq_msg rq)) of
        Inl error \<Rightarrow> Inr None
      | Inr msg \<Rightarrow>
          (case m_content msg of
             None \<Rightarrow> Inl NullDeref
           | Some (MessageText ft) \<Rightarrow> Inr (Some (ft_text ft))
           | Some _ \<Rightarrow> Inr None))"

definition mock_run :: "world \<Rightarrow> request \<Rightarrow> ub + td_function list" where
  "mock_run w rq =
     ebind (check_replied_msg w rq) (\<lambda>replied.
       case replied of
         None \<Rightarrow> Inr []
       | Some t \<Rightarrow>
           Inr [EditMessageText (rq_chat_id rq) (m_id (rq_msg rq)) (mock_string t) []])"

definition print_cmd :: string where
  "print_cmd = ''printf '' @ [CHR 0x22] @ ''%s'' @ [CHR 0x22] @ '' ''"

definition sed_cmd :: string where "sed_cmd = '' | sed -r ''"

definition to_stdout :: string where "to_stdout = '' 2>&1''"

text \<open>
  The command line of Sed, written piece by piece into \<open>alloc\<close> bytes; \<open>crep\<close> and \<open>pat\<close> are
  the blocks of the replied text and the pattern. \<open>sizeof\<close> of a literal counts its terminator.
\<close>

definition sed_command ::
  "char \<Rightarrow> char list \<Rightarrow> nat \<Rightarrow> char list \<Rightarrow> nat \<Rightarrow> ub + char list" where
  "sed_command fill crep crep_len pat len =
     (let alloc = (crep_len * 4 + 1) + (len * 4 + 4) +
            ((length print_cmd + 1) + (length sed_cmd + 1) + (length to_stdout + 1));
          heap = replicate alloc fill
      in
        ebind (blit heap 0 print_cmd) (\<lambda>heap.
        let cmd = length print_cmd in
        ebind (escapeshellarg fill (Some (heap, cmd)) crep crep_len) (\<lambda>(heap, esc_len).
        let cmd = cmd + esc_len in
        ebind (blit heap cmd sed_cmd) (\<lambda>heap.
        let cmd = cmd + length sed_cmd in
        ebind (escapeshellarg fill (Some (heap, cmd)) pat len) (\<lambda>(heap, esc_len).
        let cmd = cmd + esc_len in
        blit heap cmd (to_stdout @ [NUL]))))))"

definition sed_run :: "world \<Rightarrow> request \<Rightarrow> char list \<Rightarrow> nat \<Rightarrow> ub + td_function list" where
  "sed_run w rq pat len =
     ebind (check_replied_msg w rq) (\<lambda>replied.
       case replied of
         None \<Rightarrow> Inr []
       | Some t \<Rightarrow>
           ebind (sed_command (w_fill w) (c_str t) (length t) pat len) (\<lambda>heap.
           ebind (shell_exec (w_fill w) (w_popen w (cstr heap))) (\<lambda>out.
             Inr [SendMessage (rq_chat_id rq) (m_reply_to_message_id (rq_msg rq))
                    (''Sed output:'' @ [CHR 0x0A] @ out) [TextEntity 0 11 EntityBold]])))"

definition shell_wrap :: string where "shell_wrap = ''exec /usr/bin/bash -c ''"

definition shell_command :: "char \<Rightarrow> char list \<Rightarrow> nat \<Rightarrow> ub + char list" where
  "shell_command fill cmd len =
     (let wrapped_len = (length shell_wrap + 1) + len * 4 + (length to_stdout + 1);
          wrapped = replicate wrapped_len fill
      in
        ebind (blit wrapped 0 shell_wrap) (\<lambda>wrapped.
        let comp_ptr = length shell_wrap in
        ebind (escapeshellarg fill (Some (wrapped, comp_ptr)) cmd len) (\<lambda>(wrapped, escaped_len).
        blit wrapped (comp_ptr + escaped_len) (to_stdout @ [NUL]))))"

definition shellexec_run ::
  "world \<Rightarrow> request \<Rightarrow> bool \<Rightarrow> char list \<Rightarrow> nat \<Rightarrow> ub + td_function list" where
  "shellexec_run w rq edit_msg cmd len =
     ebind (shell_command (w_fill w) cmd len) (\<lambda>wrapped.
     ebind (shell_exec (w_fill w) (w_popen w (cstr wrapped))) (\<lambda>cmd_out.
       let ents = [TextEntity 0 (int (length cmd_out)) EntityPreCode] in
       Inr (if edit_msg
            then [EditMessageText (rq_chat_id rq) (m_id (rq_msg rq)) cmd_out ents]
            else [SendMessage (rq_chat_id rq) (m_id (rq_msg rq)) cmd_out ents])))"

subsection \<open>Matching\<close>

text \<open>
  Each \<open>match\<close> checks a minimal length, compares the bytes after the first one and runs its
  module; it tells whether it accepted the text.
\<close>

definition hit :: "ub + td_function list \<Rightarrow> ub + (bool \<times> td_function list)" where
  "hit r = ebind r (\<lambda>out. Inr (True, out))"

definition debug_match :: "world \<Rightarrow> request \<Rightarrow> ub + (bool \<times> td_function list)" where
  "debug_match w rq =
     (if length (rq_text rq) < 6 then Inr (False, [])
      else ebind (memcmp_eq (drop 1 (c_str (rq_text rq))) ''debug'') (\<lambda>eq.
             if \<not> eq then Inr (False, []) else hit (debug_run w rq)))"

definition kernel_match :: "world \<Rightarrow> request \<Rightarrow> ub + (bool \<times> td_function list)" where
  "kernel_match w rq =
     (if length (rq_text rq) < 7 then Inr (False, [])
      else ebind (memcmp_eq (drop 1 (c_str (rq_text rq))) ''kernel'') (\<lambda>eq.
             if \<not> eq then Inr (False, []) else hit (kernel_run w rq)))"

definition mock_match :: "world \<Rightarrow> request \<Rightarrow> ub + (bool \<times> td_function list)" where
  "mock_match w rq =
     (if length (rq_text rq) < 5 then Inr (False, [])
      else ebind (memcmp_eq (drop 1 (c_str (rq_text rq))) ''mock'') (\<lambda>eq.
             if \<not> eq then Inr (False, []) else hit (mock_run w rq)))"

definition sed_match :: "world \<Rightarrow> request \<Rightarrow> ub + (bool \<times> td_function list)" where
  "sed_match w rq =
     (if length (rq_text rq) < 6 then Inr (False, [])
      else ebind (memcmp_eq (drop 1 (c_str (rq_text rq))) ''sed '') (\<lambda>eq.
             if \<not> eq then Inr (False, [])
             else hit (sed_run w rq (drop 5 (c_str (rq_text rq))) (length (rq_text rq) - 5))))"

definition sudoers :: "int \<Rightarrow> string option" where
  "sudoers = [243692601 \<mapsto> ''Ammar Faizi'']"

definition shellexec_match :: "world \<Rightarrow> request \<Rightarrow> ub + (bool \<times> td_function list)" where
  "shellexec_match w rq =
     (let text = c_str (rq_text rq); len = length (rq_text rq);
          go = (\<lambda>edit_msg skip.
            if \<not> rq_self rq then
              (if sudoers (rq_sender_id rq) = None then Inr (False, [])
               else hit (shellexec_run w rq False (drop skip text) (len - skip)))
            else hit (shellexec_run w rq edit_msg (drop skip text) (len - skip)))
      in
        if len < 5 then Inr (False, [])
        else
          ebind (memcmp_eq (drop 1 text) ''sh '') (\<lambda>sh.
            if sh then go False 4
            else ebind (memcmp_eq (drop 1 text) ''shr '') (\<lambda>shr.
                   if shr then go True 5 else Inr (False, []))))"

subsection \<open>Dispatch\<close>

definition is_cmd_format :: "char list \<Rightarrow> nat \<Rightarrow> bool" where
  "is_cmd_format ctext len \<longleftrightarrow>
     \<not> len < 2 \<and> (hd ctext = CHR ''!'' \<or> hd ctext = CHR ''/'' \<or> hd ctext = CHR ''.'')"

fun first_match :: "(ub + (bool \<times> td_function list)) list \<Rightarrow> ub + td_function list" where
  "first_match [] = Inr []"
| "first_match (m # ms) = ebind m (\<lambda>(matched, out). if matched then Inr out else first_match ms)"

text \<open>\<open>Message::handle_text_message\<close> and \<open>MyMessage::handle_text_message\<close>.\<close>

definition message_handle_text :: "world \<Rightarrow> request \<Rightarrow> ub + td_function list" where
  "message_handle_text w rq =
     (if is_cmd_format (c_str (rq_text rq)) (length (rq_text rq))
      then first_match [kernel_match w rq, shellexec_match w rq, sed_match w rq]
      else Inr [])"

definition mymessage_handle_text :: "world \<Rightarrow> request \<Rightarrow> ub + td_function list" where
  "mymessage_handle_text w rq =
     (if is_cmd_format (c_str (rq_text rq)) (length (rq_text rq))
      then first_match [debug_match w rq, kernel_match w rq, mock_match w rq, sed_match w rq,
             shellexec_match w rq]
      else Inr [])"

text \<open>\<open>Message::run\<close> and \<open>MyMessage::run\<close> look at the message's content again.\<close>

definition is_text :: "message \<Rightarrow> ub + bool" where
  "is_text m = (case m_content m of
     None \<Rightarrow> Inl NullDeref | Some (MessageText _) \<Rightarrow> Inr True | Some _ \<Rightarrow> Inr False)"

definition message_run :: "world \<Rightarrow> request \<Rightarrow> ub + td_function list" where
  "message_run w rq =
     ebind (is_text (rq_msg rq)) (\<lambda>t. if t then message_handle_text w rq else Inr [])"

definition mymessage_run :: "world \<Rightarrow> request \<Rightarrow> ub + td_function list" where
  "mymessage_run w rq =
     ebind (is_text (rq_msg rq)) (\<lambda>t. if t then mymessage_handle_text w rq else Inr [])"

text \<open>
  \<open>Response::Response\<close> copies the text, \<open>Response::run\<close> finds the sender and compares it with
  the account's own identifier, which \<open>TdHandler\<close> keeps in 32 bits. The name of a user is
  looked up under the low 32 bits of the identifier.
\<close>

definition response_request :: "tdh \<Rightarrow> message \<Rightarrow> ub + request" where
  "response_request h m =
     (case m_content m of
        None \<Rightarrow> Inl NullDeref
      | Some c \<Rightarrow>
          let text = (case c of MessageText ft \<Rightarrow> ft_text ft | _ \<Rightarrow> []);
              (sender, name) =
                (case m_sender m of
                   SenderUser i \<Rightarrow> (i, get_user_name (word_of_int i) h)
                 | SenderChat i \<Rightarrow> (i, get_chat_title i h))
          in Inr \<lparr>rq_self = (sint (h_user_id h) = sender), rq_chat_id = m_chat_id m,
                  rq_sender_id = sender, rq_sender_name = name, rq_text = text, rq_msg = m\<rparr>)"

definition response_run :: "world \<Rightarrow> tdh \<Rightarrow> message \<Rightarrow> ub + td_function list" where
  "response_run w h m =
     ebind (response_request h m) (\<lambda>rq.
       if rq_self rq then mymessage_run w rq else message_run w rq)"

text \<open>\<open>TeaBot::updateNewMessage\<close>: only text messages get a thread.\<close>

definition tea_update_new_message :: "world \<Rightarrow> tdh \<Rightarrow> message \<Rightarrow> ub + td_function list" where
  "tea_update_new_message w h m =
     ebind (is_text m) (\<lambda>t. if \<not> t then Inr [] else response_run w h m)"

subsection \<open>The command lines\<close>

lemma escapeshellarg_c_str:
  "escapeshellarg fill (Some (blk, off)) (c_str s) (length s) =
     ebind (blit blk off (esc_text s @ [NUL])) (\<lambda>b. Inr (b, length (esc_text s)))"
proof -
  have "(if 0 < length s then Inr (length s) else c_strlen (c_str s)) = Inr (length s)"
    by (auto simp: c_str_def c_strlen_def has_nul_def cstr_def)
  from escapeshellarg_eq [OF this, of fill "Some (blk, off)" blk off] show ?thesis
    by (simp add: c_str_def esc_dest_def)
qed

lemma literal_lengths [simp]:
  "length shell_wrap = 22" "length to_stdout = 5" "length print_cmd = 12" "length sed_cmd = 10"
  by (simp_all add: shell_wrap_def to_stdout_def print_cmd_def sed_cmd_def)

lemma shell_command_eq:
  "shell_command fill (c_str s) (length s) =
     blit (replicate (29 + length s * 4) fill) 0 (shell_wrap @ esc_text s @ to_stdout @ [NUL])"
  by (simp add: shell_command_def escapeshellarg_c_str Let_def ebind_assoc blit_overwrite
      blit_from_start)

lemma sed_command_eq:
  "sed_command fill (c_str t) (length t) (c_str p) (length p) =
     blit (replicate (35 + (length t * 4 + length p * 4)) fill) 0
       (print_cmd @ esc_text t @ sed_cmd @ esc_text p @ to_stdout @ [NUL])"
  by (simp add: sed_command_def escapeshellarg_c_str Let_def ebind_assoc blit_overwrite
      blit_overwrite_bind blit_blit_bind blit_from_start sed_cmd_def)

lemma cstr_heap: "NUL \<notin> set s \<Longrightarrow> cstr (s @ NUL # rest) = s"
  by (rule cstr_append)

text \<open>The command line of Sed always fits, and holds these words.\<close>

lemma sed_command_fits:
  assumes "NUL \<notin> set t" and "NUL \<notin> set p"
  shows "\<exists>heap. sed_command fill (c_str t) (length t) (c_str p) (length p) = Inr heap \<and>
    cstr heap = print_cmd @ esc_text t @ sed_cmd @ esc_text p @ to_stdout"
proof -
  let ?line = "print_cmd @ esc_text t @ sed_cmd @ esc_text p @ to_stdout"
  let ?heap = "replicate (35 + (length t * 4 + length p * 4)) fill"
  have "length (?line @ [NUL]) \<le> length ?heap"
    using quotes_le [of t] quotes_le [of p] by (simp add: length_esc_text)
  then have "blit ?heap 0 (?line @ [NUL]) = Inr (?line @ NUL # drop (length (?line @ [NUL])) ?heap)"
    by (simp add: blit_def)
  moreover have "NUL \<notin> set ?line"
    using esc_text_no_nul [OF assms(1)] esc_text_no_nul [OF assms(2)]
    by (simp add: print_cmd_def sed_cmd_def to_stdout_def)
  moreover have "sed_command fill (c_str t) (length t) (c_str p) (length p) = blit ?heap 0 (?line @ [NUL])"
    by (simp add: sed_command_eq)
  ultimately show ?thesis using cstr_heap by metis
qed

lemma shell_command_result:
  assumes "NUL \<notin> set s"
  shows "if set s \<subseteq> {Q} then shell_command fill (c_str s) (length s) = Inl OutOfBounds
    else \<exists>heap. shell_command fill (c_str s) (length s) = Inr heap \<and>
      cstr heap = shell_wrap @ esc_text s @ to_stdout"
proof -
  let ?line = "shell_wrap @ esc_text s @ to_stdout"
  let ?heap = "replicate (29 + length s * 4) fill"
  have len: "length (?line @ [NUL]) \<le> length ?heap \<longleftrightarrow> quotes s \<noteq> length s"
    using quotes_le [of s] by (simp add: length_esc_text) linarith
  show ?thesis
  proof (cases "set s \<subseteq> {Q}")
    case True
    then have "quotes s = length s" by (simp add: quotes_eq_length)
    with len have "blit ?heap 0 (?line @ [NUL]) = Inl OutOfBounds" by (simp add: blit_def)
    with True show ?thesis by (simp add: shell_command_eq)
  next
    case False
    then have "quotes s \<noteq> length s" by (simp add: quotes_eq_length)
    with len have "blit ?heap 0 (?line @ [NUL]) = Inr (?line @ NUL # drop (length (?line @ [NUL])) ?heap)"
      by (simp add: blit_def)
    moreover have "NUL \<notin> set ?line"
      using esc_text_no_nul [OF assms] by (simp add: shell_wrap_def to_stdout_def)
    moreover have "shell_command fill (c_str s) (length s) = blit ?heap 0 (?line @ [NUL])"
      by (simp add: shell_command_eq)
    ultimately have "\<exists>heap. shell_command fill (c_str s) (length s) = Inr heap \<and> cstr heap = ?line"
      using cstr_heap by metis
    with False show ?thesis by simp
  qed
qed

subsection \<open>What the modules do\<close>

text \<open>The surroundings in which a text is answered: commands can be started, texts have no NUL.\<close>

definition world_ok :: "world \<Rightarrow> bool" where
  "world_ok w \<longleftrightarrow> (\<forall>c. \<exists>out. w_popen w c = PopenOutput out) \<and>
     (\<forall>c r m. w_get_message w c r = Inr m \<longrightarrow> m_content m \<noteq> None \<and>
        (\<forall>ft. m_content m = Some (MessageText ft) \<longrightarrow> NUL \<notin> set (ft_text ft)))"

lemma world_shell:
  "world_ok w \<Longrightarrow> \<exists>out. shell_exec fill (w_popen w c) = Inr out"
  by (metis shell_exec_output world_ok_def)

lemma replied_ok:
  "world_ok w \<Longrightarrow> \<exists>r. check_replied_msg w rq = Inr r \<and> (\<forall>t. r = Some t \<longrightarrow> NUL \<notin> set t)"
proof (cases "w_get_message w (m_reply_in_chat_id (rq_msg rq)) (m_reply_to_message_id (rq_msg rq))")
  case (Inr m)
  moreover assume "world_ok w"
  ultimately obtain c where "m_content m = Some c" "\<And>ft. c = MessageText ft \<Longrightarrow> NUL \<notin> set (ft_text ft)"
    unfolding world_ok_def by blast
  with Inr show ?thesis by (cases c) (auto simp: check_replied_msg_def)
qed (simp add: check_replied_msg_def)

lemma drop_c_str: "n \<le> length s \<Longrightarrow> drop n (c_str s) = c_str (drop n s)"
  by (simp add: c_str_def)

lemma memcmp_c_str:
  "length lit < length s \<Longrightarrow>
     memcmp_eq (drop (Suc 0) (c_str s)) lit = Inr (take (length lit) (drop (Suc 0) (c_str s)) = lit)"
  by (simp add: memcmp_eq_def c_str_def)

lemma shellexec_run_result:
  assumes "world_ok w" and "NUL \<notin> set s"
  shows "if set s \<subseteq> {Q} then shellexec_run w rq e (c_str s) (length s) = Inl OutOfBounds
    else \<exists>out. shell_exec (w_fill w) (w_popen w (shell_wrap @ esc_text s @ to_stdout)) = Inr out \<and>
      shellexec_run w rq e (c_str s) (length s) =
        Inr [if e then EditMessageText (rq_chat_id rq) (m_id (rq_msg rq)) out
                         [TextEntity 0 (int (length out)) EntityPreCode]
             else SendMessage (rq_chat_id rq) (m_id (rq_msg rq)) out
                         [TextEntity 0 (int (length out)) EntityPreCode]]"
proof (cases "set s \<subseteq> {Q}")
  case True
  with shell_command_result [OF assms(2), of "w_fill w"] show ?thesis
    by (simp add: shellexec_run_def)
next
  case False
  with shell_command_result [OF assms(2), of "w_fill w"] obtain heap where
    h: "shell_command (w_fill w) (c_str s) (length s) = Inr heap"
    "cstr heap = shell_wrap @ esc_text s @ to_stdout" by auto
  obtain out where o: "shell_exec (w_fill w) (w_popen w (cstr heap)) = Inr out"
    using world_shell [OF assms(1)] by blast
  with h have "shell_exec (w_fill w) (w_popen w (shell_wrap @ esc_text s @ to_stdout)) = Inr out"
    by simp
  with False h o show ?thesis by (auto simp: shellexec_run_def Let_def)
qed

lemma sed_run_result:
  assumes "world_ok w" and "NUL \<notin> set p"
  shows "\<exists>out. sed_run w rq (c_str p) (length p) = Inr out \<and>
    (\<forall>f \<in> set out. \<exists>t e. f = SendMessage (rq_chat_id rq) (m_reply_to_message_id (rq_msg rq)) t e)"
proof -
  obtain r where r: "check_replied_msg w rq = Inr r" "\<And>t. r = Some t \<Longrightarrow> NUL \<notin> set t"
    using replied_ok [OF assms(1)] by blast
  show ?thesis
  proof (cases r)
    case None
    with r show ?thesis by (simp add: sed_run_def)
  next
    case (Some t)
    with r sed_command_fits [of t p "w_fill w"] assms(2) obtain heap where
      h: "sed_command (w_fill w) (c_str t) (length t) (c_str p) (length p) = Inr heap" by auto
    obtain out where "shell_exec (w_fill w) (w_popen w (cstr heap)) = Inr out"
      using world_shell [OF assms(1)] by blast
    with Some r h show ?thesis by (simp add: sed_run_def)
  qed
qed

subsection \<open>What the matches do\<close>

lemma sed_match_result:
  assumes "world_ok w" and "NUL \<notin> set (rq_text rq)"
  shows "\<exists>b out. sed_match w rq = Inr (b, out) \<and> (\<not> b \<longrightarrow> out = []) \<and>
    (\<forall>f \<in> set out. \<exists>r t e. f = SendMessage (rq_chat_id rq) r t e)"
proof (cases "length (rq_text rq) < 6")
  case False
  have "NUL \<notin> set (drop 5 (rq_text rq))" using assms(2) by (meson in_set_dropD)
  from sed_run_result [OF assms(1) this, of rq] obtain out where
    out: "sed_run w rq (c_str (drop 5 (rq_text rq))) (length (rq_text rq) - 5) = Inr out"
    "\<forall>f \<in> set out. \<exists>r t e. f = SendMessage (rq_chat_id rq) r t e" by fastforce
  obtain eq where eq: "memcmp_eq (drop 1 (c_str (rq_text rq))) ''sed '' = Inr eq"
    using False by (simp add: memcmp_c_str)
  from False out show ?thesis
    by (cases eq) (auto simp: sed_match_def eq drop_c_str [of 5] hit_def simp del: One_nat_def)
qed (auto simp: sed_match_def)

lemma kernel_match_result:
  assumes "world_ok w"
  shows "\<exists>b out. kernel_match w rq = Inr (b, out) \<and> (\<not> b \<longrightarrow> out = []) \<and>
    (\<forall>f \<in> set out. \<exists>r t e. f = SendMessage (rq_chat_id rq) r t e)"
proof -
  obtain date where "shell_exec (w_fill w) (w_popen w ''date -u'') = Inr date"
    using world_shell [OF assms] by blast
  then show ?thesis
    by (auto simp: kernel_match_def memcmp_c_str hit_def kernel_run_def split: sum.split)
qed

text \<open>ShellExec on a text: who may use it, and the one way it can trap.\<close>

lemma shellexec_match_cases:
  assumes "world_ok w" and "NUL \<notin> set (rq_text rq)"
  shows "(\<exists>b out. shellexec_match w rq = Inr (b, out) \<and> (\<not> b \<longrightarrow> out = []) \<and>
      (\<not> rq_self rq \<longrightarrow> (\<forall>f \<in> set out. \<exists>r t e. f = SendMessage (rq_chat_id rq) r t e)) \<and>
      (b \<longrightarrow> rq_self rq \<or> rq_sender_id rq = 243692601)) \<or>
    (shellexec_match w rq = Inl OutOfBounds \<and> (rq_self rq \<or> rq_sender_id rq = 243692601) \<and>
      (\<exists>k \<in> {4, 5}. set (drop k (rq_text rq)) \<subseteq> {Q}))"
proof (cases "length (rq_text rq) < 5")
  case False
  have n: "NUL \<notin> set (drop k (rq_text rq))" for k using assms(2) by (meson in_set_dropD)
  note R = shellexec_run_result [OF assms(1) n, where rq = rq]
  have run: "(\<exists>out. hit (shellexec_run w rq e (drop k (c_str (rq_text rq))) (length (rq_text rq) - k)) = Inr (True, out) \<and>
        (\<not> e \<longrightarrow> (\<forall>f \<in> set out. \<exists>r t e. f = SendMessage (rq_chat_id rq) r t e))) \<or>
      (hit (shellexec_run w rq e (drop k (c_str (rq_text rq))) (length (rq_text rq) - k)) = Inl OutOfBounds \<and>
        set (drop k (rq_text rq)) \<subseteq> {Q})" if "k \<in> {4, 5}" for k e
    using that False R [of k e] by (auto simp: drop_c_str hit_def split: if_splits)
  have len: "\<not> length (rq_text rq) < 5" using False .
  let ?sh = "take 3 (drop (Suc 0) (c_str (rq_text rq))) = ''sh ''"
  let ?shr = "take 4 (drop (Suc 0) (c_str (rq_text rq))) = ''shr ''"
  have m: "memcmp_eq (drop 1 (c_str (rq_text rq))) ''sh '' = Inr ?sh"
    "memcmp_eq (drop 1 (c_str (rq_text rq))) ''shr '' = Inr ?shr"
    using len by (simp_all add: memcmp_c_str eval_nat_numeral)
  show ?thesis
    using len run [of 4 False] run [of 5 False] run [of 5 True]
    unfolding shellexec_match_def Let_def m
    by (cases ?sh; cases ?shr; cases "rq_self rq"; cases "rq_sender_id rq = 243692601")
      (simp_all add: sudoers_def, (metis insertI1 insertI2)+)
qed (auto simp: shellexec_match_def)

subsection \<open>Properties\<close>

text \<open>The bot's message as another user sent it.\<close>

definition text_message :: "int \<Rightarrow> string \<Rightarrow> message" where
  "text_message sender t =
     \<lparr>m_id = 10, m_sender = SenderUser sender, m_chat_id = 5, m_date = 0, m_edit_date = 0,
      m_forward_info = None, m_reply_in_chat_id = 5, m_reply_to_message_id = 9,
      m_content = Some (MessageText \<lparr>ft_text = t, ft_entities = []\<rparr>)\<rparr>"

definition text_request :: "bool \<Rightarrow> int \<Rightarrow> string \<Rightarrow> request" where
  "text_request self sender t =
     \<lparr>rq_self = self, rq_chat_id = 5, rq_sender_id = sender, rq_sender_name = [], rq_text = t,
      rq_msg = text_message sender t\<rparr>"

definition echo_world :: world where
  "echo_world = \<lparr>w_popen = PopenOutput, w_get_message = (\<lambda>_ _. Inr (text_message 3 ''it's'')),
     w_to_string = (\<lambda>_. []), w_kernel = Inl ''no network'', w_fill = CHR ''x''\<rparr>"

text \<open>
  C21: ShellExec writes past the end of its buffer exactly when the command it is given consists
  of quotes only, the empty command of "/shr " included. In all other cases the command line
  it runs is the wrapper, the command as one shell word, and the redirection, and the reply
  carries the output of that line: an edit of the message for "/shr", else a new message.
\<close>

theorem shellexec_command_line:
  assumes "world_ok w" and "NUL \<notin> set s"
  shows "if set s \<subseteq> {Q} then shellexec_run w rq e (c_str s) (length s) = Inl OutOfBounds
    else \<exists>out word. shell_exec (w_fill w) (w_popen w (shell_wrap @ word @ to_stdout)) = Inr out \<and>
      sh_word False (word @ to_stdout) = Some (s, to_stdout) \<and>
      shellexec_run w rq e (c_str s) (length s) =
        Inr [if e then EditMessageText (rq_chat_id rq) (m_id (rq_msg rq)) out
                         [TextEntity 0 (int (length out)) EntityPreCode]
             else SendMessage (rq_chat_id rq) (m_id (rq_msg rq)) out
                         [TextEntity 0 (int (length out)) EntityPreCode]]"
proof -
  have "ends_word to_stdout" by (simp add: ends_word_def to_stdout_def sh_meta_def)
  then have "sh_word False (esc_text s @ to_stdout) = Some (s, to_stdout)"
    by (rule sh_word_esc_text)
  with shellexec_run_result [OF assms, of rq e] show ?thesis
    by (cases "set s \<subseteq> {Q}") (simp_all only: if_True if_False if_P if_not_P simp_thms, blast+)
qed

lemma echo_world_ok: "world_ok echo_world"
  by (simp add: world_ok_def echo_world_def text_message_def)

theorem shellexec_command_line_witness:
  "shellexec_run echo_world (text_request True 7 ''/shr '') True (c_str []) 0 = Inl OutOfBounds \<and>
   (\<exists>out word. sh_word False (word @ to_stdout) = Some (''ls -l'', to_stdout) \<and>
      shellexec_run echo_world (text_request True 7 ''/sh ls -l'') False (c_str ''ls -l'') (length ''ls -l'') =
        Inr [SendMessage 5 10 out [TextEntity 0 (int (length out)) EntityPreCode]])"
  using shellexec_command_line [OF echo_world_ok, of "[]" "text_request True 7 ''/shr ''" True]
    shellexec_command_line [OF echo_world_ok, of "''ls -l''" "text_request True 7 ''/sh ls -l''" False]
  by (auto simp: text_request_def text_message_def)

text \<open>
  C30: The command line of Sed fits its buffer for every replied text and every pattern, and a
  shell reads the replied text as the second argument of \<open>printf\<close> and the pattern as the
  argument of \<open>sed\<close>, each as one word.
\<close>

theorem sed_command_words:
  assumes "NUL \<notin> set t" and "NUL \<notin> set p"
  shows "\<exists>heap word1 word2.
    sed_command fill (c_str t) (length t) (c_str p) (length p) = Inr heap \<and>
    cstr heap = print_cmd @ word1 @ sed_cmd @ word2 @ to_stdout \<and>
    sh_word False (word1 @ sed_cmd @ word2 @ to_stdout) = Some (t, sed_cmd @ word2 @ to_stdout) \<and>
    sh_word False (word2 @ to_stdout) = Some (p, to_stdout)"
proof -
  have e: "ends_word to_stdout" "ends_word (sed_cmd @ r)" for r
    by (simp_all add: ends_word_def to_stdout_def sed_cmd_def sh_meta_def)
  from sed_command_fits [OF assms, of fill] show ?thesis
    using sh_word_esc_text [OF e(1), of p]
      sh_word_esc_text [OF e(2) [of "esc_text p @ to_stdout"], of t] by blast
qed

theorem sed_command_words_witness:
  "\<exists>heap word1 word2.
    sed_command NUL (c_str [Q, Q]) (length [Q, Q]) (c_str ''s/a/b/'') (length ''s/a/b/'') = Inr heap \<and>
    cstr heap = print_cmd @ word1 @ sed_cmd @ word2 @ to_stdout \<and>
    sh_word False (word1 @ sed_cmd @ word2 @ to_stdout) = Some ([Q, Q], sed_cmd @ word2 @ to_stdout) \<and>
    sh_word False (word2 @ to_stdout) = Some (''s/a/b/'', to_stdout)"
  by (rule sed_command_words) simp_all

text \<open>
  A text of somebody else than the account and the one listed administrator never reaches
  ShellExec, and no message of somebody else makes the bot edit a message: all it sends for
  them are new messages in the same chat. The only trap on the way is the buffer of
  ShellExec, and only the administrator can reach it.
\<close>

theorem others_only_get_replies:
  assumes "world_ok w" and "NUL \<notin> set (rq_text rq)" and "\<not> rq_self rq"
  shows "(rq_sender_id rq \<noteq> 243692601 \<longrightarrow> shellexec_match w rq = Inr (False, [])) \<and>
    ((\<exists>out. message_handle_text w rq = Inr out \<and>
        (\<forall>f \<in> set out. \<exists>r t e. f = SendMessage (rq_chat_id rq) r t e)) \<or>
     (message_handle_text w rq = Inl OutOfBounds \<and> rq_sender_id rq = 243692601))"
proof
  from shellexec_match_cases [OF assms(1,2)] assms(3)
  show "rq_sender_id rq \<noteq> 243692601 \<longrightarrow> shellexec_match w rq = Inr (False, [])" by auto
next
  obtain b1 o1 where 1: "kernel_match w rq = Inr (b1, o1)"
    "\<forall>f \<in> set o1. \<exists>r t e. f = SendMessage (rq_chat_id rq) r t e"
    using kernel_match_result [OF assms(1)] by blast
  obtain b3 o3 where 3: "sed_match w rq = Inr (b3, o3)"
    "\<forall>f \<in> set o3. \<exists>r t e. f = SendMessage (rq_chat_id rq) r t e"
    using sed_match_result [OF assms(1,2)] by blast
  from shellexec_match_cases [OF assms(1,2)] assms(3)
  show "(\<exists>out. message_handle_text w rq = Inr out \<and>
        (\<forall>f \<in> set out. \<exists>r t e. f = SendMessage (rq_chat_id rq) r t e)) \<or>
     (message_handle_text w rq = Inl OutOfBounds \<and> rq_sender_id rq = 243692601)"
  proof (elim disjE exE conjE)
    fix b2 o2
    assume "shellexec_match w rq = Inr (b2, o2)"
      "\<not> rq_self rq \<longrightarrow> (\<forall>f \<in> set o2. \<exists>r t e. f = SendMessage (rq_chat_id rq) r t e)"
    with 1 3 assms(3) show ?thesis by (simp add: message_handle_text_def)
  next
    assume "shellexec_match w rq = Inl OutOfBounds" "rq_self rq"
    with assms(3) show ?thesis by simp
  next
    assume "shellexec_match w rq = Inl OutOfBounds" "rq_sender_id rq = 243692601"
    with 1 show ?thesis by (simp add: message_handle_text_def)
  qed
qed

theorem others_only_get_replies_witness:
  "shellexec_match echo_world (text_request False 8 ''/sh rm x'') = Inr (False, [])"
  using others_only_get_replies [OF echo_world_ok, of "text_request False 8 ''/sh rm x''"]
  by (simp add: text_request_def)

text \<open>
  The account's own messages are recognised only if its identifier fits a signed 32-bit
  integer: \<open>TdHandler\<close> keeps the identifier it learned from \<open>getMe\<close> in 32 bits, and a wider
  sender identifier never equals it.
\<close>

theorem own_message_recognised:
  assumes "th_run_handler THGetMe (ObjUser u) s = Inr t"
    and "m_sender m = SenderUser (u_id u)" and "m_content m = Some c"
  shows "\<exists>rq. response_request t m = Inr rq \<and> rq_chat_id rq = m_chat_id m \<and>
    rq_sender_id rq = u_id u \<and> (rq_self rq \<longleftrightarrow> - (2 ^ 31) \<le> u_id u \<and> u_id u < 2 ^ 31)"
proof -
  have "sint (word_of_int (u_id u) :: 32 word) = u_id u \<longleftrightarrow> - (2 ^ 31) \<le> u_id u \<and> u_id u < 2 ^ 31"
    by (simp add: sint_sbintrunc' signed_take_bit_int_eq_self_iff)
  moreover have "h_user_id t = word_of_int (u_id u)" using assms(1) by auto
  ultimately show ?thesis
    using assms(2,3) by (simp only: response_request_def Let_def option.case message_sender.case
        prod.case) simp
qed

theorem own_message_recognised_witness:
  "\<exists>t rq. th_run_handler THGetMe (ObjUser (example_user (2 ^ 31))) th_start = Inr t \<and>
     response_request t (text_message (2 ^ 31) ''/debug'') = Inr rq \<and> \<not> rq_self rq"
proof -
  obtain t where t: "th_run_handler THGetMe (ObjUser (example_user (2 ^ 31))) th_start = Inr t" by simp
  show ?thesis
    using own_message_recognised [OF t, of "text_message (2 ^ 31) ''/debug''"] t
    by (auto simp: example_user_def text_message_def)
qed

end
