(* ===== verification/TeaBot.thy ===== *)
theory TeaBot
  imports TeaModules
begin

section \<open>TeaBot as a whole (TeaBot.cpp, TeaBot.hpp)\<close>

text \<open>
  Class \<open>TeaBot\<close> owns a \<open>TdHandler\<close> and starts a detached thread for each text message. The
  threads are a step relation over the client they share: the main thread receives one response
  per step, and a response thread goes from one use of the client to the next. A thread uses the
  client to look up the sender, to ask for the replied message (\<open>check_replied_msg\<close>, which locks
  a mutex a second time and so waits until the callback unlocks it), and to send its answer.

  One \<open>send_query\<close> is one step. The code has no lock around the table of handlers, which
  the main thread and the response threads use at the same time; the model says what the
  program does when no two of these accesses overlap.
\<close>

subsection \<open>When a response waits for the replied message\<close>

definition request_run :: "world \<Rightarrow> request \<Rightarrow> ub + td_function list" where
  "request_run w rq = (if rq_self rq then mymessage_run w rq else message_run w rq)"

lemma response_run_split: "response_run w h m = ebind (response_request h m) (request_run w)"
  unfolding response_run_def request_run_def ..

definition command_is :: "nat \<Rightarrow> string \<Rightarrow> string \<Rightarrow> bool" where
  "command_is n name t \<longleftrightarrow> \<not> length t < n \<and> take (length name) (drop 1 t) = name"

text \<open>Mock (own messages only) and Sed look at the replied message.\<close>

definition asks_replied :: "request \<Rightarrow> bool" where
  "asks_replied rq \<longleftrightarrow> is_text (rq_msg rq) = Inr True \<and>
     is_cmd_format (c_str (rq_text rq)) (length (rq_text rq)) \<and>
     (rq_self rq \<and> command_is 5 ''mock'' (rq_text rq) \<or> command_is 6 ''sed '' (rq_text rq))"

lemma memcmp_text:
  assumes "length name < n" and "\<not> length t < n"
  shows "memcmp_eq (drop 1 (c_str t)) name = Inr (take (length name) (drop 1 t) = name)"
proof -
  have "length name < length t" using assms by simp
  then have "take (length name) (drop 1 (c_str t)) = take (length name) (drop 1 t)"
    by (simp add: c_str_def)
  with memcmp_c_str [of name t] assms show ?thesis by simp
qed

lemma match_eqs:
  "debug_match w rq = (if command_is 6 ''debug'' (rq_text rq) then hit (debug_run w rq) else Inr (False, []))"
  "kernel_match w rq = (if command_is 7 ''kernel'' (rq_text rq) then hit (kernel_run w rq) else Inr (False, []))"
  "mock_match w rq = (if command_is 5 ''mock'' (rq_text rq) then hit (mock_run w rq) else Inr (False, []))"
  "sed_match w rq = (if command_is 6 ''sed '' (rq_text rq)
     then hit (sed_run w rq (drop 5 (c_str (rq_text rq))) (length (rq_text rq) - 5)) else Inr (False, []))"
  using memcmp_text [of "''debug''" 6 "rq_text rq"] memcmp_text [of "''kernel''" 7 "rq_text rq"]
    memcmp_text [of "''mock''" 5 "rq_text rq"] memcmp_text [of "''sed ''" 6 "rq_text rq"]
  by (auto simp: debug_match_def kernel_match_def mock_match_def sed_match_def command_is_def)

text \<open>The second character of a command tells them apart.\<close>

lemma command_is_second: "command_is n (c # cs) t \<Longrightarrow> \<exists>a b. t = a # c # b"
proof -
  assume "command_is n (c # cs) t"
  then have *: "take (Suc (length cs)) (drop 1 t) = c # cs" by (simp add: command_is_def)
  then show ?thesis by (cases t; cases "tl t") auto
qed

lemma commands_differ:
  "command_is n (c # cs) t \<Longrightarrow> c \<noteq> d \<Longrightarrow> \<not> command_is k (d # ds) t"
  by (auto dest!: command_is_second)

lemma first_match_command:
  "first_match ((if c then hit r else Inr (False, [])) # ms) = (if c then r else first_match ms)"
  by (cases r) (simp_all add: hit_def)

lemma first_match_hit: "first_match (hit r # ms) = r"
  by (cases r) (simp_all add: hit_def)

lemma first_match_miss: "first_match (Inr (False, out) # ms) = first_match ms"
  by simp

lemmas handle_text_eqs = mymessage_handle_text_def message_handle_text_def match_eqs
  first_match_command first_match_hit first_match_miss first_match.simps(1)

lemma sed_not_shell:
  assumes "command_is 6 ''sed '' (rq_text rq)"
  shows "shellexec_match w rq = Inr (False, [])"
proof -
  from assms have l: "\<not> length (rq_text rq) < 6"
    and t: "take (Suc (Suc (Suc (Suc 0)))) (drop (Suc 0) (rq_text rq)) = ''sed ''"
    by (auto simp: command_is_def)
  then obtain a r where "rq_text rq = a # CHR ''s'' # CHR ''e'' # r"
    by (cases "rq_text rq"; cases "tl (rq_text rq)"; cases "tl (tl (rq_text rq))") auto
  with l show ?thesis
    using memcmp_text [of "''sh ''" 6 "rq_text rq"] memcmp_text [of "''shr ''" 6 "rq_text rq"]
    by (simp add: shellexec_match_def)
qed

abbreviation answering :: "world \<Rightarrow> string + message \<Rightarrow> world" where
  "answering w a \<equiv> w\<lparr>w_get_message := \<lambda>_ _. a\<rparr>"

text \<open>A request that does not ask gives the same whatever the replied message would be.\<close>

lemma shellexec_run_world: "shellexec_run (w\<lparr>w_get_message := g\<rparr>) = shellexec_run w"
  by (intro ext) (simp add: shellexec_run_def)

lemma run_world:
  "debug_run (w\<lparr>w_get_message := g\<rparr>) = debug_run w" "kernel_run (w\<lparr>w_get_message := g\<rparr>) = kernel_run w"
  by (intro ext, simp add: debug_run_def kernel_run_def cong: sum.case_cong prod.case_cong)+

lemma shellexec_match_world: "shellexec_match (w\<lparr>w_get_message := g\<rparr>) rq = shellexec_match w rq"
  unfolding shellexec_match_def shellexec_run_world ..

lemma request_run_no_ask:
  assumes "\<not> asks_replied rq"
  shows "request_run (w\<lparr>w_get_message := g\<rparr>) rq = request_run w rq"
  using assms
  by (cases "is_text (rq_msg rq)")
    (auto simp: request_run_def mymessage_run_def message_run_def handle_text_eqs asks_replied_def
      shellexec_match_world run_world simp del: first_match.simps)

text \<open>A request that asks is its module run on the text of the replied message.\<close>

definition reply_run :: "world \<Rightarrow> request \<Rightarrow> string option \<Rightarrow> ub + td_function list" where
  "reply_run w rq replied =
     (case replied of
        None \<Rightarrow> Inr []
      | Some t \<Rightarrow>
          if command_is 5 ''mock'' (rq_text rq)
          then Inr [EditMessageText (rq_chat_id rq) (m_id (rq_msg rq)) (mock_string t) []]
          else
            ebind (sed_command (w_fill w) (c_str t) (length t)
                     (drop 5 (c_str (rq_text rq))) (length (rq_text rq) - 5)) (\<lambda>heap.
            ebind (shell_exec (w_fill w) (w_popen w (cstr heap))) (\<lambda>out.
              Inr [SendMessage (rq_chat_id rq) (m_reply_to_message_id (rq_msg rq))
                     (''Sed output:'' @ [CHR 0x0A] @ out) [TextEntity 0 11 EntityBold]])))"

lemma request_run_asks:
  assumes "asks_replied rq"
  shows "request_run w rq = ebind (check_replied_msg w rq) (reply_run w rq)"
proof (cases "rq_self rq \<and> command_is 5 ''mock'' (rq_text rq)")
  case True
  then have "\<not> command_is 6 ''debug'' (rq_text rq)" "\<not> command_is 7 ''kernel'' (rq_text rq)"
    by (auto dest: commands_differ)
  with True assms show ?thesis
    by (cases "check_replied_msg w rq")
      (auto simp: request_run_def mymessage_run_def handle_text_eqs asks_replied_def mock_run_def
        reply_run_def simp del: first_match.simps split: option.split)
next
  case False
  with assms have s: "command_is 6 ''sed '' (rq_text rq)" by (simp add: asks_replied_def)
  then have "\<not> command_is 6 ''debug'' (rq_text rq)" "\<not> command_is 7 ''kernel'' (rq_text rq)"
    "\<not> command_is 5 ''mock'' (rq_text rq)"
    by (auto dest: commands_differ)
  with s assms sed_not_shell [OF s, of w] show ?thesis
    by (cases "check_replied_msg w rq")
      (auto simp: request_run_def mymessage_run_def message_run_def handle_text_eqs asks_replied_def
        sed_run_def reply_run_def simp del: first_match.simps split: option.split)
qed

lemma reply_run_world: "reply_run (w\<lparr>w_get_message := g\<rparr>) rq = reply_run w rq"
  by (intro ext) (simp add: reply_run_def cong: option.case_cong if_cong)

text \<open>So one answer to one query is all a response needs.\<close>

lemma request_run_answer:
  "request_run w rq = request_run (answering w
     (w_get_message w (m_reply_in_chat_id (rq_msg rq)) (m_reply_to_message_id (rq_msg rq)))) rq"
proof (cases "asks_replied rq")
  case True
  then show ?thesis
    by (simp add: request_run_asks check_replied_msg_def reply_run_world)
next
  case False
  then show ?thesis by (simp add: request_run_no_ask)
qed

subsection \<open>The threads\<close>

text \<open>
  A response thread: before \<open>Response::run\<close>, in it, waiting in \<open>check_replied_msg\<close>, and with
  queries to send. \<open>rt_query\<close> (the identifier of its query) and \<open>rt_sent\<close> are kept for the
  statements only, as is the list \<open>bt_log\<close> of the responses received.
\<close>

datatype rphase = RNew | RRun | RAsked | RSend "td_function list"

record rthread =
  rt_msg :: message
  rt_rq :: "request option"
  rt_query :: "64 word option"
  rt_sent :: "td_function list"
  rt_at :: rphase

text \<open>The main thread: at the top of \<open>run\<close>'s loop, in \<open>TdHandler::loop\<close>, in the destructor.\<close>

datatype mphase = MCheck | MReceive bool | MClosing | MClosed

record bot =
  bt_client :: tdh
  bt_threads :: "rthread list"
  bt_main :: mphase
  bt_signaled :: bool
  bt_trap :: "ub option"
  bt_log :: "response list"

definition tea_bot_new ::
  "bool \<Rightarrow> int \<Rightarrow> string list \<Rightarrow> 32 word \<Rightarrow> string option \<Rightarrow> string option \<Rightarrow> ub + bot" where
  "tea_bot_new signaled cid input ai ah dp =
     ebind (th_new cid input ai ah dp) (\<lambda>h.
       Inr \<lparr>bt_client = h\<lparr>h_callback := (h_callback h)\<lparr>cb_updateNewMessage := True\<rparr>\<rparr>,
            bt_threads = [], bt_main = MCheck, bt_signaled = signaled, bt_trap = None,
            bt_log = []\<rparr>)"

text \<open>\<open>updateNewMessage\<close>: only text messages get a thread.\<close>

definition start_response :: "message \<Rightarrow> bot \<Rightarrow> ub + bot" where
  "start_response m b =
     ebind (is_text m) (\<lambda>t.
       if \<not> t then Inr b
       else Inr (b\<lparr>bt_threads := bt_threads b @
              [\<lparr>rt_msg = m, rt_rq = None, rt_query = None, rt_sent = [], rt_at = RNew\<rparr>]\<rparr>))"

fun new_message :: "response \<Rightarrow> message option" where
  "new_message (q, Some (ObjUpdate (UpdateNewMessage m))) = (if q = 0 then Some m else None)"
| "new_message _ = None"

definition run_callback :: "response \<Rightarrow> bot \<Rightarrow> ub + bot" where
  "run_callback r b =
     (case new_message r of
        None \<Rightarrow> Inr b
      | Some m \<Rightarrow>
          if cb_updateNewMessage (h_callback (bt_client b)) then start_response m b else Inr b)"

text \<open>One turn of the loop in \<open>run\<close> up to the first \<open>receive\<close>, and the start of the destructor.\<close>

definition main_check :: "bot \<Rightarrow> ub + bot" where
  "main_check b =
     (if bt_signaled b
      then ebind (th_send_query CloseClient None (bt_client b)) (\<lambda>c.
             Inr (b\<lparr>bt_client := c, bt_main := MClosing\<rparr>))
      else if h_need_restart (bt_client b)
      then Inr (b\<lparr>bt_client := th_restart (bt_client b)\<rparr>)
      else Inr (b\<lparr>bt_main := MReceive (h_are_authorized (bt_client b))\<rparr>))"

fun after_receive :: "bool \<Rightarrow> mphase \<Rightarrow> mphase" where
  "after_receive got (MReceive many) = (if many \<and> got then MReceive True else MCheck)"
| "after_receive got MClosing = (if got then MClosing else MClosed)"
| "after_receive got p = p"

definition main_receive :: "response \<Rightarrow> bot \<Rightarrow> ub + bot" where
  "main_receive r b =
     (if \<not> h_client_manager (bt_client b) then Inl NullDeref
      else
        ebind (th_process_response r (bt_client b)) (\<lambda>c.
        ebind (run_callback r (b\<lparr>bt_client := c, bt_log := bt_log b @ [r]\<rparr>)) (\<lambda>b.
          Inr (b\<lparr>bt_main := after_receive (snd r \<noteq> None) (bt_main b)\<rparr>))))"

definition put_thread :: "nat \<Rightarrow> rthread \<Rightarrow> bot \<Rightarrow> bot" where
  "put_thread i t b = b\<lparr>bt_threads := (bt_threads b)[i := t]\<rparr>"

definition thread_begin :: "nat \<Rightarrow> bot \<Rightarrow> ub + bot" where
  "thread_begin i b =
     (let t = bt_threads b ! i in
      ebind (response_request (bt_client b) (rt_msg t)) (\<lambda>rq.
        Inr (put_thread i (t\<lparr>rt_rq := Some rq, rt_at := RRun\<rparr>) b)))"

definition thread_run :: "world \<Rightarrow> nat \<Rightarrow> request \<Rightarrow> bot \<Rightarrow> ub + bot" where
  "thread_run w i rq b =
     (let t = bt_threads b ! i in
      if asks_replied rq
      then ebind (th_send_query (GetMessage (m_reply_in_chat_id (rq_msg rq))
                    (m_reply_to_message_id (rq_msg rq))) (Some (THReplied i)) (bt_client b)) (\<lambda>c.
             Inr (put_thread i (t\<lparr>rt_query := Some (h_current_query_id c), rt_at := RAsked\<rparr>)
                    (b\<lparr>bt_client := c\<rparr>)))
      else ebind (request_run w rq) (\<lambda>fs. Inr (put_thread i (t\<lparr>rt_at := RSend fs\<rparr>) b)))"

text \<open>The callback of \<open>getMessage\<close> gets an error or a message; TDLib has no other answer.\<close>

fun as_answer :: "td_object \<Rightarrow> (string + message) option" where
  "as_answer (ObjError c e) = Some (Inl e)"
| "as_answer (ObjMessage m) = Some (Inr m)"
| "as_answer _ = None"

definition thread_resume :: "world \<Rightarrow> nat \<Rightarrow> request \<Rightarrow> string + message \<Rightarrow> bot \<Rightarrow> ub + bot" where
  "thread_resume w i rq a b =
     ebind (request_run (answering w a) rq) (\<lambda>fs.
       Inr (put_thread i ((bt_threads b ! i)\<lparr>rt_at := RSend fs\<rparr>) b))"

definition thread_send :: "nat \<Rightarrow> td_function \<Rightarrow> td_function list \<Rightarrow> bot \<Rightarrow> ub + bot" where
  "thread_send i f fs b =
     ebind (th_send_query f None (bt_client b)) (\<lambda>c.
       let t = bt_threads b ! i in
       Inr (put_thread i (t\<lparr>rt_sent := rt_sent t @ [f], rt_at := RSend fs\<rparr>) (b\<lparr>bt_client := c\<rparr>)))"

text \<open>A trap in any thread ends the process.\<close>

definition bot_settle :: "bot \<Rightarrow> ub + bot \<Rightarrow> bot" where
  "bot_settle b r = (case r of Inl e \<Rightarrow> b\<lparr>bt_trap := Some e\<rparr> | Inr c \<Rightarrow> c)"

text \<open>
  TDLib answers a query once: a response other than an update has an identifier not seen before.
\<close>

definition unseen :: "response \<Rightarrow> bot \<Rightarrow> bool" where
  "unseen r b \<longleftrightarrow> fst r = 0 \<or> fst r \<notin> fst ` set (bt_log b)"

definition thread_at :: "bot \<Rightarrow> nat \<Rightarrow> rphase \<Rightarrow> bool" where
  "thread_at b i p \<longleftrightarrow> bt_trap b = None \<and> i < length (bt_threads b) \<and> rt_at (bt_threads b ! i) = p"

inductive bstep :: "world \<Rightarrow> bot \<Rightarrow> bot \<Rightarrow> bool" for w where
  signal: "bt_trap b = None \<Longrightarrow> bstep w b (b\<lparr>bt_signaled := True\<rparr>)"
| check: "bt_trap b = None \<Longrightarrow> bt_main b = MCheck \<Longrightarrow> bstep w b (bot_settle b (main_check b))"
| receive: "bt_trap b = None \<Longrightarrow> bt_main b \<in> {MReceive False, MReceive True, MClosing} \<Longrightarrow> unseen r b \<Longrightarrow>
    bstep w b (bot_settle b (main_receive r b))"
| thread_begins: "thread_at b i RNew \<Longrightarrow> bstep w b (bot_settle b (thread_begin i b))"
| thread_runs: "thread_at b i RRun \<Longrightarrow> rt_rq (bt_threads b ! i) = Some rq \<Longrightarrow>
    bstep w b (bot_settle b (thread_run w i rq b))"
| resume: "thread_at b i RAsked \<Longrightarrow> rt_rq (bt_threads b ! i) = Some rq \<Longrightarrow>
    h_replies (bt_client b) i = Some obj \<Longrightarrow> as_answer obj = Some a \<Longrightarrow>
    bstep w b (bot_settle b (thread_resume w i rq a b))"
| thread_sends: "thread_at b i (RSend (f # fs)) \<Longrightarrow> bstep w b (bot_settle b (thread_send i f fs b))"

inductive_cases bstep_elim: "bstep w b c"

abbreviation breaches :: "world \<Rightarrow> bot \<Rightarrow> bot \<Rightarrow> bool" where
  "breaches w \<equiv> (bstep w)\<^sup>*\<^sup>*"

subsection \<open>What the client does for the threads\<close>

text \<open>Using the client for something else registers no handler of a response thread.\<close>

definition undisturbed :: "tdh \<Rightarrow> tdh \<Rightarrow> bool" where
  "undisturbed s t \<longleftrightarrow> set (h_sent s) \<subseteq> set (h_sent t) \<and> h_callback t = h_callback s \<and>
     h_replies t = h_replies s \<and>
     (\<forall>q k. h_handlers t q = Some (THReplied k) \<longrightarrow> h_handlers s q = Some (THReplied k))"

lemma undisturbed_refl [simp]: "undisturbed s s"
  by (simp add: undisturbed_def)

lemma undisturbed_trans: "undisturbed s t \<Longrightarrow> undisturbed t u \<Longrightarrow> undisturbed s u"
  by (auto simp: undisturbed_def)

lemma undisturbed_fields:
  "h_sent t = h_sent s \<Longrightarrow> h_callback t = h_callback s \<Longrightarrow> h_replies t = h_replies s \<Longrightarrow>
     h_handlers t = h_handlers s \<Longrightarrow> undisturbed s t"
  by (simp add: undisturbed_def)

text \<open>What a query of a response thread, or of the client itself, adds.\<close>

lemma th_send_query_adds:
  assumes "th_send_query f h s = Inr t"
  shows "set (h_sent s) \<subseteq> set (h_sent t)" and "(h_client_id s, h_current_query_id t, f) \<in> set (h_sent t)"
    and "h_callback t = h_callback s" and "h_replies t = h_replies s"
    and "h_handlers t q = Some g \<Longrightarrow>
      h_handlers s q = Some g \<or> q = h_current_query_id t \<and> h = Some g"
  using assms by (auto simp: th_send_query_eq split: if_splits option.splits dest: emplace_SomeD)

lemma th_send_query_undisturbed:
  "th_send_query f h s = Inr t \<Longrightarrow> (\<And>k. h \<noteq> Some (THReplied k)) \<Longrightarrow> undisturbed s t"
  using th_send_query_adds [of f h s t] by (auto simp: undisturbed_def)

lemma th_send_auth_undisturbed: "th_send_auth f s = Inr t \<Longrightarrow> undisturbed s t"
  unfolding th_send_auth_def
  by (erule th_send_query_undisturbed) (simp add: th_create_authentication_query_handler_def)

lemma th_getline_undisturbed: "th_getline s = (l, t) \<Longrightarrow> undisturbed s t"
  by (auto simp: th_getline_def undisturbed_def split: list.splits)

lemma th_auth_branch_undisturbed: "th_auth_branch st s = Inr t \<Longrightarrow> undisturbed s t"
proof (cases st)
  case AuthReady
  assume "th_auth_branch st s = Inr t"
  with AuthReady have "undisturbed (s\<lparr>h_are_authorized := True\<rparr>) t"
    by (auto intro: th_send_query_undisturbed)
  then show ?thesis by (simp add: undisturbed_def)
qed (auto simp: Let_def ebind_eq_Inr undisturbed_fields split: prod.splits
    dest!: th_send_auth_undisturbed th_getline_undisturbed intro: undisturbed_trans)

lemma th_on_auth_undisturbed:
  assumes "th_on_authorization_state_update s = Inr t"
  shows "undisturbed s t"
proof -
  from assms obtain st u where
    "th_auth_branch st (s\<lparr>h_auth_mutex := True,
       h_authentication_query_id := h_authentication_query_id s + 1\<rparr>) = Inr u"
    "t = u\<lparr>h_auth_mutex := False\<rparr>"
    by (auto simp: th_on_authorization_state_update_def Let_def ebind_eq_Inr
        split: if_splits option.splits)
  with th_auth_branch_undisturbed [OF this(1)] show ?thesis by (simp add: undisturbed_def)
qed

lemma th_process_update_undisturbed:
  assumes "th_process_update obj s = Inr t"
  shows "undisturbed s t"
  using assms
proof (cases "(obj, s)" rule: th_process_update.cases)
  case (1 st s')
  with assms obtain u where
    "th_on_authorization_state_update (s\<lparr>h_authorization_state := Some st\<rparr>) = Inr u"
    "t = th_callback_execute (UpdateAuthorizationState st) u"
    by (auto simp: ebind_eq_Inr)
  with th_on_auth_undisturbed [OF this(1)] show ?thesis
    by (simp add: undisturbed_def th_callback_execute_def)
qed (auto simp: th_callback_execute_def undisturbed_fields split: if_splits)

text \<open>
  So a response changes what the threads see only if it answers one of their queries, and then
  in the place of that thread.
\<close>

lemma th_process_response_threads:
  assumes "th_process_response r s = Inr t"
  shows "undisturbed s t \<or>
    (\<exists>k obj. snd r = Some obj \<and> h_handlers s (fst r) = Some (THReplied k) \<and>
       t = s\<lparr>h_replies := (h_replies s)(k \<mapsto> obj)\<rparr>)"
proof -
  obtain q x where r: "r = (q, x)" by (cases r)
  consider (null) "x = None \<or> (q \<noteq> 0 \<and> h_handlers s q = None)"
    | (update) obj where "x = Some obj" "q = 0"
    | (handler) obj h where "x = Some obj" "q \<noteq> 0" "h_handlers s q = Some h"
    by (cases x; cases "q = 0"; cases "h_handlers s q") auto
  then show ?thesis
  proof cases
    case null
    with assms r have "s = t" by (elim disjE) (simp_all add: th_process_response_def split: option.splits)
    then show ?thesis by simp
  next
    case update
    with assms r show ?thesis
      by (simp add: th_process_response_def th_process_update_undisturbed)
  next
    case handler
    with assms r have "th_run_handler h obj s = Inr t" by (simp add: th_process_response_def)
    with handler r show ?thesis
      by (cases h) (auto simp: th_check_authentication_error_def undisturbed_fields
          split: if_splits td_object.splits dest: th_on_auth_undisturbed)
  qed
qed

subsection \<open>The invariant\<close>

definition get_replied :: "message \<Rightarrow> td_function" where
  "get_replied m = GetMessage (m_reply_in_chat_id m) (m_reply_to_message_id m)"

text \<open>
  What a thread has sent, and has yet to send, is what its module gives on the reply to its own
  query.
\<close>

definition answered ::
  "world \<Rightarrow> (int \<times> 64 word \<times> td_function) set \<Rightarrow> response set \<Rightarrow> rthread \<Rightarrow> td_function list \<Rightarrow> bool" where
  "answered w qs rs t fs \<longleftrightarrow>
     (\<exists>rq a. rt_rq t = Some rq \<and> rq_msg rq = rt_msg t \<and>
        request_run (answering w a) rq = Inr (rt_sent t @ fs) \<and>
        (asks_replied rq \<longrightarrow> (\<exists>q obj c. rt_query t = Some q \<and> (c, q, get_replied (rt_msg t)) \<in> qs \<and>
           (q, Some obj) \<in> rs \<and> as_answer obj = Some a)))"

definition waiting :: "(int \<times> 64 word \<times> td_function) set \<Rightarrow> rthread \<Rightarrow> bool" where
  "waiting qs t \<longleftrightarrow> rt_sent t = [] \<and>
     (\<exists>rq q c. rt_rq t = Some rq \<and> rq_msg rq = rt_msg t \<and> rt_query t = Some q \<and>
        (c, q, get_replied (rt_msg t)) \<in> qs)"

fun phase_ok ::
  "world \<Rightarrow> (int \<times> 64 word \<times> td_function) set \<Rightarrow> response set \<Rightarrow> rthread \<Rightarrow> rphase \<Rightarrow> bool" where
  "phase_ok w qs rs t RNew \<longleftrightarrow> rt_query t = None \<and> rt_sent t = []"
| "phase_ok w qs rs t RRun \<longleftrightarrow> rt_query t = None \<and> rt_sent t = [] \<and>
     (\<exists>rq. rt_rq t = Some rq \<and> rq_msg rq = rt_msg t)"
| "phase_ok w qs rs t RAsked \<longleftrightarrow> waiting qs t"
| "phase_ok w qs rs t (RSend fs) \<longleftrightarrow> answered w qs rs t fs"

definition rthread_ok ::
  "world \<Rightarrow> (int \<times> 64 word \<times> td_function) set \<Rightarrow> response set \<Rightarrow> rthread \<Rightarrow> bool" where
  "rthread_ok w qs rs t \<longleftrightarrow>
     phase_ok w qs rs t (rt_at t) \<and> set (rt_sent t) \<subseteq> (snd \<circ> snd) ` qs"

lemma rthread_ok_mono:
  assumes "rthread_ok w qs rs t" and "qs \<subseteq> qs'" and "rs \<subseteq> rs'"
  shows "rthread_ok w qs' rs' t"
proof -
  have "phase_ok w qs' rs' t (rt_at t)"
    using assms by (cases "rt_at t") (simp_all add: rthread_ok_def waiting_def answered_def, blast+)
  then show ?thesis using assms unfolding rthread_ok_def by blast
qed

text \<open>The handlers and the replies of the threads are where the threads look for them.\<close>

definition handlers_ok :: "bot \<Rightarrow> bool" where
  "handlers_ok b \<longleftrightarrow> (\<forall>q k. h_handlers (bt_client b) q = Some (THReplied k) \<longrightarrow>
     k < length (bt_threads b) \<and> rt_query (bt_threads b ! k) = Some q)"

definition replies_ok :: "bot \<Rightarrow> bool" where
  "replies_ok b \<longleftrightarrow> (\<forall>k obj. h_replies (bt_client b) k = Some obj \<longrightarrow> k < length (bt_threads b) \<and>
     (\<exists>q. rt_query (bt_threads b ! k) = Some q \<and> (q, Some obj) \<in> set (bt_log b)))"

text \<open>The text messages among the responses received, in their order.\<close>

definition text_messages :: "response list \<Rightarrow> message list" where
  "text_messages rs = filter (\<lambda>m. is_text m = Inr True) (List.map_filter new_message rs)"

lemma text_messages_snoc:
  "text_messages (rs @ [r]) = text_messages rs @
     (case new_message r of None \<Rightarrow> [] | Some m \<Rightarrow> if is_text m = Inr True then [m] else [])"
  by (simp add: text_messages_def map_filter_def split: option.split)

definition bot_ok :: "world \<Rightarrow> bot \<Rightarrow> bool" where
  "bot_ok w b \<longleftrightarrow> cb_updateNewMessage (h_callback (bt_client b)) \<and> handlers_ok b \<and> replies_ok b \<and>
     map rt_msg (bt_threads b) = text_messages (bt_log b) \<and>
     (\<forall>t \<in> set (bt_threads b). rthread_ok w (set (h_sent (bt_client b))) (set (bt_log b)) t)"

lemma bot_ok_fields:
  "bt_client c = bt_client b \<Longrightarrow> bt_threads c = bt_threads b \<Longrightarrow> bt_log c = bt_log b \<Longrightarrow>
     bot_ok w c \<longleftrightarrow> bot_ok w b"
  by (simp add: bot_ok_def handlers_ok_def replies_ok_def)

lemma bot_ok_settle:
  "bot_ok w b \<Longrightarrow> (\<And>c. r = Inr c \<Longrightarrow> bot_ok w c) \<Longrightarrow> bot_ok w (bot_settle b r)"
  using bot_ok_fields [of "b\<lparr>bt_trap := x\<rparr>" b w for x] by (cases r) (simp_all add: bot_settle_def)

text \<open>A use of the client by the main thread.\<close>

lemma bot_ok_client:
  assumes "bot_ok w b" and "undisturbed (bt_client b) c"
  shows "bot_ok w (b\<lparr>bt_client := c\<rparr>)"
proof -
  have "handlers_ok (b\<lparr>bt_client := c\<rparr>)" "replies_ok (b\<lparr>bt_client := c\<rparr>)"
    using assms by (simp_all add: bot_ok_def handlers_ok_def replies_ok_def undisturbed_def) blast+
  moreover have "rthread_ok w (set (h_sent c)) (set (bt_log b)) t" if "t \<in> set (bt_threads b)" for t
    by (rule rthread_ok_mono [OF _ _ subset_refl])
      (use assms that in \<open>auto simp: bot_ok_def undisturbed_def\<close>)
  ultimately show ?thesis using assms by (simp add: bot_ok_def undisturbed_def)
qed

text \<open>A step of thread \<open>i\<close>, which may register the handler of its query.\<close>

lemma bot_ok_put:
  assumes "bot_ok w b" and i: "i < length (bt_threads b)"
    and "rt_msg t = rt_msg (bt_threads b ! i)"
    and q: "rt_query (bt_threads b ! i) = None \<or> rt_query t = rt_query (bt_threads b ! i)"
    and s: "set (h_sent (bt_client b)) \<subseteq> set (h_sent c)" and "h_callback c = h_callback (bt_client b)"
    and r: "h_replies c = h_replies (bt_client b)"
    and h: "\<And>q k. h_handlers c q = Some (THReplied k) \<Longrightarrow>
      h_handlers (bt_client b) q = Some (THReplied k) \<or> k = i \<and> rt_query t = Some q"
    and "rthread_ok w (set (h_sent c)) (set (bt_log b)) t"
  shows "bot_ok w (put_thread i t (b\<lparr>bt_client := c\<rparr>))"
proof -
  let ?b = "put_thread i t (b\<lparr>bt_client := c\<rparr>)"
  have "handlers_ok ?b"
    unfolding handlers_ok_def
  proof (intro allI impI)
    fix p k
    assume "h_handlers (bt_client ?b) p = Some (THReplied k)"
    then have "h_handlers (bt_client b) p = Some (THReplied k) \<or> k = i \<and> rt_query t = Some p"
      by (simp add: put_thread_def h)
    with assms(1) i q show "k < length (bt_threads ?b) \<and> rt_query (bt_threads ?b ! k) = Some p"
      by (auto simp: put_thread_def bot_ok_def handlers_ok_def nth_list_update)
  qed
  moreover have "replies_ok ?b"
    using assms(1) i q r by (fastforce simp: put_thread_def bot_ok_def replies_ok_def nth_list_update)
  moreover have "map rt_msg (bt_threads ?b) = map rt_msg (bt_threads b)"
    using i assms(3) by (simp add: put_thread_def map_update) (metis length_map list_update_id nth_map)
  moreover have "rthread_ok w (set (h_sent c)) (set (bt_log b)) u" if "u \<in> set (bt_threads ?b)" for u
  proof -
    from that have "u = t \<or> u \<in> set (bt_threads b)"
      using set_update_subset_insert by (fastforce simp: put_thread_def)
    with assms(1,9) s show ?thesis by (auto simp: bot_ok_def elim: rthread_ok_mono)
  qed
  ultimately show ?thesis using assms(1,6) by (simp add: bot_ok_def put_thread_def)
qed

lemma bot_ok_put_same:
  assumes "bot_ok w b" and "i < length (bt_threads b)"
    and "rt_msg t = rt_msg (bt_threads b ! i)" and "rt_query t = rt_query (bt_threads b ! i)"
    and "rthread_ok w (set (h_sent (bt_client b))) (set (bt_log b)) t"
  shows "bot_ok w (put_thread i t b)"
  using bot_ok_put [of w b i t "bt_client b"] assms by simp

subsection \<open>Every step keeps it\<close>

lemma bot_ok_main: "bot_ok w b \<Longrightarrow> bot_ok w (b\<lparr>bt_main := p\<rparr>)"
  using bot_ok_fields [of "b\<lparr>bt_main := p\<rparr>" b w] by simp

lemma bot_ok_signal: "bot_ok w b \<Longrightarrow> bot_ok w (b\<lparr>bt_signaled := p\<rparr>)"
  using bot_ok_fields [of "b\<lparr>bt_signaled := p\<rparr>" b w] by simp

lemma main_check_ok:
  assumes "bot_ok w b" and "main_check b = Inr c"
  shows "bot_ok w c"
proof (cases "bt_signaled b")
  case True
  with assms(2) obtain d where "th_send_query CloseClient None (bt_client b) = Inr d"
    and c: "c = b\<lparr>bt_client := d\<rparr>\<lparr>bt_main := MClosing\<rparr>" by (auto simp: main_check_def ebind_eq_Inr)
  then have "undisturbed (bt_client b) d" by (simp add: th_send_query_undisturbed)
  from bot_ok_client [OF assms(1) this] show ?thesis unfolding c by (rule bot_ok_main)
next
  case False
  have "undisturbed (bt_client b) (th_restart (bt_client b))"
    by (rule undisturbed_fields) (simp_all add: th_restart_def)
  with False assms bot_ok_client [OF assms(1) this] show ?thesis
    by (auto simp: main_check_def bot_ok_main split: if_splits)
qed

text \<open>A response is noted before its callback may start a thread.\<close>

definition noted :: "response \<Rightarrow> tdh \<Rightarrow> bot \<Rightarrow> bot" where
  "noted r c b = b\<lparr>bt_client := c, bt_log := bt_log b @ [r]\<rparr>"

lemma rthreads_noted:
  assumes "bot_ok w b" and "set (h_sent (bt_client b)) \<subseteq> set (h_sent c)"
  shows "\<forall>t \<in> set (bt_threads b). rthread_ok w (set (h_sent c)) (set (bt_log b @ [r])) t"
  by (intro ballI, rule rthread_ok_mono [where qs = "set (h_sent (bt_client b))" and rs = "set (bt_log b)"])
    (use assms in \<open>auto simp: bot_ok_def\<close>)

lemma noted_ok:
  assumes "bot_ok w b" and "th_process_response r (bt_client b) = Inr c"
  shows "handlers_ok (noted r c b) \<and> replies_ok (noted r c b) \<and>
    cb_updateNewMessage (h_callback c) \<and> set (h_sent (bt_client b)) \<subseteq> set (h_sent c)"
  using th_process_response_threads [OF assms(2)]
proof
  assume "undisturbed (bt_client b) c"
  with assms(1) show ?thesis
    by (simp add: noted_def bot_ok_def handlers_ok_def replies_ok_def undisturbed_def) blast
next
  assume "\<exists>k obj. snd r = Some obj \<and> h_handlers (bt_client b) (fst r) = Some (THReplied k) \<and>
    c = (bt_client b)\<lparr>h_replies := (h_replies (bt_client b))(k \<mapsto> obj)\<rparr>"
  then obtain k obj where "r = (fst r, Some obj)" "h_handlers (bt_client b) (fst r) = Some (THReplied k)"
    "c = (bt_client b)\<lparr>h_replies := (h_replies (bt_client b))(k \<mapsto> obj)\<rparr>" by (metis prod.collapse)
  with assms(1) show ?thesis
    by (simp add: noted_def bot_ok_def handlers_ok_def replies_ok_def) metis
qed

lemma more_threads_ok:
  "handlers_ok b \<Longrightarrow> handlers_ok (b\<lparr>bt_threads := bt_threads b @ ts\<rparr>)"
  "replies_ok b \<Longrightarrow> replies_ok (b\<lparr>bt_threads := bt_threads b @ ts\<rparr>)"
  unfolding handlers_ok_def replies_ok_def by (simp_all add: nth_append trans_less_add1)

lemma bot_threads_noted: "bt_threads (noted r c b) = bt_threads b"
  by (simp add: noted_def)

lemma main_receive_ok:
  assumes "bot_ok w b" and "main_receive r b = Inr c"
  shows "bot_ok w c"
proof -
  from assms(2) obtain d e where d: "th_process_response r (bt_client b) = Inr d"
    and e: "run_callback r (noted r d b) = Inr e"
    and c: "c = e\<lparr>bt_main := after_receive (snd r \<noteq> None) (bt_main e)\<rparr>"
    by (auto simp: main_receive_def noted_def ebind_eq_Inr split: if_splits)
  note n = noted_ok [OF assms(1) d] and t = rthreads_noted [OF assms(1), of d r]
  have m: "map rt_msg (bt_threads b) = text_messages (bt_log b)" using assms(1) by (simp add: bot_ok_def)
  let ?new = "case new_message r of None \<Rightarrow> [] | Some m \<Rightarrow> if is_text m = Inr True then
    [\<lparr>rt_msg = m, rt_rq = None, rt_query = None, rt_sent = [], rt_at = RNew\<rparr>] else []"
  have e: "e = (noted r d b)\<lparr>bt_threads := bt_threads b @ ?new\<rparr>"
    using e n by (auto simp: run_callback_def start_response_def noted_def ebind_eq_Inr
        split: option.splits if_splits)
  have "bot_ok w e"
    unfolding bot_ok_def
  proof (intro conjI)
    show "handlers_ok e" "replies_ok e"
      using n more_threads_ok [of "noted r d b" ?new] unfolding e bot_threads_noted by blast+
    show "map rt_msg (bt_threads e) = text_messages (bt_log e)"
      unfolding e by (simp add: noted_def text_messages_snoc m split: option.split)
    show "\<forall>t \<in> set (bt_threads e). rthread_ok w (set (h_sent (bt_client e))) (set (bt_log e)) t"
      using t n unfolding e by (auto simp: noted_def rthread_ok_def split: option.split)
  qed (use n in \<open>simp add: e noted_def\<close>)
  then show ?thesis unfolding c by (rule bot_ok_main)
qed

lemma thread_fact:
  "bot_ok w b \<Longrightarrow> thread_at b i p \<Longrightarrow>
     phase_ok w (set (h_sent (bt_client b))) (set (bt_log b)) (bt_threads b ! i) p \<and>
     set (rt_sent (bt_threads b ! i)) \<subseteq> (snd \<circ> snd) ` set (h_sent (bt_client b)) \<and>
     i < length (bt_threads b)"
  by (auto simp: bot_ok_def thread_at_def rthread_ok_def)

lemma thread_begin_ok:
  assumes "bot_ok w b" and "thread_at b i RNew" and "thread_begin i b = Inr c"
  shows "bot_ok w c"
proof -
  note t = thread_fact [OF assms(1,2)]
  from assms(3) obtain rq where "response_request (bt_client b) (rt_msg (bt_threads b ! i)) = Inr rq"
    and c: "c = put_thread i ((bt_threads b ! i)\<lparr>rt_rq := Some rq, rt_at := RRun\<rparr>) b"
    by (auto simp: thread_begin_def Let_def ebind_eq_Inr)
  moreover from this have "rq_msg rq = rt_msg (bt_threads b ! i)"
    by (auto simp: response_request_def Let_def split: option.splits message_sender.splits)
  ultimately show ?thesis
    unfolding c by (intro bot_ok_put_same [OF assms(1)]) (use t in \<open>simp_all add: rthread_ok_def\<close>)
qed

lemma thread_run_ok:
  assumes "bot_ok w b" and "thread_at b i RRun" and "rt_rq (bt_threads b ! i) = Some rq"
    and "thread_run w i rq b = Inr c"
  shows "bot_ok w c"
proof -
  let ?t = "bt_threads b ! i"
  note t = thread_fact [OF assms(1,2)]
  then have m: "rq_msg rq = rt_msg ?t" "rt_query ?t = None" "rt_sent ?t = []"
    using assms(3) by (simp_all add: rthread_ok_def)
  show ?thesis
  proof (cases "asks_replied rq")
    case True
    let ?f = "get_replied (rt_msg ?t)"
    from True assms(4) obtain d where d: "th_send_query ?f (Some (THReplied i)) (bt_client b) = Inr d"
      and c: "c = put_thread i (?t\<lparr>rt_query := Some (h_current_query_id d), rt_at := RAsked\<rparr>)
        (b\<lparr>bt_client := d\<rparr>)"
      by (auto simp: thread_run_def Let_def ebind_eq_Inr get_replied_def m)
    note a = th_send_query_adds [OF d]
    show ?thesis
      unfolding c by (rule bot_ok_put [OF assms(1)])
        (use t m a assms(3) in \<open>auto simp: rthread_ok_def waiting_def\<close>)
  next
    case False
    from False assms(4) obtain fs where fs: "request_run w rq = Inr fs"
      and c: "c = put_thread i (?t\<lparr>rt_at := RSend fs\<rparr>) b"
      by (auto simp: thread_run_def Let_def ebind_eq_Inr)
    have "answered w qs rs (?t\<lparr>rt_at := RSend fs\<rparr>) fs" for qs rs
      using False fs m assms(3) by (simp add: answered_def request_run_no_ask)
    then show ?thesis
      unfolding c by (intro bot_ok_put_same [OF assms(1)]) (use t m in \<open>simp_all add: rthread_ok_def\<close>)
  qed
qed

lemma thread_resume_ok:
  assumes "bot_ok w b" and "thread_at b i RAsked" and rq: "rt_rq (bt_threads b ! i) = Some rq"
    and obj: "h_replies (bt_client b) i = Some obj" "as_answer obj = Some a"
    and "thread_resume w i rq a b = Inr c"
  shows "bot_ok w c"
proof -
  let ?t = "bt_threads b ! i"
  note t = thread_fact [OF assms(1,2)]
  from assms(6) obtain fs where fs: "request_run (answering w a) rq = Inr fs"
    and c: "c = put_thread i (?t\<lparr>rt_at := RSend fs\<rparr>) b"
    by (auto simp: thread_resume_def ebind_eq_Inr)
  obtain q where "rt_query ?t = Some q" "(q, Some obj) \<in> set (bt_log b)"
    using assms(1) obj(1) unfolding bot_ok_def replies_ok_def by blast
  with t rq obj fs have "answered w (set (h_sent (bt_client b))) (set (bt_log b)) (?t\<lparr>rt_at := RSend fs\<rparr>) fs"
    by (fastforce simp: answered_def rthread_ok_def waiting_def)
  then show ?thesis
    unfolding c by (intro bot_ok_put_same [OF assms(1)]) (use t in \<open>simp_all add: rthread_ok_def\<close>)
qed

lemma thread_send_ok:
  assumes "bot_ok w b" and "thread_at b i (RSend (f # fs))" and "thread_send i f fs b = Inr c"
  shows "bot_ok w c"
proof -
  let ?t = "bt_threads b ! i"
  let ?u = "?t\<lparr>rt_sent := rt_sent ?t @ [f], rt_at := RSend fs\<rparr>"
  note t = thread_fact [OF assms(1,2)]
  from assms(3) obtain d where d: "th_send_query f None (bt_client b) = Inr d"
    and c: "c = put_thread i ?u (b\<lparr>bt_client := d\<rparr>)"
    by (auto simp: thread_send_def Let_def ebind_eq_Inr)
  note a = th_send_query_adds [OF d]
  from t have "answered w (set (h_sent (bt_client b))) (set (bt_log b)) ?t (f # fs)"
    by (simp add: rthread_ok_def)
  then have "answered w (set (h_sent d)) (set (bt_log b)) ?u fs"
    using a(1) unfolding answered_def by (simp add: subset_iff) blast
  moreover have "set (rt_sent ?u) \<subseteq> (snd \<circ> snd) ` set (h_sent d)"
    using t a(1,2) by (force simp: rthread_ok_def)
  ultimately have "rthread_ok w (set (h_sent d)) (set (bt_log b)) ?u" by (simp add: rthread_ok_def)
  then show ?thesis
    unfolding c by (intro bot_ok_put [OF assms(1)]) (use t a in auto)
qed

lemma bstep_ok: "bstep w b c \<Longrightarrow> bot_ok w b \<Longrightarrow> bot_ok w c"
  by (erule bstep_elim)
    (auto intro: bot_ok_signal bot_ok_settle main_check_ok main_receive_ok
      thread_begin_ok thread_run_ok thread_resume_ok thread_send_ok)

lemma breaches_ok: "breaches w b c \<Longrightarrow> bot_ok w b \<Longrightarrow> bot_ok w c"
  by (induction rule: rtranclp_induct) (auto intro: bstep_ok)

lemma tea_bot_new_ok: "tea_bot_new sg cid input ai ah dp = Inr b \<Longrightarrow> bot_ok w b"
  by (auto simp: tea_bot_new_def th_new_def th_send_query_eq bot_ok_def handlers_ok_def replies_ok_def
      text_messages_def map_filter_def)

subsection \<open>Properties\<close>

text \<open>
  C5: However the threads of the bot interleave, the messages that got a response are the text
  messages received, each once and in order, and what a response has sent and will send is what
  the modules answer to its message, where the replied message, if a module looks at it, is what
  TDLib answered to the query of this response. All of what it has sent went through the client.
\<close>

theorem responses_are_own:
  assumes "tea_bot_new sg cid input ai ah dp = Inr b0" and "breaches w b0 b"
  shows "map rt_msg (bt_threads b) = text_messages (bt_log b) \<and>
    (\<forall>t \<in> set (bt_threads b). set (rt_sent t) \<subseteq> (snd \<circ> snd) ` set (h_sent (bt_client b)) \<and>
      (case rt_at t of
         RSend fs \<Rightarrow>
           (\<exists>rq a. rt_rq t = Some rq \<and> rq_msg rq = rt_msg t \<and>
              request_run (answering w a) rq = Inr (rt_sent t @ fs) \<and>
              (asks_replied rq \<longrightarrow> (\<exists>q obj c. (c, q, get_replied (rt_msg t)) \<in> set (h_sent (bt_client b)) \<and>
                 (q, Some obj) \<in> set (bt_log b) \<and> as_answer obj = Some a)))
       | _ \<Rightarrow> rt_sent t = []))"
proof -
  have b: "bot_ok w b" using breaches_ok [OF assms(2) tea_bot_new_ok [OF assms(1)]] .
  show ?thesis
  proof (intro conjI ballI)
    show "map rt_msg (bt_threads b) = text_messages (bt_log b)" using b by (simp add: bot_ok_def)
  next
    fix t
    assume "t \<in> set (bt_threads b)"
    with b have t: "rthread_ok w (set (h_sent (bt_client b))) (set (bt_log b)) t"
      by (simp add: bot_ok_def)
    then show "set (rt_sent t) \<subseteq> (snd \<circ> snd) ` set (h_sent (bt_client b))" by (simp add: rthread_ok_def)
    from t show "case rt_at t of
         RSend fs \<Rightarrow>
           (\<exists>rq a. rt_rq t = Some rq \<and> rq_msg rq = rt_msg t \<and>
              request_run (answering w a) rq = Inr (rt_sent t @ fs) \<and>
              (asks_replied rq \<longrightarrow> (\<exists>q obj c. (c, q, get_replied (rt_msg t)) \<in> set (h_sent (bt_client b)) \<and>
                 (q, Some obj) \<in> set (bt_log b) \<and> as_answer obj = Some a)))
       | _ \<Rightarrow> rt_sent t = []"
      by (cases "rt_at t") (simp_all add: rthread_ok_def waiting_def answered_def, blast)
  qed
qed

text \<open>A run: the account's own \<open>/mock\<close> is received, answered and edited.\<close>

definition mock_message :: message where "mock_message = text_message 0 ''/mock''"

definition mock_request :: request where
  "mock_request = \<lparr>rq_self = True, rq_chat_id = 5, rq_sender_id = 0, rq_sender_name = ''unknown user'',
     rq_text = ''/mock'', rq_msg = mock_message\<rparr>"

definition bot_start :: bot where
  "bot_start = (case tea_bot_new False 1 [] 7 (Some ''hash'') (Some ''/data'') of Inr b \<Rightarrow> b)"

definition mock_replied :: response where "mock_replied = (2, Some (ObjMessage (text_message 3 ''abc'')))"

definition bot_at :: "rphase \<Rightarrow> td_function list \<Rightarrow> tdh \<Rightarrow> mphase \<Rightarrow> response list \<Rightarrow> bot" where
  "bot_at p fs c at rs = \<lparr>bt_client = c, bt_threads = [\<lparr>rt_msg = mock_message,
       rt_rq = (if p = RNew then None else Some mock_request),
       rt_query = (if p = RNew \<or> p = RRun then None else Some 2), rt_sent = fs, rt_at = p\<rparr>],
     bt_main = at, bt_signaled = False, bt_trap = None, bt_log = (0, Some (ObjUpdate (UpdateNewMessage mock_message))) # rs\<rparr>"

lemma mock_asks: "asks_replied mock_request"
  by (simp add: asks_replied_def mock_request_def mock_message_def text_message_def is_text_def
      is_cmd_format_def c_str_def command_is_def)

lemma mock_reply: "request_run (answering echo_world (Inr (text_message 3 ''abc''))) mock_request =
    Inr [EditMessageText 5 10 (mock_string ''abc'') []]"
  unfolding request_run_asks [OF mock_asks]
  by (simp add: check_replied_msg_def reply_run_def text_message_def mock_request_def mock_message_def
      command_is_def)

theorem responses_are_own_witness:
  "\<exists>b. breaches echo_world bot_start b \<and> map rt_msg (bt_threads b) = [mock_message] \<and>
     rt_sent (hd (bt_threads b)) = [EditMessageText 5 10 (mock_string ''abc'') []] \<and>
     EditMessageText 5 10 (mock_string ''abc'') [] \<in> (snd \<circ> snd) ` set (h_sent (bt_client b))"
proof -
  let ?f = "EditMessageText 5 10 (mock_string ''abc'') []"
  let ?c0 = "bt_client bot_start"
  let ?c1 = "?c0\<lparr>h_fired := [UpdateNewMessage mock_message]\<rparr>"
  let ?c2 = "?c1\<lparr>h_current_query_id := 2, h_handlers := [2 \<mapsto> THReplied 0],
    h_sent := h_sent ?c0 @ [(1, 2, GetMessage 5 9)]\<rparr>"
  let ?c3 = "?c2\<lparr>h_replies := [0 \<mapsto> ObjMessage (text_message 3 ''abc'')]\<rparr>"
  let ?c4 = "?c3\<lparr>h_current_query_id := 3, h_sent := h_sent ?c2 @ [(1, 3, ?f)]\<rparr>"
  note ev = bot_start_def tea_bot_new_def th_new_def th_send_query_eq bot_settle_def bot_at_def
    main_check_def main_receive_def th_process_response_def th_callback_execute_def callback_set_def
    run_callback_def start_response_def is_text_def mock_message_def text_message_def thread_at_def
    thread_begin_def response_request_def get_user_name_def put_thread_def mock_request_def unseen_def
    mock_replied_def
  have 1: "bstep echo_world bot_start (bot_start\<lparr>bt_main := MReceive False\<rparr>)"
    using bstep.check [of bot_start echo_world] by (simp add: ev)
  have 2: "bstep echo_world (bot_start\<lparr>bt_main := MReceive False\<rparr>) (bot_at RNew [] ?c1 MCheck [])"
    using bstep.receive [of "bot_start\<lparr>bt_main := MReceive False\<rparr>"
      "(0, Some (ObjUpdate (UpdateNewMessage mock_message)))" echo_world] by (simp add: ev)
  have 3: "bstep echo_world (bot_at RNew [] ?c1 MCheck []) (bot_at RRun [] ?c1 MCheck [])"
    using bstep.thread_begins [of "bot_at RNew [] ?c1 MCheck []" 0 echo_world] by (simp add: ev)
  have 4: "bstep echo_world (bot_at RRun [] ?c1 MCheck []) (bot_at RAsked [] ?c2 MCheck [])"
    using bstep.thread_runs [of "bot_at RRun [] ?c1 MCheck []" 0 mock_request echo_world] mock_asks
    by (simp add: ev thread_run_def)
  have 5: "bstep echo_world (bot_at RAsked [] ?c2 MCheck []) (bot_at RAsked [] ?c2 (MReceive False) [])"
    using bstep.check [of "bot_at RAsked [] ?c2 MCheck []" echo_world] by (simp add: ev)
  have 6: "bstep echo_world (bot_at RAsked [] ?c2 (MReceive False) []) (bot_at RAsked [] ?c3 MCheck [mock_replied])"
    using bstep.receive [of "bot_at RAsked [] ?c2 (MReceive False) []" mock_replied echo_world]
    by (simp add: ev)
  have 7: "bstep echo_world (bot_at RAsked [] ?c3 MCheck [mock_replied]) (bot_at (RSend [?f]) [] ?c3 MCheck [mock_replied])"
    using bstep.resume [of "bot_at RAsked [] ?c3 MCheck [mock_replied]" 0 mock_request
      "ObjMessage (text_message 3 ''abc'')" "Inr (text_message 3 ''abc'')" echo_world] mock_reply
    by (simp add: ev thread_resume_def)
  have 8: "bstep echo_world (bot_at (RSend [?f]) [] ?c3 MCheck [mock_replied]) (bot_at (RSend []) [?f] ?c4 MCheck [mock_replied])"
    using bstep.thread_sends [of "bot_at (RSend [?f]) [] ?c3 MCheck [mock_replied]" 0 ?f "[]" echo_world]
    by (simp add: ev thread_send_def)
  let ?b = "bot_at (RSend []) [?f] ?c4 MCheck [mock_replied]"
  have r: "breaches echo_world bot_start ?b"
    using 1 2 3 4 5 6 7 8 by (meson converse_rtranclp_into_rtranclp r_into_rtranclp)
  have "tea_bot_new False 1 [] 7 (Some ''hash'') (Some ''/data'') = Inr bot_start"
    by (simp add: bot_start_def tea_bot_new_def th_new_def th_send_query_eq)
  from responses_are_own [OF this r] r show ?thesis
    by (intro exI [of _ ?b]) (simp add: bot_at_def)
qed

end
