(* ===== verification/Digest.thy ===== *)
theory Digest
  imports CLib
begin

section \<open>Hashing in blocks (what ext/md5_php.c and ext/sha1_php.c have in common)\<close>

text \<open>
  The two digests of \<open>old.old/src.old2/ext\<close> are computed the same way: a context takes the bytes
  of a file piece by piece, every 64 bytes go through a compression function, and at the end the
  padded rest does. This theory has the hash of a message as the standards define it
  (\<open>block_hash\<close>), the contract of a context that is fed piece by piece (\<open>stream_hash\<close>), and the
  lemmas on the 64-byte buffer both contexts keep. It also has the files the bytes come from and the
  hexadecimal form of a digest.
\<close>

type_synonym byte = "8 word"

subsection \<open>Calls that may not return\<close>

text \<open>\<open>None\<close> is a call that does not return.\<close>

definition obind :: "(ub + 'a) option \<Rightarrow> ('a \<Rightarrow> (ub + 'b) option) \<Rightarrow> (ub + 'b) option" where
  "obind m f = (case m of None \<Rightarrow> None | Some (Inl e) \<Rightarrow> Some (Inl e) | Some (Inr x) \<Rightarrow> f x)"

lemma obind_simps [simp]:
  "obind None f = None" "obind (Some (Inl e)) f = Some (Inl e)" "obind (Some (Inr x)) f = f x"
  by (simp_all add: obind_def)

lemma obind_map: "obind m f = Some (Inr y) \<Longrightarrow>
    obind m (\<lambda>x. obind (f x) (\<lambda>z. Some (Inr (g z)))) = Some (Inr (g y))"
  by (auto simp: obind_def split: option.splits sum.splits)

text \<open>\<open>memcpy(&dst[i], src, n)\<close>, with the bytes read checked too.\<close>

definition copy_bytes :: "'a list \<Rightarrow> nat \<Rightarrow> 'a list \<Rightarrow> nat \<Rightarrow> ub + 'a list" where
  "copy_bytes dst i src n = (if n \<le> length src then blit dst i (take n src) else Inl OutOfBounds)"

subsection \<open>Words and their bytes\<close>

unbundle bit_operations_syntax

text \<open>Four bytes put together with shifts, the lowest first, are the number they are the digits of.\<close>

lemma or_is_sum:
  fixes a b :: "32 word"
  assumes "\<And>n. bit a n \<Longrightarrow> n < k"
  shows "a OR push_bit k b = a + push_bit k b"
  by (rule disjunctive_add_eq_or [symmetric], rule bit_eqI) (auto simp: bit_simps dest: assms)

lemma word_of_bytes:
  fixes b0 b1 b2 b3 :: byte
  shows "ucast b0 OR push_bit 8 (ucast b1) OR push_bit 16 (ucast b2) OR push_bit 24 (ucast b3) =
    (word_of_nat (unat b0 + 256 * unat b1 + 65536 * unat b2 + 16777216 * unat b3) :: 32 word)"
proof -
  have 1: "bit (ucast b0 :: 32 word) n \<Longrightarrow> n < 8" for n
    by (auto simp: bit_simps dest: bit_imp_le_length)
  have 2: "bit (ucast b0 OR push_bit 8 (ucast b1) :: 32 word) n \<Longrightarrow> n < 16" for n
    by (auto simp: bit_simps dest: bit_imp_le_length)
  have 3: "bit (ucast b0 OR push_bit 8 (ucast b1) OR push_bit 16 (ucast b2) :: 32 word) n \<Longrightarrow> n < 24" for n
    by (auto simp: bit_simps dest: bit_imp_le_length)
  let ?a = "ucast b0 :: 32 word" and ?b = "push_bit 8 (ucast b1) :: 32 word"
    and ?c = "push_bit 16 (ucast b2) :: 32 word" and ?d = "push_bit 24 (ucast b3) :: 32 word"
  have 4: "((?a OR ?b) OR ?c) OR ?d = ((?a OR ?b) OR ?c) + ?d" by (rule or_is_sum) (rule 3 [folded or.assoc])
  have 5: "(?a OR ?b) OR ?c = (?a OR ?b) + ?c" by (rule or_is_sum) (rule 2)
  have 6: "?a OR ?b = ?a + ?b" by (rule or_is_sum) (rule 1)
  have "?a OR ?b OR ?c OR ?d = ?a + ?b + ?c + ?d" unfolding or.assoc [symmetric] unfolding 4 unfolding 5 unfolding 6 ..
  then show ?thesis by (simp add: push_bit_eq_mult mult.commute)
qed

text \<open>What masks and shifts do to a number that is stored in a word.\<close>

lemma word_mask:
  "k \<le> LENGTH('a) \<Longrightarrow> (word_of_nat n :: 'a::len word) AND mask k = word_of_nat (n mod 2 ^ k)"
proof -
  assume k: "k \<le> LENGTH('a)"
  then have "n mod 2 ^ LENGTH('a) mod 2 ^ k = n mod 2 ^ k" by (simp add: mod_mod_cancel le_imp_power_dvd)
  moreover have "n mod 2 ^ k < 2 ^ LENGTH('a)"
    by (rule order_less_le_trans [OF mod_less_divisor power_increasing]) (use k in simp_all)
  ultimately have "unat (take_bit k (word_of_nat n :: 'a word)) = unat (word_of_nat (n mod 2 ^ k) :: 'a word)"
    unfolding unsigned_take_bit_eq by (simp add: unat_of_nat take_bit_eq_mod)
  then show ?thesis by (simp only: word_unat_eq_iff take_bit_eq_mask)
qed

lemma word_shift:
  "n < 2 ^ LENGTH('a) \<Longrightarrow> drop_bit k (word_of_nat n :: 'a::len word) = word_of_nat (n div 2 ^ k)"
proof -
  assume n: "n < 2 ^ LENGTH('a)"
  then have "n div 2 ^ k < 2 ^ LENGTH('a)" by (rule order_le_less_trans [OF div_le_dividend])
  with n have "unat (drop_bit k (word_of_nat n :: 'a word)) = unat (word_of_nat (n div 2 ^ k) :: 'a word)"
    unfolding unat_drop_bit_eq by (simp add: unat_of_nat drop_bit_eq_div)
  then show ?thesis by (simp only: word_unat_eq_iff)
qed

lemma word_is_zero: "n < 2 ^ LENGTH('a) \<Longrightarrow> (word_of_nat n :: 'a::len word) = 0 \<longleftrightarrow> n = 0"
  by (auto simp: word_of_nat_eq_0_iff dest: dvd_imp_le)

lemma word_clear:
  "n < 2 ^ LENGTH('a) \<Longrightarrow>
     (word_of_nat n :: 'a::len word) AND NOT (mask k) = word_of_nat (2 ^ k * (n div 2 ^ k))"
proof -
  assume n: "n < 2 ^ LENGTH('a)"
  have "(word_of_nat n :: 'a word) AND NOT (mask k) = push_bit k (drop_bit k (word_of_nat n))"
    by (rule bit_word_eqI) (auto simp: bit_simps)
  then show ?thesis using n by (simp add: word_shift push_bit_eq_mult mult.commute)
qed

lemma word_narrow: "LENGTH('b) \<le> LENGTH('a) \<Longrightarrow> (ucast (word_of_nat n :: 'a::len word) :: 'b::len word) = word_of_nat n"
  by (simp add: word_unat_eq_iff unsigned_ucast_eq unat_of_nat take_bit_eq_mod mod_mod_cancel le_imp_power_dvd)

lemma word_widen: "n < 2 ^ LENGTH('b) \<Longrightarrow> (ucast (word_of_nat n :: 'b::len word) :: 'a::len word) = word_of_nat n"
  by (simp add: unsigned_of_nat take_bit_nat_eq_self)

text \<open>A sum counted in two words: the carry is seen from the lower one becoming smaller.\<close>

lemma carry_add:
  fixes n k M :: nat
  assumes "0 < M"
  shows "(n + k) div M = n div M + (if (n + k) mod M < n mod M then 1 else 0) + k div M"
proof -
  let ?r = "n mod M" and ?s = "k mod M"
  have rs: "?r < M" "?s < M" using assms by simp_all
  have m: "(n + k) mod M = (?r + ?s) mod M" by (simp add: mod_add_eq)
  have d: "(n + k) div M = n div M + k div M + (?r + ?s) div M" by (rule div_add1_eq)
  show ?thesis
  proof (cases "?r + ?s < M")
    case True
    then show ?thesis using m d by simp
  next
    case False
    then have "?r + ?s - M < M" using rs by linarith
    with False have "(?r + ?s) div M = 1" "(?r + ?s) mod M = ?r + ?s - M"
      using rs by (simp_all add: le_div_geq le_mod_geq)
    moreover have "?r + ?s - M < ?r" using False rs by linarith
    ultimately show ?thesis using m d by simp
  qed
qed

subsection \<open>Blocks\<close>

function absorb :: "(byte list \<Rightarrow> 'h \<Rightarrow> 'h) \<Rightarrow> 'h \<Rightarrow> byte list \<Rightarrow> 'h" where
  "absorb f h m = (if length m < 64 then h else absorb f (f (take 64 m) h) (drop 64 m))"
  by pat_completeness auto
termination by (relation "measure (\<lambda>(f, h, m). length m)") auto

declare absorb.simps [simp del]

lemma absorb_short [simp]: "length m < 64 \<Longrightarrow> absorb f h m = h"
  by (simp add: absorb.simps)

lemma absorb_block: "length b = 64 \<Longrightarrow> absorb f h (b @ m) = absorb f (f b h) m"
  by (subst absorb.simps) simp

lemma absorb_one: "length b = 64 \<Longrightarrow> absorb f h b = f b h"
  using absorb_block [of b f h "[]"] by simp

text \<open>The bytes after the last complete block.\<close>

definition rest :: "'a list \<Rightarrow> 'a list" where
  "rest m = drop (length m - length m mod 64) m"

lemma length_rest [simp]: "length (rest m) = length m mod 64"
  by (simp add: rest_def)

lemma rest_short: "length m < 64 \<Longrightarrow> rest m = m"
  by (simp add: rest_def)

lemma rest_block: "length b = 64 \<Longrightarrow> rest (b @ m) = rest m"
proof -
  assume b: "length b = 64"
  then have "length (b @ m) - length (b @ m) mod 64 = 64 + (length m - length m mod 64)"
    by (simp add: Nat.add_diff_assoc)
  with b show ?thesis by (simp add: rest_def)
qed

text \<open>Only the hash so far and the rest of a message matter for what follows.\<close>

lemma block_induct [case_names short block]:
  assumes "\<And>m. length m < 64 \<Longrightarrow> P m" and "\<And>b m. length b = 64 \<Longrightarrow> P m \<Longrightarrow> P (b @ m)"
  shows "P m"
proof (induction m rule: length_induct)
  case (1 m)
  show ?case
  proof (cases "length m < 64")
    case False
    then have "P (take 64 m @ drop 64 m)" using 1 by (intro assms(2)) auto
    then show ?thesis by simp
  qed (rule assms(1))
qed

lemma absorb_append: "absorb f h (m @ d) = absorb f (absorb f h m) (rest m @ d)"
  by (induction m arbitrary: h rule: block_induct) (simp_all add: rest_short rest_block absorb_block)

lemma rest_append: "rest (m @ d) = rest (rest m @ d)"
  by (induction m rule: block_induct) (simp_all add: rest_short rest_block)

subsection \<open>The hash of a message\<close>

text \<open>
  The padding of both standards: a byte 128, zeros up to 8 bytes before the end of a block, and
  the number of bits in 8 bytes, in the order \<open>enc\<close> gives them.
\<close>

definition pad_message :: "(nat \<Rightarrow> byte list) \<Rightarrow> byte list \<Rightarrow> byte list" where
  "pad_message enc m = m @ [128] @ replicate ((119 - length m mod 64) mod 64) 0 @ enc (8 * length m)"

definition block_hash ::
  "(byte list \<Rightarrow> 'h \<Rightarrow> 'h) \<Rightarrow> 'h \<Rightarrow> (nat \<Rightarrow> byte list) \<Rightarrow> ('h \<Rightarrow> byte list) \<Rightarrow> byte list \<Rightarrow> byte list" where
  "block_hash f iv enc out m = out (absorb f iv (pad_message enc m))"

text \<open>A number as its \<open>k\<close> lowest bytes, the lowest first.\<close>

primrec le_bytes :: "nat \<Rightarrow> nat \<Rightarrow> byte list" where
  "le_bytes 0 n = []"
| "le_bytes (Suc k) n = word_of_nat n # le_bytes k (n div 256)"

definition le64 :: "nat \<Rightarrow> byte list" where
  "le64 n = le_bytes 8 n"

definition be64 :: "nat \<Rightarrow> byte list" where
  "be64 n = rev (le64 n)"

lemma length_le_bytes [simp]: "length (le_bytes k n) = k"
  by (induction k arbitrary: n) simp_all

lemma length_le64 [simp]: "length (le64 n) = 8" "length (be64 n) = 8"
  by (simp_all add: le64_def be64_def)

lemma le_bytes_4:
  "le_bytes 4 n = [word_of_nat n, word_of_nat (n div 256), word_of_nat (n div 65536), word_of_nat (n div 16777216)]"
proof -
  have "(4 :: nat) = Suc (Suc (Suc (Suc 0)))" by simp
  then show ?thesis by (simp only: le_bytes.simps div_mult2_eq [symmetric]) simp
qed

lemma byte_of_mod: "(word_of_nat (n mod (256 * k)) :: byte) = word_of_nat n"
  by (simp add: word_unat_eq_iff unat_of_nat take_bit_eq_mod mod_mod_cancel)

lemma le_bytes_split: "le_bytes (j + k) n = le_bytes j (n mod 256 ^ j) @ le_bytes k (n div 256 ^ j)"
proof (induction j arbitrary: n)
  case (Suc j)
  have "n mod (256 * 256 ^ j) div 256 = n div 256 mod 256 ^ j" by (simp add: mod_mult2_eq)
  with Suc show ?case by (simp add: byte_of_mod div_mult2_eq)
qed simp

text \<open>The bytes of a word, taken with shifts.\<close>

definition word_bytes :: "32 word \<Rightarrow> byte list" where
  "word_bytes w = [ucast w, ucast (drop_bit 8 w), ucast (drop_bit 16 w), ucast (drop_bit 24 w)]"

lemma word_bytes_eq: "word_bytes w = le_bytes 4 (unat w)"
proof -
  have "unat (drop_bit k w) = unat w div 2 ^ k" for k
    by (simp only: unat_drop_bit_eq drop_bit_eq_div [where 'a = nat])
  then have w: "ucast (drop_bit k w) = (word_of_nat (unat w div 2 ^ k) :: byte)" for k
    by (simp only: word_unat_eq_iff unsigned_ucast_eq unat_of_nat take_bit_eq_mod)
  show ?thesis
    using w [of 0] w [of 8] w [of 16] w [of 24]
    by (simp add: word_bytes_def le_bytes_4)
qed

text \<open>The two words of a counter of 64 bits.\<close>

lemma le64_words:
  assumes "a < 2 ^ 32"
  shows "le64 (a + 2 ^ 32 * b) = le_bytes 4 a @ le_bytes 4 b"
  using le_bytes_split [of 4 4 "a + 2 ^ 32 * b"] assms by (simp add: le64_def)

lemma pad_zeros:
  "k < 56 \<Longrightarrow> (119 - k) mod 64 = (55 - k :: nat)"
  "56 \<le> k \<Longrightarrow> k < 64 \<Longrightarrow> (119 - k) mod 64 = 63 - k + (56 :: nat)"
proof -
  assume "k < 56"
  then have "119 - k = (55 - k) + 64" by simp
  then show "(119 - k) mod 64 = 55 - k" by (simp only: mod_add_self2) simp
qed simp

text \<open>The rest of the message fills one block with its padding, or two.\<close>

lemma absorb_padded:
  assumes "\<And>n. length (enc n) = 8"
  shows "absorb f h (pad_message enc m) =
    (let r = rest m; tail = enc (8 * length m) in
     if length r < 56 then f (r @ [128] @ replicate (55 - length r) 0 @ tail) (absorb f h m)
     else f (replicate 56 0 @ tail) (f (r @ [128] @ replicate (63 - length r) 0) (absorb f h m)))"
proof -
  let ?r = "rest m" and ?tail = "enc (8 * length m)" and ?k = "length m mod 64"
  have pad: "absorb f h (pad_message enc m) =
      absorb f (absorb f h m) (?r @ [128] @ replicate ((119 - ?k) mod 64) 0 @ ?tail)"
    by (simp add: pad_message_def absorb_append [of f h m])
  show ?thesis
  proof (cases "?k < 56")
    case True
    then have z: "(119 - ?k) mod 64 = 55 - ?k" by (rule pad_zeros)
    have "length (?r @ [128] @ replicate (55 - ?k) 0 @ ?tail) = 64" using True assms by simp
    from absorb_one [OF this] True show ?thesis unfolding pad z Let_def length_rest by simp
  next
    case False
    have "?k < 64" by simp
    with False have z: "(119 - ?k) mod 64 = (63 - ?k) + 56" by (intro pad_zeros) simp_all
    let ?b = "?r @ [128] @ replicate (63 - ?k) 0" and ?c = "replicate 56 0 @ ?tail"
    have "length ?b = 64" "length ?c = 64" using False assms \<open>?k < 64\<close> by simp_all
    then have "absorb f h (?b @ ?c) = f ?c (f ?b h)" for h by (simp only: absorb_block absorb_one)
    moreover have "?r @ [128] @ replicate ((119 - ?k) mod 64) 0 @ ?tail = ?b @ ?c"
      unfolding z by (simp only: replicate_add append_assoc)
    ultimately show ?thesis using False unfolding pad Let_def length_rest by simp
  qed
qed

subsection \<open>The buffer of a context\<close>

text \<open>
  A context that was fed \<open>m\<close> has hashed the complete blocks of \<open>m\<close> and keeps the rest at the start
  of its buffer.
\<close>

definition held :: "(byte list \<Rightarrow> 'h \<Rightarrow> 'h) \<Rightarrow> 'h \<Rightarrow> byte list \<Rightarrow> 'h \<Rightarrow> byte list \<Rightarrow> bool" where
  "held f iv m h buf \<longleftrightarrow> h = absorb f iv m \<and> length buf = 64 \<and> take (length m mod 64) buf = rest m"

lemma held_start: "length buf = 64 \<Longrightarrow> held f iv [] iv buf"
  by (simp add: held_def rest_def)

lemma mod_64_add: "a mod 64 + b < 64 \<Longrightarrow> (a + b) mod 64 = a mod 64 + (b :: nat)"
  by (metis mod_add_left_eq mod_less)

lemma mod_64_sum: "a mod 64 = 0 \<Longrightarrow> b mod 64 = 0 \<Longrightarrow> (a + b) mod 64 = (0 :: nat)"
  by (metis add_0 mod_0 mod_add_eq)

lemma mod_64_fill: "a mod 64 + b = 64 \<Longrightarrow> (a + b) mod 64 = (0 :: nat)"
  by (metis mod_add_left_eq mod_self)

text \<open>Bytes that do not complete the block are appended to the rest.\<close>

lemma held_more:
  assumes "held f iv m h buf" and "length m mod 64 + length d < 64"
  shows "\<exists>buf'. blit buf (length m mod 64) d = Inr buf' \<and> held f iv (m @ d) h buf'"
proof -
  have len: "length (rest m @ d) < 64" using assms(2) by simp
  obtain buf' where b: "blit buf (length m mod 64) d = Inr buf'" "length buf' = length buf"
    "take (length m mod 64 + length d) buf' = take (length m mod 64) buf @ d"
    using blit_after_prefix [of "length m mod 64" d buf] assms by (auto simp: held_def)
  have "rest (m @ d) = rest m @ d" using rest_append [of m d] rest_short [OF len] by simp
  moreover have "absorb f iv (m @ d) = absorb f iv m"
    by (simp only: absorb_append [of f iv m d] absorb_short [OF len])
  ultimately show ?thesis using assms(1) b mod_64_add [OF assms(2)] by (simp add: held_def)
qed

text \<open>Bytes that complete it leave no rest.\<close>

lemma held_fill:
  assumes "held f iv m h buf" and "length m mod 64 + length d = 64"
  shows "\<exists>buf'. blit buf (length m mod 64) d = Inr buf' \<and> held f iv (m @ d) (f buf' h) buf' \<and>
    length buf' = 64"
proof -
  have len: "length (rest m @ d) = 64" using assms(2) by simp
  have b: "blit buf (length m mod 64) d = Inr (rest m @ d)"
    using assms by (simp add: held_def blit_def)
  have "rest (m @ d) = []" using rest_append [of m d] rest_block [OF len, of "[]"] by (simp add: rest_short)
  moreover have "absorb f iv (m @ d) = f (rest m @ d) h"
    using assms(1) absorb_one [OF len] by (simp add: absorb_append [of f iv m] held_def)
  ultimately show ?thesis using b len mod_64_fill [OF assms(2)] by (simp add: held_def)
qed

text \<open>Zeros up to the last 8 bytes, then these.\<close>

lemma fill_end:
  assumes "length buf = 64" and "take k buf = p" and "k \<le> 56" and "length tail = 8"
  shows "ebind (blit buf k (replicate (56 - k) 0)) (\<lambda>buf. ebind (blit buf 56 tail) g) =
    g (p @ replicate (56 - k) 0 @ tail)"
proof -
  have "length p = k" using assms(1-3) by auto
  then show ?thesis using assms by (subst blit_blit_bind) (auto simp: blit_def)
qed

text \<open>Complete blocks pass by the buffer.\<close>

lemma absorb_blocks: "length m mod 64 = 0 \<Longrightarrow> absorb f h (m @ d) = absorb f (absorb f h m) d"
  using absorb_append [of f h m d] by (simp add: rest_def)

lemma held_blocks:
  assumes "held f iv m h buf" and "length m mod 64 = 0" and "length d mod 64 = 0"
  shows "held f iv (m @ d) (absorb f h d) buf"
proof -
  have "(length m + length d) mod 64 = 0" using assms(2,3) by (simp add: mod_add_eq [symmetric])
  with assms show ?thesis by (simp add: held_def absorb_blocks rest_def)
qed

text \<open>Bytes that follow complete blocks: what is left of them goes to the start of the buffer.\<close>

lemma held_rest:
  assumes "held f iv m h buf" and "length m mod 64 = 0"
  shows "\<exists>buf'. blit buf 0 (rest d) = Inr buf' \<and> held f iv (m @ d) (absorb f h d) buf'"
proof -
  let ?n = "length d - length d mod 64"
  let ?a = "take ?n d"
  have d: "d = ?a @ rest d" by (simp add: rest_def)
  have a: "length ?a mod 64 = 0" by (simp add: minus_mod_eq_mult_div)
  have "absorb f h d = absorb f (absorb f h ?a) (rest d)" by (subst d) (rule absorb_blocks [OF a])
  then have "absorb f h d = absorb f h ?a" by simp
  moreover have "length (m @ ?a) mod 64 = 0" unfolding length_append using assms(2) a by (rule mod_64_sum)
  ultimately show ?thesis
    using held_more [OF held_blocks [OF assms a], of "rest d"] by (simp add: d [symmetric])
qed

lemma held_length: "held f iv m h buf \<Longrightarrow> length buf = 64"
  by (simp add: held_def)

subsection \<open>Contexts that are fed piece by piece\<close>

text \<open>
  The contract: after any pieces whose bytes are \<open>m\<close> the context stands for \<open>m\<close>, and the end gives
  the hash of \<open>m\<close>. Pieces below 4 GB and messages below \<open>2 ^ 61\<close> bytes, so that the number of
  bits fits the counters.
\<close>

locale stream_hash =
  fixes start :: 'c
    and feed :: "byte list \<Rightarrow> 'c \<Rightarrow> (ub + 'c) option"
    and finish :: "'c \<Rightarrow> (ub + byte list) option"
    and fed :: "byte list \<Rightarrow> 'c \<Rightarrow> bool"
    and hash :: "byte list \<Rightarrow> byte list"
  assumes start: "fed [] start"
    and feed: "fed m c \<Longrightarrow> length d < 2 ^ 32 - 64 \<Longrightarrow> length m + length d < 2 ^ 61 \<Longrightarrow>
          \<exists>c'. feed d c = Some (Inr c') \<and> fed (m @ d) c'"
    and finish: "fed m c \<Longrightarrow> length m < 2 ^ 61 \<Longrightarrow> finish c = Some (Inr (hash m))"

text \<open>
  The loop of \<open>md5_file\<close> and of \<open>sha1_file\<close>: \<open>fread\<close> fills its 1024 bytes unless the file ends.
\<close>

function read_loop :: "(byte list \<Rightarrow> 'c \<Rightarrow> (ub + 'c) option) \<Rightarrow> byte list \<Rightarrow> 'c \<Rightarrow> (ub + 'c) option" where
  "read_loop feed content c =
     (if content = [] then Some (Inr c)
      else obind (feed (take 1024 content) c) (read_loop feed (drop 1024 content)))"
  by pat_completeness auto
termination by (relation "measure (\<lambda>(feed, content, c). length content)") auto

declare read_loop.simps [simp del]

context stream_hash begin

lemma read_loop_fed:
  assumes "fed m c" and "length m + length bs < 2 ^ 61"
  shows "\<exists>c'. read_loop feed bs c = Some (Inr c') \<and> fed (m @ bs) c'"
  using assms
proof (induction bs arbitrary: m c rule: length_induct)
  case (1 bs)
  show ?case
  proof (cases "bs = []")
    case False
    obtain c1 where c1: "feed (take 1024 bs) c = Some (Inr c1)" "fed (m @ take 1024 bs) c1"
      using feed [OF 1(2), of "take 1024 bs"] 1(3) by fastforce
    have "length (drop 1024 bs) < length bs" using False by simp
    with 1(1) c1(2) 1(3) obtain c2 where
      "read_loop feed (drop 1024 bs) c1 = Some (Inr c2)" "fed ((m @ take 1024 bs) @ drop 1024 bs) c2"
      by (metis (no_types, lifting) append_assoc append_take_drop_id length_append)
    with c1 False show ?thesis by (subst read_loop.simps) simp
  qed (use 1 in \<open>simp add: read_loop.simps\<close>)
qed

lemma hash_of_file:
  assumes "length bs < 2 ^ 61"
  shows "obind (read_loop feed bs start) finish = Some (Inr (hash bs))"
  using read_loop_fed [OF start, of bs] finish assms by auto

end

subsection \<open>Files\<close>

text \<open>
  The contents of the files, and how many are open of those the process may have open. \<open>fopen\<close>
  gives a null pointer if there is no such file, or if no more can be opened.
\<close>

record files =
  f_content :: "string \<Rightarrow> byte list option"
  f_open :: nat
  f_limit :: nat

definition fopen :: "string \<Rightarrow> files \<Rightarrow> byte list option \<times> files" where
  "fopen path fs =
     (case f_content fs path of
        None \<Rightarrow> (None, fs)
      | Some bs \<Rightarrow>
          if f_open fs < f_limit fs then (Some bs, fs\<lparr>f_open := Suc (f_open fs)\<rparr>) else (None, fs))"

subsection \<open>Digests in hexadecimal\<close>

definition hexits :: string where "hexits = ''0123456789abcdef''"

text \<open>The loop of \<open>make_digest_ex\<close> over \<open>i\<close>, with \<open>n\<close> rounds to go.\<close>

fun digest_loop :: "char list \<Rightarrow> byte list \<Rightarrow> nat \<Rightarrow> nat \<Rightarrow> ub + char list" where
  "digest_loop md5str digest i 0 = poke md5str (i * 2) NUL"
| "digest_loop md5str digest i (Suc n) =
     ebind (peek digest i) (\<lambda>b.
     ebind (peek hexits (unat b div 16)) (\<lambda>hi.
     ebind (peek hexits (unat b mod 16)) (\<lambda>lo.
     ebind (poke md5str (i * 2) hi) (\<lambda>md5str.
     ebind (poke md5str (i * 2 + 1) lo) (\<lambda>md5str.
       digest_loop md5str digest (Suc i) n)))))"

definition make_digest_ex :: "char list \<Rightarrow> byte list \<Rightarrow> nat \<Rightarrow> ub + char list" where
  "make_digest_ex md5str digest len = digest_loop md5str digest 0 len"

definition make_digest :: "char list \<Rightarrow> byte list \<Rightarrow> ub + char list" where
  "make_digest md5str digest = make_digest_ex md5str digest 16"

definition make_sha1_digest :: "char list \<Rightarrow> byte list \<Rightarrow> ub + char list" where
  "make_sha1_digest sha1str digest = make_digest_ex sha1str digest 20"

text \<open>Reading the text of a digest back.\<close>

definition hex_value :: "char \<Rightarrow> nat" where
  "hex_value c = (case strrchr_idx hexits c of None \<Rightarrow> 0 | Some i \<Rightarrow> i)"

fun read_hex :: "string \<Rightarrow> byte list" where
  "read_hex (hi # lo # cs) = word_of_nat (16 * hex_value hi + hex_value lo) # read_hex cs"
| "read_hex _ = []"

definition hex_pair :: "byte \<Rightarrow> string" where
  "hex_pair b = [hexits ! (unat b div 16), hexits ! (unat b mod 16)]"

definition hex_text :: "byte list \<Rightarrow> string" where
  "hex_text bs = concat (map hex_pair bs)"

lemma length_hex_text [simp]: "length (hex_text bs) = 2 * length bs"
  by (induction bs) (simp_all add: hex_text_def hex_pair_def)

lemma nibble:
  "unat (b :: byte) div 16 < 16"
proof -
  have "unat b < 256" using unsigned_less [of b] by simp
  then show ?thesis by simp
qed

lemma digest_loop_eq:
  assumes "i + n \<le> length digest"
  shows "digest_loop s digest i n = blit s (i * 2) (hex_text (take n (drop i digest)) @ [NUL])"
  using assms
proof (induction n arbitrary: s i)
  case (Suc n)
  have l: "length hexits = 16" by (simp add: hexits_def)
  let ?d = "hex_pair (digest ! i)"
  have "digest_loop s digest i (Suc n) =
      ebind (blit s (i * 2) ?d) (\<lambda>b. blit b (i * 2 + length ?d) (hex_text (take n (drop (Suc i) digest)) @ [NUL]))"
    using Suc nibble [of "digest ! i"] l
    by (simp add: peek_def hex_pair_def poke_eq_blit blit_blit_bind add.commute [of 2])
  also have "\<dots> = blit s (i * 2) (?d @ hex_text (take n (drop (Suc i) digest)) @ [NUL])"
    by (rule blit_blit)
  also have "?d @ hex_text (take n (drop (Suc i) digest)) @ [NUL] = hex_text (take (Suc n) (drop i digest)) @ [NUL]"
    using Suc.prems by (simp add: hex_text_def Cons_nth_drop_Suc [symmetric])
  finally show ?case .
qed (simp add: poke_eq_blit hex_text_def)

text \<open>Distinct digits stand for distinct values.\<close>

lemma hexits_16: "n < 16 \<Longrightarrow> n \<in> set [0..<16]"
  by simp

lemma hex_value_digit: "n < 16 \<Longrightarrow> hex_value (hexits ! n) = n"
proof -
  have "\<forall>n \<in> set [0..<16]. hex_value (hexits ! n) = n"
    by (simp add: hex_value_def hexits_def upt_rec)
  then show "n < 16 \<Longrightarrow> hex_value (hexits ! n) = n" by simp
qed

lemma hexits_no_nul: "n < 16 \<Longrightarrow> hexits ! n \<noteq> NUL"
proof -
  have "NUL \<notin> set hexits" by (simp add: hexits_def)
  moreover have "length hexits = 16" by (simp add: hexits_def)
  ultimately show "n < 16 \<Longrightarrow> hexits ! n \<noteq> NUL" by (metis nth_mem)
qed

lemma read_hex_pair: "read_hex (hex_pair b @ cs) = b # read_hex cs"
  using nibble [of b] by (simp add: hex_pair_def hex_value_digit)

lemma read_hex_text: "read_hex (hex_text bs) = bs"
  by (induction bs) (simp_all add: hex_text_def read_hex_pair)

lemma hex_text_no_nul: "NUL \<notin> set (hex_text bs)"
proof -
  have "NUL \<notin> set (hex_pair b)" for b
    using hexits_no_nul [OF nibble [of b]] hexits_no_nul [of "unat b mod 16"] by (simp add: hex_pair_def)
  then show ?thesis by (simp add: hex_text_def)
qed

end
