(* ===== verification/Md5.thy ===== *)
theory Md5
  imports Digest
begin

section \<open>MD5 (ext/md5_php.c, ext/md5_php.h)\<close>

text \<open>
  The digest the history scraper names files by. \<open>md5_body\<close>, \<open>md5_update\<close> and \<open>md5_final\<close> are the
  functions of the C file over its context, with every access to the buffer and to the data
  checked; \<open>md5\<close> is the digest as RFC 1321 defines it. On the processors named in the file a
  32-bit word is read from memory in one go, on others its bytes are put together; the value is the
  same, and the array \<open>block\<close>, which only caches it, is left out.
\<close>

unbundle bit_operations_syntax

subsection \<open>The transformation of one block\<close>

type_synonym regs = "32 word \<times> 32 word \<times> 32 word \<times> 32 word"

definition md5_F :: "32 word \<Rightarrow> 32 word \<Rightarrow> 32 word \<Rightarrow> 32 word" where
  "md5_F x y z = z XOR (x AND (y XOR z))"

definition md5_G :: "32 word \<Rightarrow> 32 word \<Rightarrow> 32 word \<Rightarrow> 32 word" where
  "md5_G x y z = y XOR (z AND (x XOR y))"

definition md5_H :: "32 word \<Rightarrow> 32 word \<Rightarrow> 32 word \<Rightarrow> 32 word" where
  "md5_H x y z = x XOR y XOR z"

definition md5_I :: "32 word \<Rightarrow> 32 word \<Rightarrow> 32 word \<Rightarrow> 32 word" where
  "md5_I x y z = y XOR (x OR NOT z)"

text \<open>The macro \<open>STEP\<close>: its function, the register it changes, the word \<open>n\<close> it adds, \<open>t\<close> and \<open>s\<close>.\<close>

datatype md5_fun = MF | MG | MH | MI
datatype md5_reg = RA | RB | RC | RD
datatype md5_step = Step md5_fun md5_reg nat "32 word" nat

fun md5_f :: "md5_fun \<Rightarrow> 32 word \<Rightarrow> 32 word \<Rightarrow> 32 word \<Rightarrow> 32 word" where
  "md5_f MF = md5_F"
| "md5_f MG = md5_G"
| "md5_f MH = md5_H"
| "md5_f MI = md5_I"

definition rotate_left :: "nat \<Rightarrow> 32 word \<Rightarrow> 32 word" where
  "rotate_left s a = (push_bit s a OR drop_bit (32 - s) (a AND 0xffffffff))"

definition md5_STEP ::
  "(32 word \<Rightarrow> 32 word \<Rightarrow> 32 word \<Rightarrow> 32 word) \<Rightarrow> 32 word \<Rightarrow> 32 word \<Rightarrow> 32 word \<Rightarrow> 32 word \<Rightarrow>
     32 word \<Rightarrow> 32 word \<Rightarrow> nat \<Rightarrow> 32 word" where
  "md5_STEP f a b c d x t s =
     (let a = a + (f b c d + x + t);
          a = rotate_left s a
      in a + b)"

text \<open>\<open>SET(n)\<close> and \<open>GET(n)\<close>: four bytes, the lowest first.\<close>

definition md5_GET :: "byte list \<Rightarrow> nat \<Rightarrow> 32 word" where
  "md5_GET p n = ucast (p ! (n * 4)) OR push_bit 8 (ucast (p ! (n * 4 + 1))) OR
     push_bit 16 (ucast (p ! (n * 4 + 2))) OR push_bit 24 (ucast (p ! (n * 4 + 3)))"

fun md5_do_step :: "byte list \<Rightarrow> md5_step \<Rightarrow> regs \<Rightarrow> regs" where
  "md5_do_step p (Step f RA n t s) (a, b, c, d) = (md5_STEP (md5_f f) a b c d (md5_GET p n) t s, b, c, d)"
| "md5_do_step p (Step f RB n t s) (a, b, c, d) = (a, md5_STEP (md5_f f) b c d a (md5_GET p n) t s, c, d)"
| "md5_do_step p (Step f RC n t s) (a, b, c, d) = (a, b, md5_STEP (md5_f f) c d a b (md5_GET p n) t s, d)"
| "md5_do_step p (Step f RD n t s) (a, b, c, d) = (a, b, c, md5_STEP (md5_f f) d a b c (md5_GET p n) t s)"

definition md5_steps :: "md5_step list" where
  "md5_steps = [
     Step MF RA 0 0xd76aa478 7, Step MF RD 1 0xe8c7b756 12,
     Step MF RC 2 0x242070db 17, Step MF RB 3 0xc1bdceee 22,
     Step MF RA 4 0xf57c0faf 7, Step MF RD 5 0x4787c62a 12,
     Step MF RC 6 0xa8304613 17, Step MF RB 7 0xfd469501 22,
     Step MF RA 8 0x698098d8 7, Step MF RD 9 0x8b44f7af 12,
     Step MF RC 10 0xffff5bb1 17, Step MF RB 11 0x895cd7be 22,
     Step MF RA 12 0x6b901122 7, Step MF RD 13 0xfd987193 12,
     Step MF RC 14 0xa679438e 17, Step MF RB 15 0x49b40821 22,
     Step MG RA 1 0xf61e2562 5, Step MG RD 6 0xc040b340 9,
     Step MG RC 11 0x265e5a51 14, Step MG RB 0 0xe9b6c7aa 20,
     Step MG RA 5 0xd62f105d 5, Step MG RD 10 0x02441453 9,
     Step MG RC 15 0xd8a1e681 14, Step MG RB 4 0xe7d3fbc8 20,
     Step MG RA 9 0x21e1cde6 5, Step MG RD 14 0xc33707d6 9,
     Step MG RC 3 0xf4d50d87 14, Step MG RB 8 0x455a14ed 20,
     Step MG RA 13 0xa9e3e905 5, Step MG RD 2 0xfcefa3f8 9,
     Step MG RC 7 0x676f02d9 14, Step MG RB 12 0x8d2a4c8a 20,
     Step MH RA 5 0xfffa3942 4, Step MH RD 8 0x8771f681 11,
     Step MH RC 11 0x6d9d6122 16, Step MH RB 14 0xfde5380c 23,
     Step MH RA 1 0xa4beea44 4, Step MH RD 4 0x4bdecfa9 11,
     Step MH RC 7 0xf6bb4b60 16, Step MH RB 10 0xbebfbc70 23,
     Step MH RA 13 0x289b7ec6 4, Step MH RD 0 0xeaa127fa 11,
     Step MH RC 3 0xd4ef3085 16, Step MH RB 6 0x04881d05 23,
     Step MH RA 9 0xd9d4d039 4, Step MH RD 12 0xe6db99e5 11,
     Step MH RC 15 0x1fa27cf8 16, Step MH RB 2 0xc4ac5665 23,
     Step MI RA 0 0xf4292244 6, Step MI RD 7 0x432aff97 10,
     Step MI RC 14 0xab9423a7 15, Step MI RB 5 0xfc93a039 21,
     Step MI RA 12 0x655b59c3 6, Step MI RD 3 0x8f0ccc92 10,
     Step MI RC 10 0xffeff47d 15, Step MI RB 1 0x85845dd1 21,
     Step MI RA 8 0x6fa87e4f 6, Step MI RD 15 0xfe2ce6e0 10,
     Step MI RC 6 0xa3014314 15, Step MI RB 13 0x4e0811a1 21,
     Step MI RA 4 0xf7537e82 6, Step MI RD 11 0xbd3af235 10,
     Step MI RC 2 0x2ad7d2bb 15, Step MI RB 9 0xeb86d391 21]"

text \<open>One round of the loop of \<open>body\<close>, on the 64 bytes at \<open>ptr\<close>.\<close>

definition md5_block :: "byte list \<Rightarrow> regs \<Rightarrow> regs" where
  "md5_block p h =
     (case (h, fold (md5_do_step p) md5_steps h) of
        ((saved_a, saved_b, saved_c, saved_d), (a, b, c, d)) \<Rightarrow>
          (a + saved_a, b + saved_b, c + saved_c, d + saved_d))"

text \<open>\<open>body\<close> gives back the pointer past the blocks and the new registers; \<open>sz\<close> is a \<open>size_t\<close>.\<close>

function md5_body :: "64 word \<Rightarrow> byte list \<Rightarrow> regs \<Rightarrow> ub + byte list \<times> regs" where
  "md5_body sz ptr h =
     (if length ptr < 64 then Inl OutOfBounds
      else
        let h = md5_block (take 64 ptr) h; ptr = drop 64 ptr; sz = sz - 64
        in if sz \<noteq> 0 then md5_body sz ptr h else Inr (ptr, h))"
  by pat_completeness auto
termination by (relation "measure (\<lambda>(sz, ptr, h). length ptr)") auto

declare md5_body.simps [simp del]

subsection \<open>The context\<close>

record md5_ctx =
  md5_lo :: "32 word"
  md5_hi :: "32 word"
  md5_regs :: regs
  md5_buffer :: "byte list"

definition md5_init :: "md5_ctx \<Rightarrow> md5_ctx" where
  "md5_init ctx = ctx\<lparr>md5_regs := (0x67452301, 0xefcdab89, 0x98badcfe, 0x10325476),
     md5_lo := 0, md5_hi := 0\<rparr>"

text \<open>The part of \<open>PHP_MD5Update\<close> that keeps the number of bytes, and the part that hashes.\<close>

definition md5_count :: "64 word \<Rightarrow> md5_ctx \<Rightarrow> md5_ctx" where
  "md5_count sz ctx =
     (let saved_lo = md5_lo ctx;
          lo = ucast ((ucast saved_lo + sz) AND 0x1fffffff);
          hi = (if lo < saved_lo then md5_hi ctx + 1 else md5_hi ctx)
      in ctx\<lparr>md5_lo := lo, md5_hi := hi + ucast (drop_bit 29 sz)\<rparr>)"

definition md5_keep :: "64 word \<Rightarrow> byte list \<Rightarrow> md5_ctx \<Rightarrow> ub + md5_ctx" where
  "md5_keep sz data ctx =
     ebind (if 64 \<le> sz
            then ebind (md5_body (sz AND NOT 0x3f) data (md5_regs ctx)) (\<lambda>(data, h).
                   Inr (sz AND 0x3f, data, h))
            else Inr (sz, data, md5_regs ctx)) (\<lambda>(sz, data, h).
     ebind (copy_bytes (md5_buffer ctx) 0 data (unat sz)) (\<lambda>buf.
       Inr (ctx\<lparr>md5_regs := h, md5_buffer := buf\<rparr>)))"

definition md5_update :: "64 word \<Rightarrow> byte list \<Rightarrow> md5_ctx \<Rightarrow> ub + md5_ctx" where
  "md5_update sz data ctx =
     (let used = md5_lo ctx AND 0x3f;
          ctx = md5_count sz ctx
      in
        if used \<noteq> 0 then
          (let free = 64 - used in
           if sz < ucast free then
             ebind (copy_bytes (md5_buffer ctx) (unat used) data (unat sz)) (\<lambda>buf.
               Inr (ctx\<lparr>md5_buffer := buf\<rparr>))
           else
             ebind (copy_bytes (md5_buffer ctx) (unat used) data (unat free)) (\<lambda>buf.
             ebind (md5_body 64 buf (md5_regs ctx)) (\<lambda>(_, h).
               md5_keep (sz - ucast free) (drop (unat free) data)
                 (ctx\<lparr>md5_buffer := buf, md5_regs := h\<rparr>))))
        else md5_keep sz data ctx)"

text \<open>The 16 assignments to \<open>result\<close>.\<close>

fun md5_out :: "regs \<Rightarrow> byte list" where
  "md5_out (a, b, c, d) = word_bytes a @ word_bytes b @ word_bytes c @ word_bytes d"

definition md5_final :: "md5_ctx \<Rightarrow> ub + byte list" where
  "md5_final ctx =
     (let used = unat (md5_lo ctx AND 0x3f) in
      ebind (poke (md5_buffer ctx) used 0x80) (\<lambda>buf.
      let used = used + 1; free = 64 - used in
      ebind (if free < 8
             then ebind (blit buf used (replicate free 0)) (\<lambda>buf.
                  ebind (md5_body 64 buf (md5_regs ctx)) (\<lambda>(_, h). Inr (0, 64, buf, h)))
             else Inr (used, free, buf, md5_regs ctx)) (\<lambda>(used, free, buf, h).
      ebind (blit buf used (replicate (free - 8) 0)) (\<lambda>buf.
      ebind (blit buf 56 (word_bytes (push_bit 3 (md5_lo ctx)) @ word_bytes (md5_hi ctx))) (\<lambda>buf.
      ebind (md5_body 64 buf h) (\<lambda>(_, h). Inr (md5_out h)))))))"

text \<open>
  \<open>md5_file\<close>: the context is on the stack, its buffer holds \<open>fill\<close>. The file is not closed.
\<close>

definition md5_raw :: "byte \<Rightarrow> md5_ctx" where
  "md5_raw fill = \<lparr>md5_lo = 0, md5_hi = 0, md5_regs = (0, 0, 0, 0), md5_buffer = replicate 64 fill\<rparr>"

definition md5_feed :: "byte list \<Rightarrow> md5_ctx \<Rightarrow> (ub + md5_ctx) option" where
  "md5_feed data ctx = Some (md5_update (word_of_nat (length data)) data ctx)"

definition md5_file :: "byte \<Rightarrow> string \<Rightarrow> files \<Rightarrow> (ub + byte list option) option \<times> files" where
  "md5_file fill filename fs =
     (case fopen filename fs of
        (None, fs) \<Rightarrow> (Some (Inr None), fs)
      | (Some content, fs) \<Rightarrow>
          (obind (read_loop md5_feed content (md5_init (md5_raw fill))) (\<lambda>ctx.
             Some (ebind (md5_final ctx) (\<lambda>digest. Inr (Some digest)))), fs))"

subsection \<open>RFC 1321\<close>

text \<open>The functions, the index of the word, the shifts and the table \<open>T\<close> of step \<open>i\<close>.\<close>

definition rfc_f :: "nat \<Rightarrow> 32 word \<Rightarrow> 32 word \<Rightarrow> 32 word \<Rightarrow> 32 word" where
  "rfc_f i x y z =
     (if i < 16 then (x AND y) OR (NOT x AND z)
      else if i < 32 then (x AND z) OR (y AND NOT z)
      else if i < 48 then x XOR y XOR z
      else y XOR (x OR NOT z))"

definition rfc_k :: "nat \<Rightarrow> nat" where
  "rfc_k i = (if i < 16 then i else if i < 32 then (5 * i + 1) mod 16
     else if i < 48 then (3 * i + 5) mod 16 else (7 * i) mod 16)"

definition rfc_s :: "nat \<Rightarrow> nat" where
  "rfc_s i = (if i < 16 then [7, 12, 17, 22] ! (i mod 4) else if i < 32 then [5, 9, 14, 20] ! (i mod 4)
     else if i < 48 then [4, 11, 16, 23] ! (i mod 4) else [6, 10, 15, 21] ! (i mod 4))"

definition rfc_T :: "32 word list" where
  "rfc_T = [
     0xD76AA478, 0xE8C7B756, 0x242070DB, 0xC1BDCEEE, 0xF57C0FAF, 0x4787C62A,
     0xA8304613, 0xFD469501, 0x698098D8, 0x8B44F7AF, 0xFFFF5BB1, 0x895CD7BE,
     0x6B901122, 0xFD987193, 0xA679438E, 0x49B40821, 0xF61E2562, 0xC040B340,
     0x265E5A51, 0xE9B6C7AA, 0xD62F105D, 0x02441453, 0xD8A1E681, 0xE7D3FBC8,
     0x21E1CDE6, 0xC33707D6, 0xF4D50D87, 0x455A14ED, 0xA9E3E905, 0xFCEFA3F8,
     0x676F02D9, 0x8D2A4C8A, 0xFFFA3942, 0x8771F681, 0x6D9D6122, 0xFDE5380C,
     0xA4BEEA44, 0x4BDECFA9, 0xF6BB4B60, 0xBEBFBC70, 0x289B7EC6, 0xEAA127FA,
     0xD4EF3085, 0x04881D05, 0xD9D4D039, 0xE6DB99E5, 0x1FA27CF8, 0xC4AC5665,
     0xF4292244, 0x432AFF97, 0xAB9423A7, 0xFC93A039, 0x655B59C3, 0x8F0CCC92,
     0xFFEFF47D, 0x85845DD1, 0x6FA87E4F, 0xFE2CE6E0, 0xA3014314, 0x4E0811A1,
     0xF7537E82, 0xBD3AF235, 0x2AD7D2BB, 0xEB86D391]"

fun rfc_step :: "(nat \<Rightarrow> 32 word) \<Rightarrow> nat \<Rightarrow> regs \<Rightarrow> regs" where
  "rfc_step X i (a, b, c, d) =
     (d, b + word_rotl (rfc_s i) (a + rfc_f i b c d + X (rfc_k i) + rfc_T ! i), b, c)"

text \<open>Word \<open>k\<close> of a block: its bytes as a number, the lowest first.\<close>

definition rfc_word :: "byte list \<Rightarrow> nat \<Rightarrow> 32 word" where
  "rfc_word p k = word_of_nat (\<Sum>j < 4. unat (p ! (4 * k + j)) * 256 ^ j)"

definition rfc_block :: "byte list \<Rightarrow> regs \<Rightarrow> regs" where
  "rfc_block p h =
     (case (h, fold (rfc_step (rfc_word p)) [0..<64] h) of
        ((a, b, c, d), (a', b', c', d')) \<Rightarrow> (a + a', b + b', c + c', d + d'))"

definition md5_iv :: regs where
  "md5_iv = (0x67452301, 0xEFCDAB89, 0x98BADCFE, 0x10325476)"

definition rfc_bytes :: "32 word \<Rightarrow> byte list" where
  "rfc_bytes w = le_bytes 4 (unat w)"

fun rfc_out :: "regs \<Rightarrow> byte list" where
  "rfc_out (a, b, c, d) = rfc_bytes a @ rfc_bytes b @ rfc_bytes c @ rfc_bytes d"

definition md5 :: "byte list \<Rightarrow> byte list" where
  "md5 = block_hash rfc_block md5_iv le64 rfc_out"

subsection \<open>The transformation is the one of the RFC\<close>

lemma rotate_left_eq:
  assumes "0 < s" and "s < 32"
  shows "rotate_left s a = word_rotl s a"
proof (rule bit_word_eqI)
  fix n
  assume n: "n < LENGTH(32)"
  have m: "(0xffffffff :: 32 word) = mask 32" by (simp add: mask_eq_exp_minus_1)
  have k: "(n + (32 - s)) mod 32 = (if s \<le> n then n - s else n + (32 - s))"
    using n assms by (simp add: mod_if)
  show "bit (rotate_left s a) n = bit (word_rotl s a) n"
    using n assms k unfolding rotate_left_def m
    by (auto simp: bit_simps add.commute [of n 32] dest: bit_imp_le_length)
qed

lemma md5_functions:
  "md5_F x y z = (x AND y) OR (NOT x AND z)" "md5_G x y z = (x AND z) OR (y AND NOT z)"
  by (rule bit_word_eqI, auto simp: md5_F_def md5_G_def bit_simps)+

definition fun_of :: "nat \<Rightarrow> md5_fun" where
  "fun_of i = [MF, MG, MH, MI] ! (i div 16)"

definition reg_of :: "nat \<Rightarrow> md5_reg" where
  "reg_of i = [RA, RD, RC, RB] ! (i mod 4)"

definition step_of :: "nat \<Rightarrow> md5_step" where
  "step_of i = Step (fun_of i) (reg_of i) (rfc_k i) (rfc_T ! i) (rfc_s i)"

lemma md5_steps_eq: "md5_steps = map step_of [0..<64]"
  by (simp add: upt_rec md5_steps_def step_of_def fun_of_def reg_of_def rfc_k_def rfc_T_def rfc_s_def)

lemma md5_f_of: "i < 64 \<Longrightarrow> md5_f (fun_of i) = rfc_f i"
proof (intro ext)
  fix x y z :: "32 word"
  assume "i < 64"
  then consider "i div 16 = 0" "i < 16" | "i div 16 = 1" "\<not> i < 16" "i < 32"
    | "i div 16 = 2" "\<not> i < 32" "i < 48" | "i div 16 = 3" "\<not> i < 48" by linarith
  then show "md5_f (fun_of i) x y z = rfc_f i x y z"
    by cases (simp_all add: fun_of_def rfc_f_def md5_functions md5_H_def md5_I_def)
qed

lemma rfc_s_range: "0 < rfc_s i \<and> rfc_s i < 32"
proof -
  have "i mod 4 \<in> {0, 1, 2, 3}" by auto
  then show ?thesis by (auto simp: rfc_s_def)
qed

lemma md5_STEP_eq:
  "i < 64 \<Longrightarrow> md5_STEP (md5_f (fun_of i)) a b c d x t (rfc_s i) =
     b + word_rotl (rfc_s i) (a + rfc_f i b c d + x + t)"
  using rfc_s_range [of i]
  by (simp add: md5_STEP_def rotate_left_eq md5_f_of Let_def ac_simps)

text \<open>The registers as the RFC numbers them after \<open>i\<close> steps: it moves the values, the code the roles.\<close>

definition turned :: "nat \<Rightarrow> regs \<Rightarrow> regs" where
  "turned i h = (case h of (a, b, c, d) \<Rightarrow>
     [(a, b, c, d), (d, a, b, c), (c, d, a, b), (b, c, d, a)] ! (i mod 4))"

lemma step_turned:
  assumes "i < 64" and "\<And>k. k < 16 \<Longrightarrow> md5_GET p k = X k"
  shows "turned (Suc i) (md5_do_step p (step_of i) h) = rfc_step X i (turned i h)"
proof -
  obtain a b c d where h: "h = (a, b, c, d)" by (cases h)
  have k: "rfc_k i < 16" using assms(1) by (simp add: rfc_k_def)
  have "i mod 4 \<in> {0, 1, 2, 3}" by auto
  then show ?thesis
    using assms(2) [OF k] md5_STEP_eq [OF assms(1)]
    by (auto simp: h turned_def step_of_def reg_of_def mod_Suc)
qed

lemma steps_turned:
  assumes "\<And>k. k < 16 \<Longrightarrow> md5_GET p k = X k" and "n \<le> 64"
  shows "turned n (fold (md5_do_step p) (map step_of [0..<n]) h) = fold (rfc_step X) [0..<n] h"
  using assms(2)
proof (induction n)
  case 0
  then show ?case by (simp add: turned_def split: prod.split)
next
  case (Suc n)
  then show ?case using step_turned [OF _ assms(1), of n] by simp
qed

lemma md5_GET_eq: "md5_GET p k = rfc_word p k"
proof -
  have "(\<Sum>j < 4. unat (p ! (4 * k + j)) * 256 ^ j) = unat (p ! (k * 4)) + 256 * unat (p ! (k * 4 + 1)) +
      65536 * unat (p ! (k * 4 + 2)) + 16777216 * unat (p ! (k * 4 + 3))"
  proof -
    have "{..<4} = {0, 1, 2, 3 :: nat}" by auto
    then show ?thesis by (simp add: mult.commute [of _ 4])
  qed
  then show ?thesis unfolding md5_GET_def word_of_bytes rfc_word_def by simp
qed

lemma md5_block_eq: "md5_block = rfc_block"
proof (intro ext)
  fix p h
  have "turned 64 g = g" for g by (simp add: turned_def split: prod.split)
  then have "fold (md5_do_step p) md5_steps h = fold (rfc_step (rfc_word p)) [0..<64] h"
    using steps_turned [of p "rfc_word p" 64 h] by (simp add: md5_steps_eq md5_GET_eq)
  then show "md5_block p h = rfc_block p h"
    by (simp add: md5_block_def rfc_block_def add.commute split: prod.split)
qed

subsection \<open>Feeding the context\<close>

lemma masks:
  "(0x3f :: 32 word) = mask 6" "(0x3f :: 64 word) = mask 6" "(0x1fffffff :: 64 word) = mask 29"
  by (simp_all add: mask_eq_exp_minus_1)

lemma md5_body_eq:
  assumes "0 < k" and "64 * k \<le> length ptr" and "64 * k < 2 ^ 64"
  shows "md5_body (word_of_nat (64 * k)) ptr h =
    Inr (drop (64 * k) ptr, absorb md5_block h (take (64 * k) ptr))"
  using assms
proof (induction k arbitrary: ptr h)
  case (Suc k)
  have sz: "word_of_nat (64 * Suc k) - 64 = (word_of_nat (64 * k) :: 64 word)" by simp
  have z: "(word_of_nat (64 * k) :: 64 word) = 0 \<longleftrightarrow> k = 0"
    using Suc.prems(3) word_is_zero [where 'a = 64, of "64 * k"] by simp
  have split: "take (64 * Suc k) ptr = take 64 ptr @ take (64 * k) (drop 64 ptr)"
    by (simp add: take_add)
  have a: "absorb md5_block h (take (64 * Suc k) ptr) =
      absorb md5_block (md5_block (take 64 ptr) h) (take (64 * k) (drop 64 ptr))"
    unfolding split using Suc.prems(2) by (intro absorb_block) simp
  show ?case
  proof (cases "k = 0")
    case True
    with Suc.prems sz z a show ?thesis by (subst md5_body.simps) (simp add: Let_def)
  next
    case False
    with Suc.IH [of "drop 64 ptr" "md5_block (take 64 ptr) h"] Suc.prems sz z a show ?thesis
      by (subst md5_body.simps) (simp add: Let_def add.commute)
  qed
qed simp

lemma md5_body_one:
  "length buf = 64 \<Longrightarrow> md5_body 64 buf h = Inr ([], md5_block buf h)"
  using md5_body_eq [of 1 buf h] by (simp add: absorb_one)

text \<open>What is kept of the bytes of a message.\<close>

definition md5_counts :: "byte list \<Rightarrow> md5_ctx \<Rightarrow> bool" where
  "md5_counts m ctx \<longleftrightarrow> md5_lo ctx = word_of_nat (length m mod 2 ^ 29) \<and>
     md5_hi ctx = word_of_nat (length m div 2 ^ 29)"

definition md5_held :: "byte list \<Rightarrow> md5_ctx \<Rightarrow> bool" where
  "md5_held m ctx \<longleftrightarrow> held md5_block md5_iv m (md5_regs ctx) (md5_buffer ctx)"

definition md5_fed :: "byte list \<Rightarrow> md5_ctx \<Rightarrow> bool" where
  "md5_fed m ctx \<longleftrightarrow> md5_counts m ctx \<and> md5_held m ctx"

lemma md5_count_counts:
  assumes "md5_counts m ctx" and "length m + length d < 2 ^ 61"
  shows "md5_counts (m @ d) (md5_count (word_of_nat (length d)) ctx)"
proof -
  let ?n = "length m" and ?k = "length d" and ?lo = "md5_lo ctx"
  let ?new = "word_of_nat ((?n + ?k) mod 2 ^ 29) :: 32 word"
  have "(ucast ?lo :: 64 word) = word_of_nat (?n mod 2 ^ 29)"
    using assms(1) unfolding md5_counts_def by (simp only: word_widen) (simp add: word_widen)
  then have "(ucast ?lo + word_of_nat ?k :: 64 word) AND mask 29 = word_of_nat ((?n mod 2 ^ 29 + ?k) mod 2 ^ 29)"
    using word_mask [where 'a = 64, of 29 "?n mod 2 ^ 29 + ?k"] by simp
  then have new: "ucast ((ucast ?lo + word_of_nat ?k :: 64 word) AND mask 29) = ?new"
    by (simp only: mod_add_left_eq) (simp add: word_narrow)
  have "?new < ?lo \<longleftrightarrow> (?n + ?k) mod 2 ^ 29 < ?n mod 2 ^ 29"
    using assms(1) by (simp add: md5_counts_def word_less_nat_alt unat_of_nat mod_less)
  moreover have "(ucast (drop_bit 29 (word_of_nat ?k :: 64 word)) :: 32 word) = word_of_nat (?k div 2 ^ 29)"
    using assms(2) word_shift [where 'a = 64, of ?k 29] by (simp add: word_narrow)
  ultimately show ?thesis
    using assms(1) new carry_add [of "2 ^ 29" ?n ?k]
    by (simp add: md5_counts_def md5_count_def Let_def masks add_ac)
qed

lemma md5_count_other: "md5_regs (md5_count sz ctx) = md5_regs ctx" "md5_buffer (md5_count sz ctx) = md5_buffer ctx"
  by (simp_all add: md5_count_def Let_def)

lemma md5_keep_held:
  assumes "md5_held m ctx" and "length m mod 64 = 0" and "length d < 2 ^ 64"
  shows "\<exists>c. md5_keep (word_of_nat (length d)) d ctx = Inr c \<and> md5_held (m @ d) c \<and>
    md5_lo c = md5_lo ctx \<and> md5_hi c = md5_hi ctx"
proof -
  let ?k = "length d div 64" and ?h = "md5_regs ctx" and ?sz = "word_of_nat (length d) :: 64 word"
  let ?d = "take (64 * ?k) d" and ?e = "drop (64 * ?k) d"
  have e: "length ?e = length d mod 64" by (simp add: minus_mult_div_eq_mod)
  have kd: "64 * ?k \<le> length d" "length ?d = 64 * ?k" by simp_all
  have u: "unat ?sz = length d" using assms(3) by (simp add: unat_of_nat)
  have held: "held md5_block md5_iv (m @ ?d) (absorb md5_block ?h ?d) (md5_buffer ctx)"
    using assms(1,2) kd(2) by (intro held_blocks) (simp_all add: md5_held_def)
  have blocks: "(if 64 \<le> ?sz
      then ebind (md5_body (?sz AND NOT 0x3f) d ?h) (\<lambda>(data, h). Inr (?sz AND 0x3f, data, h))
      else Inr (?sz, d, ?h)) = Inr (word_of_nat (length ?e), ?e, absorb md5_block ?h ?d)"
  proof (cases "64 \<le> length d")
    case True
    then have "md5_body (?sz AND NOT 0x3f) d ?h = Inr (?e, absorb md5_block ?h ?d)"
      using md5_body_eq [of ?k d ?h] assms(3) kd(1) word_clear [where 'a = 64, of "length d" 6]
      by (simp add: masks order_le_less_trans [OF kd(1)])
    moreover have "64 \<le> ?sz" using True u by (simp add: word_le_nat_alt)
    moreover have "?sz AND 0x3f = word_of_nat (length ?e)"
      using word_mask [where 'a = 64, of 6 "length d"] unfolding e by (simp add: masks)
    ultimately show ?thesis by simp
  next
    case False
    then have k: "?k = 0" by simp
    have n: "\<not> 64 \<le> ?sz" using False u by (simp add: word_le_nat_alt)
    show ?thesis unfolding if_not_P [OF n] by (simp add: k)
  qed
  have r: "length (m @ ?d) mod 64 = 0" using assms(2) kd(2) by (simp add: mod_add_eq [symmetric])
  have ue: "unat (word_of_nat (length ?e) :: 64 word) = length ?e" unfolding e by (simp add: unat_of_nat)
  obtain buf where "blit (md5_buffer ctx) 0 ?e = Inr buf"
    "held md5_block md5_iv ((m @ ?d) @ ?e) (absorb md5_block ?h ?d) buf"
    using held_more [OF held, of ?e] r e by auto
  then show ?thesis
    using blocks ue by (simp add: md5_keep_def copy_bytes_def md5_held_def)
qed

text \<open>\<open>md5_update\<close> on a context that was fed \<open>m\<close>, with lengths instead of words.\<close>

lemma md5_update_lengths:
  assumes "md5_fed m ctx" and "length d < 2 ^ 64"
  shows "md5_update (word_of_nat (length d)) d ctx =
    (let used = length m mod 64; free = 64 - used; c = md5_count (word_of_nat (length d)) ctx in
     if used \<noteq> 0 then
       (if length d < free
        then ebind (copy_bytes (md5_buffer c) used d (length d)) (\<lambda>buf. Inr (c\<lparr>md5_buffer := buf\<rparr>))
        else
          ebind (copy_bytes (md5_buffer c) used d free) (\<lambda>buf.
          ebind (md5_body 64 buf (md5_regs c)) (\<lambda>(_, h).
            md5_keep (word_of_nat (length d - free)) (drop free d) (c\<lparr>md5_buffer := buf, md5_regs := h\<rparr>))))
     else md5_keep (word_of_nat (length d)) d c)"
proof -
  let ?sz = "word_of_nat (length d) :: 64 word" and ?used = "length m mod 64"
  let ?free = "64 - ?used"
  have "length m mod 2 ^ 29 mod 2 ^ 6 = length m mod 2 ^ 6" by (simp add: mod_mod_cancel)
  then have used: "md5_lo ctx AND 0x3f = word_of_nat ?used"
    using assms(1) word_mask [where 'a = 32, of 6 "length m mod 2 ^ 29"]
    by (simp add: md5_fed_def md5_counts_def masks)
  have uu: "unat (word_of_nat ?used :: 32 word) = ?used" by (simp add: unat_of_nat)
  have zero: "(word_of_nat ?used :: 32 word) \<noteq> 0 \<longleftrightarrow> ?used \<noteq> 0"
    by (subst word_is_zero) (simp_all add: order_less_trans [of _ 64])
  have free: "64 - word_of_nat ?used = (word_of_nat ?free :: 32 word)" by simp
  have uf: "unat (word_of_nat ?free :: 32 word) = ?free"
    "(ucast (word_of_nat ?free :: 32 word) :: 64 word) = word_of_nat ?free"
    "unat (word_of_nat ?free :: 64 word) = ?free"
    by (simp_all add: unat_of_nat word_widen order_le_less_trans [OF diff_le_self] del: of_nat_diff)
  have us: "unat ?sz = length d" using assms(2) by (simp add: unat_of_nat)
  have less: "?sz < word_of_nat ?free \<longleftrightarrow> length d < ?free" unfolding word_less_nat_alt us uf ..
  have sub: "?free \<le> length d \<Longrightarrow> ?sz - word_of_nat ?free = word_of_nat (length d - ?free)"
    by (rule of_nat_diff [symmetric])
  show ?thesis
    unfolding md5_update_def Let_def used zero free uf uu us less
    by (cases "length d < ?free") (simp_all only: if_True if_False sub not_less not_le simp_thms)
qed

lemma md5_update_fed:
  assumes "md5_fed m ctx" and "length d < 2 ^ 32 - 64" and "length m + length d < 2 ^ 61"
  shows "\<exists>c. md5_update (word_of_nat (length d)) d ctx = Inr c \<and> md5_fed (m @ d) c"
proof -
  let ?used = "length m mod 64" and ?c = "md5_count (word_of_nat (length d)) ctx"
  let ?free = "64 - ?used"
  have upd: "md5_update (word_of_nat (length d)) d ctx =
    (if ?used \<noteq> 0 then
       (if length d < ?free
        then ebind (copy_bytes (md5_buffer ?c) ?used d (length d)) (\<lambda>buf. Inr (?c\<lparr>md5_buffer := buf\<rparr>))
        else
          ebind (copy_bytes (md5_buffer ?c) ?used d ?free) (\<lambda>buf.
          ebind (md5_body 64 buf (md5_regs ?c)) (\<lambda>(_, h).
            md5_keep (word_of_nat (length d - ?free)) (drop ?free d) (?c\<lparr>md5_buffer := buf, md5_regs := h\<rparr>))))
     else md5_keep (word_of_nat (length d)) d ?c)"
    using md5_update_lengths [OF assms(1), of d] assms(2) by (simp only: Let_def) simp
  have cnt: "md5_counts (m @ d) ?c" using md5_count_counts assms(1,3) by (simp add: md5_fed_def)
  have held: "held md5_block md5_iv m (md5_regs ?c) (md5_buffer ?c)"
    using assms(1) by (simp add: md5_fed_def md5_held_def md5_count_other)
  consider (empty) "?used = 0" | (short) "?used \<noteq> 0" "length d < ?free" | (long) "?used \<noteq> 0" "\<not> length d < ?free"
    by linarith
  then show ?thesis
  proof cases
    case empty
    then obtain c where "md5_keep (word_of_nat (length d)) d ?c = Inr c" "md5_held (m @ d) c"
      "md5_lo c = md5_lo ?c" "md5_hi c = md5_hi ?c"
      using md5_keep_held [of m ?c d] held assms(2) by (auto simp: md5_held_def)
    then show ?thesis using empty cnt unfolding upd by (simp add: md5_fed_def md5_counts_def)
  next
    case short
    then have "?used + length d < 64" by linarith
    then obtain buf where "blit (md5_buffer ?c) ?used d = Inr buf"
      "held md5_block md5_iv (m @ d) (md5_regs ?c) buf"
      using held_more [OF held, of d] by auto
    then show ?thesis using short cnt
      unfolding upd by (simp add: copy_bytes_def md5_fed_def md5_counts_def md5_held_def)
  next
    case long
    let ?d = "take ?free d" and ?e = "drop ?free d"
    have ld: "?used + length ?d = 64" using long by simp
    obtain buf where buf: "blit (md5_buffer ?c) ?used ?d = Inr buf" "length buf = 64"
      "held md5_block md5_iv (m @ ?d) (md5_block buf (md5_regs ?c)) buf"
      using held_fill [OF held ld] by auto
    let ?c1 = "?c\<lparr>md5_buffer := buf, md5_regs := md5_block buf (md5_regs ?c)\<rparr>"
    have r: "length (m @ ?d) mod 64 = 0" using mod_64_fill [OF ld] by simp
    have h: "md5_held (m @ ?d) ?c1" using buf(3) by (simp add: md5_held_def)
    have e: "length ?e < 2 ^ 64" using assms(2) by simp
    obtain c where c: "md5_keep (word_of_nat (length ?e)) ?e ?c1 = Inr c" "md5_held ((m @ ?d) @ ?e) c"
      "md5_lo c = md5_lo ?c1" "md5_hi c = md5_hi ?c1"
      using md5_keep_held [OF h r e] by blast
    have "md5_update (word_of_nat (length d)) d ctx = md5_keep (word_of_nat (length ?e)) ?e ?c1"
      using long buf(1) md5_body_one [OF buf(2)] unfolding upd by (simp add: copy_bytes_def del: of_nat_diff)
    with c cnt show ?thesis by (simp add: md5_fed_def md5_counts_def)
  qed
qed

subsection \<open>The end of a message\<close>

lemma md5_out_eq: "md5_out = rfc_out"
  by (rule ext) (auto simp: word_bytes_eq rfc_bytes_def)

lemma md5_length_bytes:
  assumes "md5_counts m ctx" and "length m < 2 ^ 61"
  shows "word_bytes (push_bit 3 (md5_lo ctx)) @ word_bytes (md5_hi ctx) = le64 (8 * length m)"
proof -
  let ?n = "length m"
  have "unat (push_bit 3 (md5_lo ctx)) = 8 * (?n mod 2 ^ 29)"
    using assms(1) by (simp add: md5_counts_def push_bit_eq_mult unat_word_ariths unat_of_nat)
  moreover have "unat (md5_hi ctx) = ?n div 2 ^ 29"
    using assms by (simp add: md5_counts_def unat_of_nat)
  moreover have "8 * ?n = 8 * (?n mod 2 ^ 29) + 2 ^ 32 * (?n div 2 ^ 29)"
  proof -
    have "8 * ?n = 8 * (2 ^ 29 * (?n div 2 ^ 29) + ?n mod 2 ^ 29)" by (simp only: mult_div_mod_eq)
    moreover have "(2 :: nat) ^ 32 = 8 * 2 ^ 29" by simp
    ultimately show ?thesis by (simp only: distrib_left mult.assoc add.commute)
  qed
  ultimately show ?thesis
    using le64_words [of "8 * (?n mod 2 ^ 29)" "?n div 2 ^ 29"]
    by (simp add: word_bytes_eq)
qed

text \<open>The stores that end a message write its padding.\<close>

lemma md5_final_fed:
  assumes "md5_fed m ctx" and "length m < 2 ^ 61"
  shows "md5_final ctx = Inr (md5 m)"
proof -
  let ?u = "length m mod 64" and ?r = "rest m" and ?h = "absorb md5_block md5_iv m"
    and ?tail = "le64 (8 * length m)"
  have counts: "md5_counts m ctx" and h: "md5_regs ctx = ?h"
    and buf: "length (md5_buffer ctx) = 64" "take ?u (md5_buffer ctx) = ?r"
    using assms(1) by (simp_all add: md5_fed_def md5_held_def held_def)
  have tail: "word_bytes (push_bit 3 (md5_lo ctx)) @ word_bytes (md5_hi ctx) = ?tail"
    using counts assms(2) by (rule md5_length_bytes)
  have "length m mod 2 ^ 29 mod 2 ^ 6 = length m mod 2 ^ 6" by (simp add: mod_mod_cancel)
  then have "md5_lo ctx AND 0x3f = word_of_nat ?u"
    using counts word_mask [where 'a = 32, of 6 "length m mod 2 ^ 29"] by (simp add: md5_counts_def masks)
  then have u: "unat (md5_lo ctx AND 0x3f) = ?u" by (simp add: unat_of_nat)
  have out: "md5 m = md5_out (absorb md5_block md5_iv (pad_message le64 m))"
    by (simp add: md5_def block_hash_def md5_block_eq md5_out_eq)
  obtain buf where poke: "poke (md5_buffer ctx) ?u 0x80 = Inr buf" and
    l: "length buf = 64" and t: "take (Suc ?u) buf = ?r @ [128]"
    using buf by (simp add: poke_def take_Suc_conv_app_nth)
  show ?thesis
  proof (cases "?u < 56")
    case True
    have n: "\<not> 64 - (?u + 1) < 8" "64 - (?u + 1) - 8 = 56 - Suc ?u" using True by simp_all
    have "length (?r @ [128] @ replicate (55 - ?u) 0 @ ?tail) = 64" using True by simp
    from md5_body_one [OF this] True n
      fill_end [OF l t, of ?tail "\<lambda>buf. ebind (md5_body 64 buf ?h) (\<lambda>(_, h). Inr (md5_out h))"]
    show ?thesis
      unfolding md5_final_def u tail h out Let_def poke ebind.simps if_not_P [OF n(1)]
      by (simp add: absorb_padded Let_def)
  next
    case False
    have n: "64 - (?u + 1) < 8" "64 - (?u + 1) = 63 - ?u" using False by simp_all
    let ?b = "?r @ [128] @ replicate (63 - ?u) 0" and ?c = "replicate 56 0 @ ?tail"
    have "?u < 64" by simp
    then have b: "blit buf (Suc ?u) (replicate (63 - ?u) 0) = Inr ?b" and lb: "length ?b = 64"
      using l t by (simp_all add: blit_def)
    have lc: "length ?c = 64" by simp
    show ?thesis
      using md5_body_one [OF lc] False n md5_body_one [OF lb] fill_end [OF lb, of 0 "[]" ?tail
        "\<lambda>buf. ebind (md5_body 64 buf (md5_block ?b ?h)) (\<lambda>(_, h). Inr (md5_out h))"]
      unfolding md5_final_def u tail h out Let_def poke ebind.simps if_P [OF n(1)]
      by (simp add: absorb_padded Let_def b)
  qed
qed

subsection \<open>The digest of a file\<close>

lemma md5_init_fed: "md5_fed [] (md5_init (md5_raw fill))"
  by (simp add: md5_fed_def md5_counts_def md5_held_def held_start md5_init_def md5_raw_def md5_iv_def)

interpretation md5_stream: stream_hash "md5_init (md5_raw fill)" md5_feed "\<lambda>ctx. Some (md5_final ctx)" md5_fed md5
  for fill
proof unfold_locales
  show "md5_fed [] (md5_init (md5_raw fill))" by (rule md5_init_fed)
  show "\<exists>c'. md5_feed d c = Some (Inr c') \<and> md5_fed (m @ d) c'"
    if "md5_fed m c" and "length d < 2 ^ 32 - 64" and "length m + length d < 2 ^ 61" for m c d
    using md5_update_fed [OF that] by (auto simp: md5_feed_def)
  show "Some (md5_final c) = Some (Inr (md5 m))" if "md5_fed m c" and "length m < 2 ^ 61" for m c
    using md5_final_fed [OF that] by simp
qed

lemma md5_file_opened:
  assumes "fopen name fs = (Some content, fs')" and "length content < 2 ^ 61"
  shows "md5_file fill name fs = (Some (Inr (Some (md5 content))), fs')"
proof -
  have "(\<lambda>ctx. Some (ebind (md5_final ctx) (\<lambda>d. Inr (Some d)))) = (\<lambda>ctx. obind (Some (md5_final ctx)) (\<lambda>d. Some (Inr (Some d))))"
    by (rule ext) (auto simp: obind_def split: sum.split)
  then show ?thesis
    using obind_map [OF md5_stream.hash_of_file [OF assms(2)], where g = Some] assms(1) by (simp add: md5_file_def)
qed

lemma length_md5 [simp]: "length (md5 m) = 16"
proof -
  have "length (rfc_out h) = 16" for h by (cases h) (simp add: rfc_bytes_def)
  then show ?thesis by (simp add: md5_def block_hash_def)
qed

subsection \<open>Properties\<close>

text \<open>
  C11: Whatever the stack holds, \<open>md5_file\<close> gives the MD5 digest of the file's contents as the RFC
  defines it, for every length it can count; the buffers are never overrun. The file stays open.
\<close>

theorem md5_file_is_md5:
  assumes "f_content fs name = Some content" and "f_open fs < f_limit fs"
    and "length content < 2 ^ 61"
  shows "md5_file fill name fs = (Some (Inr (Some (md5 content))), fs\<lparr>f_open := Suc (f_open fs)\<rparr>)"
  using assms by (intro md5_file_opened) (simp_all add: fopen_def)

theorem md5_file_is_md5_witness:
  "md5_file 7 ''a'' \<lparr>f_content = [''a'' \<mapsto> replicate 100 97], f_open = 0, f_limit = 1\<rparr> =
     (Some (Inr (Some (md5 (replicate 100 97)))), \<lparr>f_content = [''a'' \<mapsto> replicate 100 97], f_open = 1, f_limit = 1\<rparr>)"
  using md5_file_is_md5 [of "\<lparr>f_content = [''a'' \<mapsto> replicate 100 97], f_open = 0, f_limit = 1\<rparr>"
      "''a''" "replicate 100 97" 7]
  by simp

end
