(* ===== verification/Sha1.thy ===== *)
theory Sha1
  imports Digest
begin

section \<open>SHA-1 (ext/sha1_php.c, ext/sha1_php.h)\<close>

text \<open>
  The other digest the history scraper stores of a file. \<open>sha1_transform\<close>, \<open>sha1_update\<close> and
  \<open>sha1_final\<close> are the functions of the C file; \<open>sha1\<close> is the digest as FIPS 180 defines it. The
  loop of \<open>sha1_update\<close> counts with a 32-bit \<open>i\<close> up to a 64-bit length, so it is written as one that
  may not end.
\<close>

unbundle bit_operations_syntax

subsection \<open>The transformation of one block\<close>

type_synonym regs5 = "32 word \<times> 32 word \<times> 32 word \<times> 32 word \<times> 32 word"

definition sha1_F :: "32 word \<Rightarrow> 32 word \<Rightarrow> 32 word \<Rightarrow> 32 word" where
  "sha1_F x y z = z XOR (x AND (y XOR z))"

definition sha1_G :: "32 word \<Rightarrow> 32 word \<Rightarrow> 32 word \<Rightarrow> 32 word" where
  "sha1_G x y z = x XOR y XOR z"

definition sha1_H :: "32 word \<Rightarrow> 32 word \<Rightarrow> 32 word \<Rightarrow> 32 word" where
  "sha1_H x y z = (x AND y) OR (z AND (x OR y))"

definition sha1_I :: "32 word \<Rightarrow> 32 word \<Rightarrow> 32 word \<Rightarrow> 32 word" where
  "sha1_I x y z = x XOR y XOR z"

definition ROTATE_LEFT :: "32 word \<Rightarrow> nat \<Rightarrow> 32 word" where
  "ROTATE_LEFT x n = (push_bit n x OR drop_bit (32 - n) x)"

text \<open>The macro \<open>W\<close>: the word it gives, and the array with it stored.\<close>

definition sha1_W :: "nat \<Rightarrow> 32 word list \<Rightarrow> 32 word \<times> 32 word list" where
  "sha1_W i x =
     (let tmp = x ! ((i - 3) mod 16) XOR x ! ((i - 8) mod 16) XOR x ! ((i - 14) mod 16) XOR x ! (i mod 16);
          w = ROTATE_LEFT tmp 1
      in (w, x[i mod 16 := w]))"

text \<open>The macros of the four rounds, the order of their registers, and their last argument.\<close>

datatype sha1_mac = FF | GG | HH | II
datatype sha1_args = ABCDE | EABCD | DEABC | CDEAB | BCDEA
datatype sha1_word = X nat | W nat
datatype sha1_step = Round sha1_mac sha1_args sha1_word

fun sha1_f :: "sha1_mac \<Rightarrow> 32 word \<Rightarrow> 32 word \<Rightarrow> 32 word \<Rightarrow> 32 word" where
  "sha1_f FF = sha1_F"
| "sha1_f GG = sha1_G"
| "sha1_f HH = sha1_H"
| "sha1_f II = sha1_I"

fun sha1_k :: "sha1_mac \<Rightarrow> 32 word" where
  "sha1_k FF = 0x5A827999"
| "sha1_k GG = 0x6ED9EBA1"
| "sha1_k HH = 0x8F1BBCDC"
| "sha1_k II = 0xCA62C1D6"

fun sha1_macro :: "sha1_mac \<Rightarrow> 32 word \<Rightarrow> regs5 \<Rightarrow> regs5" where
  "sha1_macro m w (a, b, c, d, e) =
     (let e = e + (sha1_f m b c d + w + sha1_k m);
          e = e + ROTATE_LEFT a 5;
          b = ROTATE_LEFT b 30
      in (a, b, c, d, e))"

fun sha1_call :: "sha1_mac \<Rightarrow> sha1_args \<Rightarrow> 32 word \<Rightarrow> regs5 \<Rightarrow> regs5" where
  "sha1_call m ABCDE w (a, b, c, d, e) = sha1_macro m w (a, b, c, d, e)"
| "sha1_call m EABCD w (a, b, c, d, e) =
     (case sha1_macro m w (e, a, b, c, d) of (e, a, b, c, d) \<Rightarrow> (a, b, c, d, e))"
| "sha1_call m DEABC w (a, b, c, d, e) =
     (case sha1_macro m w (d, e, a, b, c) of (d, e, a, b, c) \<Rightarrow> (a, b, c, d, e))"
| "sha1_call m CDEAB w (a, b, c, d, e) =
     (case sha1_macro m w (c, d, e, a, b) of (c, d, e, a, b) \<Rightarrow> (a, b, c, d, e))"
| "sha1_call m BCDEA w (a, b, c, d, e) =
     (case sha1_macro m w (b, c, d, e, a) of (b, c, d, e, a) \<Rightarrow> (a, b, c, d, e))"

fun sha1_do_step :: "sha1_step \<Rightarrow> 32 word list \<times> regs5 \<Rightarrow> 32 word list \<times> regs5" where
  "sha1_do_step (Round m args (X i)) (x, h) = (x, sha1_call m args (x ! i) h)"
| "sha1_do_step (Round m args (W i)) (x, h) =
     (case sha1_W i x of (w, x) \<Rightarrow> (x, sha1_call m args w h))"

definition sha1_steps :: "sha1_step list" where
  "sha1_steps = [
     Round FF ABCDE (X 0), Round FF EABCD (X 1), Round FF DEABC (X 2),
     Round FF CDEAB (X 3), Round FF BCDEA (X 4), Round FF ABCDE (X 5),
     Round FF EABCD (X 6), Round FF DEABC (X 7), Round FF CDEAB (X 8),
     Round FF BCDEA (X 9), Round FF ABCDE (X 10), Round FF EABCD (X 11),
     Round FF DEABC (X 12), Round FF CDEAB (X 13), Round FF BCDEA (X 14),
     Round FF ABCDE (X 15), Round FF EABCD (W 16), Round FF DEABC (W 17),
     Round FF CDEAB (W 18), Round FF BCDEA (W 19), Round GG ABCDE (W 20),
     Round GG EABCD (W 21), Round GG DEABC (W 22), Round GG CDEAB (W 23),
     Round GG BCDEA (W 24), Round GG ABCDE (W 25), Round GG EABCD (W 26),
     Round GG DEABC (W 27), Round GG CDEAB (W 28), Round GG BCDEA (W 29),
     Round GG ABCDE (W 30), Round GG EABCD (W 31), Round GG DEABC (W 32),
     Round GG CDEAB (W 33), Round GG BCDEA (W 34), Round GG ABCDE (W 35),
     Round GG EABCD (W 36), Round GG DEABC (W 37), Round GG CDEAB (W 38),
     Round GG BCDEA (W 39), Round HH ABCDE (W 40), Round HH EABCD (W 41),
     Round HH DEABC (W 42), Round HH CDEAB (W 43), Round HH BCDEA (W 44),
     Round HH ABCDE (W 45), Round HH EABCD (W 46), Round HH DEABC (W 47),
     Round HH CDEAB (W 48), Round HH BCDEA (W 49), Round HH ABCDE (W 50),
     Round HH EABCD (W 51), Round HH DEABC (W 52), Round HH CDEAB (W 53),
     Round HH BCDEA (W 54), Round HH ABCDE (W 55), Round HH EABCD (W 56),
     Round HH DEABC (W 57), Round HH CDEAB (W 58), Round HH BCDEA (W 59),
     Round II ABCDE (W 60), Round II EABCD (W 61), Round II DEABC (W 62),
     Round II CDEAB (W 63), Round II BCDEA (W 64), Round II ABCDE (W 65),
     Round II EABCD (W 66), Round II DEABC (W 67), Round II CDEAB (W 68),
     Round II BCDEA (W 69), Round II ABCDE (W 70), Round II EABCD (W 71),
     Round II DEABC (W 72), Round II CDEAB (W 73), Round II BCDEA (W 74),
     Round II ABCDE (W 75), Round II EABCD (W 76), Round II DEABC (W 77),
     Round II CDEAB (W 78), Round II BCDEA (W 79)]"

text \<open>\<open>SHA1Decode\<close> and \<open>SHA1Encode\<close>: words and bytes, the highest byte first.\<close>

definition SHA1Decode :: "byte list \<Rightarrow> nat \<Rightarrow> 32 word list" where
  "SHA1Decode inp len =
     map (\<lambda>i. let j = 4 * i in
       ucast (inp ! (j + 3)) OR push_bit 8 (ucast (inp ! (j + 2))) OR
       push_bit 16 (ucast (inp ! (j + 1))) OR push_bit 24 (ucast (inp ! j))) [0..<len div 4]"

definition SHA1Encode :: "32 word list \<Rightarrow> nat \<Rightarrow> byte list" where
  "SHA1Encode inp len =
     concat (map (\<lambda>i. [ucast (drop_bit 24 (inp ! i)), ucast (drop_bit 16 (inp ! i)),
       ucast (drop_bit 8 (inp ! i)), ucast (inp ! i)]) [0..<len div 4])"

definition SHA1Transform :: "byte list \<Rightarrow> regs5 \<Rightarrow> regs5" where
  "SHA1Transform block st =
     (case (st, fold sha1_do_step sha1_steps (SHA1Decode block 64, st)) of
        ((s0, s1, s2, s3, s4), (x, (a, b, c, d, e))) \<Rightarrow>
          (s0 + a, s1 + b, s2 + c, s3 + d, s4 + e))"

subsection \<open>The context\<close>

record sha1_ctx =
  s1_state :: regs5
  s1_count0 :: "32 word"
  s1_count1 :: "32 word"
  s1_buffer :: "byte list"

definition sha1_init :: "sha1_ctx \<Rightarrow> sha1_ctx" where
  "sha1_init ctx = ctx\<lparr>s1_count0 := 0, s1_count1 := 0,
     s1_state := (0x67452301, 0xefcdab89, 0x98badcfe, 0x10325476, 0xc3d2e1f0)\<rparr>"

text \<open>The number of bits so far.\<close>

definition sha1_count :: "64 word \<Rightarrow> sha1_ctx \<Rightarrow> sha1_ctx" where
  "sha1_count inputLen ctx =
     (let bits = push_bit 3 (ucast inputLen) :: 32 word;
          c0 = s1_count0 ctx + bits;
          c1 = (if c0 < bits then s1_count1 ctx + 1 else s1_count1 ctx)
      in ctx\<lparr>s1_count0 := c0, s1_count1 := c1 + drop_bit 29 (ucast inputLen)\<rparr>)"

text \<open>The loop over the blocks of the input, from \<open>i\<close> on. \<open>i\<close> has 32 bits.\<close>

partial_function (option) sha1_loop ::
  "32 word \<Rightarrow> 64 word \<Rightarrow> byte list \<Rightarrow> regs5 \<Rightarrow> (ub + 32 word \<times> regs5) option" where
  "sha1_loop i inputLen inp st =
     (if ucast (i + 63) < inputLen then
        if unat i + 64 \<le> length inp
        then sha1_loop (i + 64) inputLen inp (SHA1Transform (take 64 (drop (unat i) inp)) st)
        else Some (Inl OutOfBounds)
      else Some (Inr (i, st)))"

declare sha1_loop.simps [code]

definition sha1_update :: "64 word \<Rightarrow> byte list \<Rightarrow> sha1_ctx \<Rightarrow> (ub + sha1_ctx) option" where
  "sha1_update inputLen inp ctx =
     (let index = drop_bit 3 (s1_count0 ctx) AND 0x3f;
          ctx = sha1_count inputLen ctx;
          partLen = 64 - index
      in
        obind
          (if ucast partLen \<le> inputLen then
             obind (Some (copy_bytes (s1_buffer ctx) (unat index) inp (unat partLen))) (\<lambda>buf.
             obind (sha1_loop partLen inputLen inp (SHA1Transform buf (s1_state ctx))) (\<lambda>(i, st).
               Some (Inr (0, i, ctx\<lparr>s1_buffer := buf, s1_state := st\<rparr>))))
           else Some (Inr (index, 0, ctx))) (\<lambda>(index, i, ctx).
        obind (Some (copy_bytes (s1_buffer ctx) (unat index) (drop (unat i) inp) (unat (inputLen - ucast i)))) (\<lambda>buf.
          Some (Inr (ctx\<lparr>s1_buffer := buf\<rparr>)))))"

definition PADDING :: "byte list" where
  "PADDING = 0x80 # replicate 63 0"

definition sha1_digest :: "regs5 \<Rightarrow> byte list" where
  "sha1_digest st = (case st of (a, b, c, d, e) \<Rightarrow> SHA1Encode [a, b, c, d, e] 20)"

definition sha1_final :: "sha1_ctx \<Rightarrow> (ub + byte list) option" where
  "sha1_final ctx =
     (let c0 = s1_count0 ctx; c1 = s1_count1 ctx;
          bits = [ucast (drop_bit 24 c1), ucast (drop_bit 16 c1), ucast (drop_bit 8 c1), ucast c1,
                  ucast (drop_bit 24 c0), ucast (drop_bit 16 c0), ucast (drop_bit 8 c0), ucast c0];
          index = drop_bit 3 c0 AND 0x3f;
          padLen = (if index < 56 then 56 - index else 120 - index)
      in
        obind (sha1_update (ucast padLen) PADDING ctx) (\<lambda>ctx.
        obind (sha1_update 8 bits ctx) (\<lambda>ctx.
          Some (Inr (sha1_digest (s1_state ctx))))))"

text \<open>\<open>sha1_file\<close>: the context is on the stack, its buffer holds \<open>fill\<close>. The file is not closed.\<close>

definition sha1_raw :: "byte \<Rightarrow> sha1_ctx" where
  "sha1_raw fill = \<lparr>s1_state = (0, 0, 0, 0, 0), s1_count0 = 0, s1_count1 = 0, s1_buffer = replicate 64 fill\<rparr>"

definition sha1_feed :: "byte list \<Rightarrow> sha1_ctx \<Rightarrow> (ub + sha1_ctx) option" where
  "sha1_feed data ctx = sha1_update (word_of_nat (length data)) data ctx"

definition sha1_file :: "byte \<Rightarrow> string \<Rightarrow> files \<Rightarrow> (ub + byte list option) option \<times> files" where
  "sha1_file fill filename fs =
     (case fopen filename fs of
        (None, fs) \<Rightarrow> (Some (Inr None), fs)
      | (Some content, fs) \<Rightarrow>
          (obind (read_loop sha1_feed content (sha1_init (sha1_raw fill))) (\<lambda>ctx.
             obind (sha1_final ctx) (\<lambda>digest. Some (Inr (Some digest)))), fs))"

subsection \<open>FIPS 180\<close>

definition fips_f :: "nat \<Rightarrow> 32 word \<Rightarrow> 32 word \<Rightarrow> 32 word \<Rightarrow> 32 word" where
  "fips_f t x y z =
     (if t < 20 then (x AND y) XOR (NOT x AND z)
      else if t < 40 then x XOR y XOR z
      else if t < 60 then (x AND y) XOR (x AND z) XOR (y AND z)
      else x XOR y XOR z)"

definition fips_K :: "nat \<Rightarrow> 32 word" where
  "fips_K t = (if t < 20 then 0x5a827999 else if t < 40 then 0x6ed9eba1
     else if t < 60 then 0x8f1bbcdc else 0xca62c1d6)"

text \<open>Word \<open>t\<close> of a block, the highest byte first, and the schedule of 80 words.\<close>

definition fips_word :: "byte list \<Rightarrow> nat \<Rightarrow> 32 word" where
  "fips_word p t = word_of_nat (\<Sum>j < 4. unat (p ! (4 * t + j)) * 256 ^ (3 - j))"

definition fips_schedule :: "byte list \<Rightarrow> 32 word list" where
  "fips_schedule p =
     fold (\<lambda>t ws. ws @ [word_rotl 1 (ws ! (t - 3) XOR ws ! (t - 8) XOR ws ! (t - 14) XOR ws ! (t - 16))])
       [16..<80] (map (fips_word p) [0..<16])"

fun fips_step :: "32 word list \<Rightarrow> nat \<Rightarrow> regs5 \<Rightarrow> regs5" where
  "fips_step ws t (a, b, c, d, e) =
     (word_rotl 5 a + fips_f t b c d + e + fips_K t + ws ! t, a, word_rotl 30 b, c, d)"

definition fips_block :: "byte list \<Rightarrow> regs5 \<Rightarrow> regs5" where
  "fips_block p h =
     (case (h, fold (fips_step (fips_schedule p)) [0..<80] h) of
        ((a, b, c, d, e), (a', b', c', d', e')) \<Rightarrow> (a + a', b + b', c + c', d + d', e + e'))"

definition sha1_iv :: regs5 where
  "sha1_iv = (0x67452301, 0xefcdab89, 0x98badcfe, 0x10325476, 0xc3d2e1f0)"

fun fips_out :: "regs5 \<Rightarrow> byte list" where
  "fips_out (a, b, c, d, e) = concat (map (\<lambda>w. rev (le_bytes 4 (unat w))) [a, b, c, d, e])"

definition sha1 :: "byte list \<Rightarrow> byte list" where
  "sha1 = block_hash fips_block sha1_iv be64 fips_out"

subsection \<open>The transformation is the one of the standard\<close>

lemma ROTATE_LEFT_eq:
  assumes "0 < s" and "s < 32"
  shows "ROTATE_LEFT a s = word_rotl s a"
proof (rule bit_word_eqI)
  fix n
  assume n: "n < LENGTH(32)"
  have "(n + (32 - s)) mod 32 = (if s \<le> n then n - s else n + (32 - s))"
    using n assms by (simp add: mod_if)
  then show "bit (ROTATE_LEFT a s) n = bit (word_rotl s a) n"
    using n assms unfolding ROTATE_LEFT_def
    by (auto simp: bit_simps add.commute [of n 32] dest: bit_imp_le_length)
qed

lemma sha1_functions:
  "sha1_F x y z = (x AND y) XOR (NOT x AND z)"
  "sha1_H x y z = (x AND y) XOR (x AND z) XOR (y AND z)"
  by (rule bit_word_eqI, auto simp: sha1_F_def sha1_H_def bit_simps)+

text \<open>The table of the 80 calls.\<close>

definition mac_of :: "nat \<Rightarrow> sha1_mac" where
  "mac_of t = [FF, GG, HH, II] ! (t div 20)"

definition args_of :: "nat \<Rightarrow> sha1_args" where
  "args_of t = [ABCDE, EABCD, DEABC, CDEAB, BCDEA] ! (t mod 5)"

definition round_of :: "nat \<Rightarrow> sha1_step" where
  "round_of t = Round (mac_of t) (args_of t) (if t < 16 then X t else W t)"

lemma sha1_steps_eq: "sha1_steps = map round_of [0..<80]"
  by (simp add: upt_rec sha1_steps_def round_of_def mac_of_def args_of_def)

lemma sha1_f_of: "t < 80 \<Longrightarrow> sha1_f (mac_of t) = fips_f t \<and> sha1_k (mac_of t) = fips_K t"
proof -
  assume "t < 80"
  then consider "t div 20 = 0" "t < 20" | "t div 20 = 1" "\<not> t < 20" "t < 40"
    | "t div 20 = 2" "\<not> t < 40" "t < 60" | "t div 20 = 3" "\<not> t < 60" by linarith
  then show ?thesis
    by cases (auto simp: fun_eq_iff mac_of_def fips_f_def fips_K_def sha1_functions sha1_G_def sha1_I_def)
qed

text \<open>The registers as the standard names them after \<open>t\<close> rounds.\<close>

definition turned5 :: "nat \<Rightarrow> regs5 \<Rightarrow> regs5" where
  "turned5 t h = (case h of (a, b, c, d, e) \<Rightarrow>
     [(a, b, c, d, e), (e, a, b, c, d), (d, e, a, b, c), (c, d, e, a, b), (b, c, d, e, a)] ! (t mod 5))"

lemma call_turned:
  assumes "t < 80"
  shows "turned5 (Suc t) (sha1_call (mac_of t) (args_of t) (ws ! t) h) = fips_step ws t (turned5 t h)"
proof -
  obtain a b c d e where h: "h = (a, b, c, d, e)" by (cases h)
  have "t mod 5 \<in> {0, 1, 2, 3, 4}" by auto
  then show ?thesis
    using sha1_f_of [OF assms]
    by (auto simp: h turned5_def args_of_def mod_Suc Let_def ROTATE_LEFT_eq ac_simps)
qed

text \<open>The schedule: the array \<open>x\<close> keeps its last 16 words.\<close>

definition schedule_step :: "nat \<Rightarrow> 32 word list \<Rightarrow> 32 word list" where
  "schedule_step t ws = ws @ [word_rotl 1 (ws ! (t - 3) XOR ws ! (t - 8) XOR ws ! (t - 14) XOR ws ! (t - 16))]"

definition schedule_upto :: "byte list \<Rightarrow> nat \<Rightarrow> 32 word list" where
  "schedule_upto p n = fold schedule_step [16..<16 + n] (map (fips_word p) [0..<16])"

lemma schedule_upto_simps:
  "schedule_upto p 0 = map (fips_word p) [0..<16]"
  "schedule_upto p (Suc n) = schedule_step (16 + n) (schedule_upto p n)"
proof -
  have "[16..<16 + Suc n] = [16..<16 + n] @ [16 + n]" unfolding add_Suc_right by (rule upt_Suc_append) simp
  then show "schedule_upto p (Suc n) = schedule_step (16 + n) (schedule_upto p n)"
    unfolding schedule_upto_def by (simp only: fold_append fold_simps o_apply)
qed (simp add: schedule_upto_def)

lemma length_schedule_upto [simp]: "length (schedule_upto p n) = 16 + n"
  by (induction n) (simp_all add: schedule_upto_simps schedule_step_def)

lemma schedule_upto_nth: "n \<le> m \<Longrightarrow> t < 16 + n \<Longrightarrow> schedule_upto p m ! t = schedule_upto p n ! t"
  by (induction m rule: nat_induct_at_least) (simp_all add: schedule_upto_simps schedule_step_def nth_append)

lemma fips_schedule_eq: "fips_schedule p = schedule_upto p 64"
proof -
  have "16 + 64 = (80 :: nat)" by simp
  then show ?thesis unfolding fips_schedule_def schedule_upto_def schedule_step_def [abs_def] by (simp only:)
qed

lemma length_fips_schedule [simp]: "length (fips_schedule p) = 80"
  by (simp add: fips_schedule_eq)

lemma fips_schedule_start: "t < 16 \<Longrightarrow> fips_schedule p ! t = fips_word p t"
  using schedule_upto_nth [of 0 64 t p] by (simp add: fips_schedule_eq schedule_upto_simps(1))

lemma fips_schedule_next:
  assumes "16 \<le> t" and "t < 80"
  shows "fips_schedule p ! t = word_rotl 1 (fips_schedule p ! (t - 3) XOR fips_schedule p ! (t - 8) XOR
    fips_schedule p ! (t - 14) XOR fips_schedule p ! (t - 16))"
proof -
  obtain n where n: "t = 16 + n" using assms(1) le_Suc_ex by blast
  have "schedule_upto p 64 ! j = schedule_upto p n ! j" if "j < t" for j
    using schedule_upto_nth [of n 64 j p] that n assms(2) by simp
  moreover have "schedule_upto p 64 ! t = schedule_upto p (Suc n) ! t"
    using schedule_upto_nth [of "Suc n" 64 t p] n assms(2) by simp
  ultimately show ?thesis
    using n by (simp add: fips_schedule_eq schedule_upto_simps(2) schedule_step_def nth_append)
qed

definition sched_ok :: "32 word list \<Rightarrow> nat \<Rightarrow> 32 word list \<Rightarrow> bool" where
  "sched_ok ws t x \<longleftrightarrow> length x = 16 \<and>
     (\<forall>j. j < max 16 t \<longrightarrow> max 16 t \<le> j + 16 \<longrightarrow> x ! (j mod 16) = ws ! j)"

lemma sched_W:
  assumes "sched_ok (fips_schedule p) t x" and "16 \<le> t" and "t < 80"
  shows "\<exists>x'. sha1_W t x = (fips_schedule p ! t, x') \<and> sched_ok (fips_schedule p) (Suc t) x'"
proof -
  let ?ws = "fips_schedule p"
  have g: "x ! (j mod 16) = ?ws ! j" if "j < t" "t \<le> j + 16" for j
    using assms that by (simp add: sched_ok_def max_def)
  have "x ! (t mod 16) = ?ws ! (t - 16)" using g [of "t - 16"] assms(2) by (simp add: le_mod_geq)
  then have w: "sha1_W t x = (?ws ! t, x[t mod 16 := ?ws ! t])"
    using g [of "t - 3"] g [of "t - 8"] g [of "t - 14"] assms fips_schedule_next [OF assms(2,3), of p]
    by (simp add: sha1_W_def Let_def ROTATE_LEFT_eq)
  have "x[t mod 16 := ?ws ! t] ! (j mod 16) = ?ws ! j" if "j < Suc t" "Suc t \<le> j + 16" for j
  proof (cases "j = t")
    case False
    then have "j < t" "t - j < 16" using that by linarith+
    then have "j mod 16 \<noteq> t mod 16"
      by (metis less_imp_le_nat mod_eq_dvd_iff_nat nat_dvd_not_less zero_less_diff)
    then show ?thesis using g [of j] \<open>j < t\<close> that by simp
  qed (use assms in \<open>simp add: sched_ok_def\<close>)
  then show ?thesis using w assms by (simp add: sched_ok_def max_def)
qed

lemma round_turned:
  assumes "sched_ok (fips_schedule p) t x" and "t < 80"
  shows "\<exists>x'. sha1_do_step (round_of t) (x, h) =
      (x', sha1_call (mac_of t) (args_of t) (fips_schedule p ! t) h) \<and>
    sched_ok (fips_schedule p) (Suc t) x'"
proof (cases "t < 16")
  case True
  then have "x ! t = fips_schedule p ! t" using assms(1) by (auto simp: sched_ok_def dest: spec [of _ t])
  with True assms(1) show ?thesis by (simp add: round_of_def sched_ok_def max_def)
next
  case False
  with sched_W [OF assms(1) _ assms(2)] show ?thesis by (auto simp: round_of_def)
qed

lemma rounds_turned:
  assumes "sched_ok (fips_schedule p) 0 x" and "n \<le> 80"
  shows "\<exists>x' h'. fold sha1_do_step (map round_of [0..<n]) (x, h) = (x', h') \<and>
    sched_ok (fips_schedule p) n x' \<and> turned5 n h' = fold (fips_step (fips_schedule p)) [0..<n] h"
  using assms(2)
proof (induction n)
  case 0
  then show ?case using assms(1) by (simp add: turned5_def split: prod.split)
next
  case (Suc n)
  then obtain x' h' where h: "fold sha1_do_step (map round_of [0..<n]) (x, h) = (x', h')"
    "sched_ok (fips_schedule p) n x'" "turned5 n h' = fold (fips_step (fips_schedule p)) [0..<n] h" by auto
  obtain x'' where "sha1_do_step (round_of n) (x', h') =
      (x'', sha1_call (mac_of n) (args_of n) (fips_schedule p ! n) h')" "sched_ok (fips_schedule p) (Suc n) x''"
    using round_turned [OF h(2), of h'] Suc.prems by auto
  with h call_turned [of n "fips_schedule p" h'] Suc.prems show ?case by simp
qed

lemma SHA1Decode_eq: "SHA1Decode p 64 = map (fips_word p) [0..<16]"
proof -
  have "(\<Sum>j < 4. unat (p ! (4 * k + j)) * 256 ^ (3 - j)) = unat (p ! (4 * k + 3)) + 256 * unat (p ! (4 * k + 2)) +
      65536 * unat (p ! (4 * k + 1)) + 16777216 * unat (p ! (4 * k))" for k
  proof -
    have "{..<4} = {0, 1, 2, 3 :: nat}" by auto
    then show ?thesis by simp
  qed
  then show ?thesis unfolding SHA1Decode_def word_of_bytes fips_word_def Let_def by simp
qed

lemma SHA1Transform_eq: "SHA1Transform = fips_block"
proof (intro ext)
  fix p h
  let ?x = "map (fips_word p) [0..<16]"
  have "sched_ok (fips_schedule p) 0 ?x" by (auto simp: sched_ok_def fips_schedule_start)
  then obtain x' h' where "fold sha1_do_step sha1_steps (?x, h) = (x', h')"
    "turned5 80 h' = fold (fips_step (fips_schedule p)) [0..<80] h"
    using rounds_turned [of p ?x 80 h] by (auto simp: sha1_steps_eq)
  moreover have "turned5 80 h' = h'" by (simp add: turned5_def split: prod.split)
  ultimately show "SHA1Transform p h = fips_block p h"
    by (simp add: SHA1Transform_def fips_block_def SHA1Decode_eq split: prod.split)
qed

lemma SHA1Encode_eq: "sha1_digest = fips_out"
proof -
  have "[ucast (drop_bit 24 w), ucast (drop_bit 16 w), ucast (drop_bit 8 w), ucast w] = rev (le_bytes 4 (unat w))"
    for w :: "32 word" by (simp add: word_bytes_eq [symmetric] word_bytes_def)
  then show ?thesis
    by (auto simp: fun_eq_iff sha1_digest_def SHA1Encode_def upt_rec)
qed

subsection \<open>Feeding the context\<close>

lemma sha1_masks: "(0x3f :: 32 word) = mask 6"
  by (simp add: mask_eq_exp_minus_1)

definition sha1_counts :: "byte list \<Rightarrow> sha1_ctx \<Rightarrow> bool" where
  "sha1_counts m ctx \<longleftrightarrow> s1_count0 ctx = word_of_nat (8 * length m) \<and>
     s1_count1 ctx = word_of_nat (8 * length m div 2 ^ 32)"

definition sha1_fed :: "byte list \<Rightarrow> sha1_ctx \<Rightarrow> bool" where
  "sha1_fed m ctx \<longleftrightarrow> sha1_counts m ctx \<and> held SHA1Transform sha1_iv m (s1_state ctx) (s1_buffer ctx)"

text \<open>The bits that are counted, with the carry into the second word.\<close>

lemma sha1_count_fields:
  "s1_count0 (sha1_count l ctx) = s1_count0 ctx + push_bit 3 (ucast l)"
  "s1_count1 (sha1_count l ctx) =
     (if s1_count0 ctx + push_bit 3 (ucast l) < push_bit 3 (ucast l) then s1_count1 ctx + 1 else s1_count1 ctx) +
     drop_bit 29 (ucast l)"
  "s1_state (sha1_count l ctx) = s1_state ctx" "s1_buffer (sha1_count l ctx) = s1_buffer ctx"
  by (simp_all add: sha1_count_def Let_def)

lemma sha1_count_counts:
  assumes "sha1_counts m ctx" and "length d < 2 ^ 32"
  shows "sha1_counts (m @ d) (sha1_count (word_of_nat (length d)) ctx)"
proof -
  let ?n = "8 * length m" and ?k = "8 * length d"
  have u: "(ucast (word_of_nat (length d) :: 64 word) :: 32 word) = word_of_nat (length d)"
    by (simp add: word_narrow)
  have bits: "push_bit 3 (word_of_nat (length d) :: 32 word) = word_of_nat ?k"
    by (simp add: push_bit_eq_mult mult.commute)
  let ?P = "(?k + ?n) mod 2 ^ 32 < ?k mod 2 ^ 32"
  have len32: "LENGTH(32) = 32" by simp
  have P: "(word_of_nat ?n + word_of_nat ?k :: 32 word) < word_of_nat ?k \<longleftrightarrow> ?P"
    unfolding of_nat_add [symmetric] word_less_nat_alt unat_of_nat len32 add.commute [of ?n ?k] ..
  have top: "drop_bit 29 (word_of_nat (length d) :: 32 word) = word_of_nat (?k div 2 ^ 32)"
    using assms(2) word_shift [where 'a = 32, of "length d" 29] by simp
  have c1: "(?n + ?k) div 2 ^ 32 = ?n div 2 ^ 32 + (if ?P then 1 else 0) + ?k div 2 ^ 32"
    using carry_add [of "2 ^ 32" ?k ?n] by (simp only: add_ac) simp
  have len: "8 * length (m @ d) = ?n + ?k" by simp
  have old: "s1_count0 ctx = word_of_nat ?n" "s1_count1 ctx = word_of_nat (?n div 2 ^ 32)"
    using assms(1) unfolding sha1_counts_def by (rule conjunct1, rule conjunct2)
  let ?c = "sha1_count (word_of_nat (length d)) ctx"
  have "s1_count0 ?c = word_of_nat (?n + ?k)"
    unfolding sha1_count_fields u bits old of_nat_add ..
  moreover have "s1_count1 ?c = (if ?P then word_of_nat (?n div 2 ^ 32) + 1 else word_of_nat (?n div 2 ^ 32)) +
      word_of_nat (?k div 2 ^ 32)"
    unfolding sha1_count_fields u bits old P top ..
  then have "s1_count1 ?c = word_of_nat ((?n + ?k) div 2 ^ 32)"
    unfolding c1 by (cases ?P) (simp_all only: if_True if_False of_nat_add of_nat_0 of_nat_1 add_0_right)
  ultimately show ?thesis unfolding sha1_counts_def len by (rule conjI)
qed

lemma sha1_index:
  assumes "sha1_counts m ctx"
  shows "drop_bit 3 (s1_count0 ctx) AND 0x3f = word_of_nat (length m mod 64)"
proof -
  let ?r = "8 * length m mod 2 ^ 32"
  have "(word_of_nat (8 * length m) :: 32 word) = word_of_nat ?r"
    by (simp only: word_unat_eq_iff unat_of_nat) simp
  then have "drop_bit 3 (s1_count0 ctx) = word_of_nat (?r div 2 ^ 3)"
    using assms word_shift [where 'a = 32, of ?r 3] by (simp add: sha1_counts_def)
  moreover have "?r div 2 ^ 3 mod 2 ^ 6 = length m mod 64"
    using mod_mult2_eq [of "8 * length m" 8 "2 ^ 29"] by (simp add: mod_mod_cancel)
  ultimately show ?thesis using word_mask [where 'a = 32, of 6 "?r div 2 ^ 3"] by (simp add: sha1_masks)
qed

text \<open>
  The loop over complete blocks ends, for lengths that fit the 32-bit counter. The input may have
  bytes \<open>x\<close> past its length, as \<open>PADDING\<close> has.
\<close>

lemma sha1_loop_eq:
  assumes "a \<le> length d" and "length d < 2 ^ 32 - 64"
  shows "sha1_loop (word_of_nat a) (word_of_nat (length d)) (d @ x) st =
    Some (Inr (word_of_nat (length d - (length d - a) mod 64), absorb SHA1Transform st (drop a d)))"
  using assms(1)
proof (induction "length d - a" arbitrary: a st rule: less_induct)
  case less
  let ?n = "length d"
  have "a + 63 < 2 ^ 32" using less.prems assms(2) by simp
  then have "(ucast (word_of_nat a + 63 :: 32 word) :: 64 word) = word_of_nat (a + 63)"
    using word_widen [where 'a = 64 and 'b = 32, of "a + 63"] by simp
  moreover have "unat (word_of_nat (a + 63) :: 64 word) = a + 63" "unat (word_of_nat ?n :: 64 word) = ?n"
    using \<open>a + 63 < 2 ^ 32\<close> assms(2) by (simp_all only: unat_of_nat) simp_all
  ultimately have c: "ucast (word_of_nat a + 63 :: 32 word) < (word_of_nat ?n :: 64 word) \<longleftrightarrow> a + 63 < ?n"
    by (simp only: word_less_nat_alt)
  have ua: "unat (word_of_nat a :: 32 word) = a" using \<open>a + 63 < 2 ^ 32\<close> by (simp add: unat_of_nat)
  show ?case
  proof (cases "a + 63 < ?n")
    case True
    have next_a: "word_of_nat a + 64 = (word_of_nat (a + 64) :: 32 word)" by simp
    have d: "drop a d = take 64 (drop a d) @ drop (a + 64) d"
      by (metis append_take_drop_id drop_drop add.commute)
    have "absorb SHA1Transform st (drop a d) =
        absorb SHA1Transform (SHA1Transform (take 64 (drop a d)) st) (drop (a + 64) d)"
      by (subst d, rule absorb_block) (use True in simp)
    moreover have "take 64 (drop a (d @ x)) = take 64 (drop a d)" using True by simp
    moreover have "(?n - a) mod 64 = (?n - (a + 64)) mod 64" using True by (simp add: le_mod_geq)
    ultimately show ?thesis
      using True less.hyps [of "a + 64" "SHA1Transform (take 64 (drop a d)) st"]
      by (subst sha1_loop.simps) (simp add: c ua next_a del: of_nat_add take_append drop_append)
  next
    case False
    then have "length (drop a d) < 64" "?n - (?n - a) mod 64 = a" using less.prems by simp_all
    with False show ?thesis by (subst sha1_loop.simps) (simp add: c)
  qed
qed

lemma sha1_update_fed:
  assumes "sha1_fed m ctx" and "length d < 2 ^ 32 - 64"
  shows "\<exists>c. sha1_update (word_of_nat (length d)) (d @ x) ctx = Some (Inr c) \<and> sha1_fed (m @ d) c"
proof -
  let ?u = "length m mod 64" and ?n = "word_of_nat (length d) :: 64 word"
  let ?c = "sha1_count ?n ctx"
  obtain p where pu: "p = 64 - ?u" "p \<le> 64" by simp
  have counts: "sha1_counts m ctx" and held: "held SHA1Transform sha1_iv m (s1_state ?c) (s1_buffer ?c)"
    using assms(1) by (simp_all add: sha1_fed_def sha1_count_fields)
  have cnt: "sha1_counts (m @ d) ?c" using counts assms(2) by (intro sha1_count_counts) simp_all
  have u: "unat (word_of_nat ?u :: 32 word) = ?u" by (simp add: unat_of_nat)
  have p: "64 - word_of_nat ?u = (word_of_nat p :: 32 word)" by (simp add: pu)
  have up: "unat (word_of_nat p :: 32 word) = p" "(ucast (word_of_nat p :: 32 word) :: 64 word) = word_of_nat p"
    "unat (word_of_nat p :: 64 word) = p"
    using pu(2) by (simp_all add: unat_of_nat word_widen order_le_less_trans [OF pu(2)])
  have un: "unat ?n = length d" using assms(2) by (simp add: unat_of_nat)
  have le: "word_of_nat p \<le> ?n \<longleftrightarrow> p \<le> length d" unfolding word_le_nat_alt un up ..
  show ?thesis
  proof (cases "p \<le> length d")
    case False
    then have "?u + length d < 64" using pu(1) by linarith
    then obtain buf where "blit (s1_buffer ?c) ?u d = Inr buf" "held SHA1Transform sha1_iv (m @ d) (s1_state ?c) buf"
      using held_more [OF held, of d] by auto
    then show ?thesis
      using False cnt unfolding sha1_update_def Let_def sha1_index [OF counts] p up(2) le
      by (simp add: u un copy_bytes_def sha1_fed_def sha1_counts_def)
  next
    case True
    let ?d = "take p d" and ?e = "drop p d"
    have ld: "?u + length ?d = 64" using True pu(1) by simp
    obtain buf where b: "blit (s1_buffer ?c) ?u ?d = Inr buf" "length buf = 64"
      "held SHA1Transform sha1_iv (m @ ?d) (SHA1Transform buf (s1_state ?c)) buf"
      using held_fill [OF held ld] by auto
    have r: "length (m @ ?d) mod 64 = 0" using mod_64_fill [OF ld] by simp
    let ?st = "absorb SHA1Transform (SHA1Transform buf (s1_state ?c)) ?e"
    obtain buf' where b': "blit buf 0 (rest ?e) = Inr buf'"
      "held SHA1Transform sha1_iv ((m @ ?d) @ ?e) ?st buf'"
      using held_rest [OF b(3) r, of ?e] by auto
    obtain i where id: "i = length d - (length d - p) mod 64" by simp
    have loop: "sha1_loop (word_of_nat p) ?n (d @ x) (SHA1Transform buf (s1_state ?c)) = Some (Inr (word_of_nat i, ?st))"
      using True assms(2) unfolding id by (rule sha1_loop_eq)
    have i: "i = p + (length ?e - length ?e mod 64)" "i \<le> length d" "length d - i = length (rest ?e)"
      using True by (simp_all add: id)
    have e: "drop i (d @ x) = rest ?e @ x" using i(2) unfolding i(1) rest_def by (simp add: add.commute)
    have ui: "unat (word_of_nat i :: 32 word) = i" "ucast (word_of_nat i :: 32 word) = (word_of_nat i :: 64 word)"
      using assms(2) by (simp_all add: unat_of_nat word_widen order_le_less_trans [OF i(2)] del: of_nat_diff)
    have "?n - word_of_nat i = (word_of_nat (length (rest ?e)) :: 64 word)" unfolding i(3) [symmetric] using i(2) by (rule of_nat_diff [symmetric])
    then have sz: "unat (?n - word_of_nat i) = length (rest ?e)" by (simp add: unat_of_nat)
    have rest_in: "length (rest ?e) \<le> length d + length x - i" using i(2,3) by linarith
    have "sha1_update ?n (d @ x) ctx = Some (Inr (?c\<lparr>s1_buffer := buf', s1_state := ?st\<rparr>))"
      using True b(1) b'(1) rest_in unfolding sha1_update_def Let_def sha1_index [OF counts] p up le u loop
      by (simp add: loop copy_bytes_def e sz ui i(3) del: of_nat_diff length_rest drop_append)
    then show ?thesis using cnt b'(2) by (simp add: sha1_fed_def sha1_counts_def)
  qed
qed

subsection \<open>The end of a message\<close>

lemma sha1_length_bytes:
  assumes "length m < 2 ^ 61"
  shows "rev (word_bytes (word_of_nat (8 * length m)) @ word_bytes (word_of_nat (8 * length m div 2 ^ 32))) =
    be64 (8 * length m)"
proof -
  let ?n = "8 * length m"
  have "unat (word_of_nat ?n :: 32 word) = ?n mod 2 ^ 32" by (simp only: unat_of_nat) simp
  moreover have "?n div 2 ^ 32 < 2 ^ 32" using assms by simp
  then have "unat (word_of_nat (?n div 2 ^ 32) :: 32 word) = ?n div 2 ^ 32" by (simp only: unat_of_nat) simp
  moreover have "?n mod 2 ^ 32 + 2 ^ 32 * (?n div 2 ^ 32) = ?n" by (rule mod_mult_div_eq)
  ultimately show ?thesis
    using le64_words [of "?n mod 2 ^ 32" "?n div 2 ^ 32"] unfolding be64_def word_bytes_eq by simp
qed

lemma sha1_final_fed:
  assumes "sha1_fed m ctx" and "length m < 2 ^ 61"
  shows "sha1_final ctx = Some (Inr (sha1 m))"
proof -
  let ?u = "length m mod 64" and ?z = "(119 - length m mod 64) mod 64"
  let ?pad = "128 # replicate ?z 0 :: byte list" and ?bits = "be64 (8 * length m)"
  have counts: "sha1_counts m ctx" using assms(1) by (simp add: sha1_fed_def)
  have u: "unat (word_of_nat ?u :: 32 word) = ?u" by (simp add: unat_of_nat)
  have len: "(if ?u < 56 then 56 - ?u else 120 - ?u) = length ?pad"
  proof (cases "?u < 56")
    case False
    have "?u < 64" by simp
    with False pad_zeros(2) [of ?u] show ?thesis by simp
  qed (simp add: pad_zeros(1))
  have "(word_of_nat ?u :: 32 word) < 56 \<longleftrightarrow> ?u < 56" unfolding word_less_nat_alt u by simp
  then have "(if word_of_nat ?u < (56 :: 32 word) then 56 - word_of_nat ?u else 120 - word_of_nat ?u) =
      (word_of_nat (if ?u < 56 then 56 - ?u else 120 - ?u) :: 32 word)"
    by (simp add: less_imp_le order_trans [of ?u 63])
  note pad = this [unfolded len]
  have w: "length ?pad < 2 ^ LENGTH(32)" by (simp add: order_less_trans [of _ 64])
  have pad_len: "ucast (if word_of_nat ?u < (56 :: 32 word) then 56 - word_of_nat ?u else 120 - word_of_nat ?u :: 32 word) =
      (word_of_nat (length ?pad) :: 64 word)"
    unfolding pad using w by (rule word_widen)
  have "?z \<le> 63" by simp
  then have "replicate 63 0 = replicate ?z 0 @ replicate (63 - ?z) (0 :: byte)"
    by (simp only: replicate_add [symmetric] le_add_diff_inverse)
  then have "PADDING = ?pad @ replicate (63 - ?z) 0" unfolding PADDING_def by simp
  then obtain c1 where c1: "sha1_update (word_of_nat (length ?pad)) PADDING ctx = Some (Inr c1)" "sha1_fed (m @ ?pad) c1"
    using sha1_update_fed [OF assms(1), of ?pad "replicate (63 - ?z) 0"] \<open>?z \<le> 63\<close> by auto
  obtain c2 where c2: "sha1_update 8 ?bits c1 = Some (Inr c2)" "sha1_fed ((m @ ?pad) @ ?bits) c2"
    using sha1_update_fed [OF c1(2), of ?bits "[]"] by auto
  have "sha1_digest (s1_state c2) = sha1 m"
    using c2(2) by (simp add: sha1_fed_def held_def sha1_def block_hash_def pad_message_def SHA1Transform_eq SHA1Encode_eq)
  moreover have "[ucast (drop_bit 24 (s1_count1 ctx)), ucast (drop_bit 16 (s1_count1 ctx)), ucast (drop_bit 8 (s1_count1 ctx)), ucast (s1_count1 ctx),
      ucast (drop_bit 24 (s1_count0 ctx)), ucast (drop_bit 16 (s1_count0 ctx)), ucast (drop_bit 8 (s1_count0 ctx)), ucast (s1_count0 ctx)] = ?bits"
    using counts unfolding sha1_length_bytes [OF assms(2), symmetric] by (simp add: word_bytes_def sha1_counts_def)
  ultimately show ?thesis
    unfolding sha1_final_def Let_def sha1_index [OF counts] pad_len c1(1) by (simp add: c2(1))
qed

subsection \<open>The digest of a file\<close>

interpretation sha1_stream: stream_hash "sha1_init (sha1_raw fill)" sha1_feed sha1_final sha1_fed sha1
  for fill
proof unfold_locales
  show "sha1_fed [] (sha1_init (sha1_raw fill))"
    by (simp add: sha1_fed_def sha1_counts_def held_start sha1_init_def sha1_raw_def sha1_iv_def)
  show "\<exists>c'. sha1_feed d c = Some (Inr c') \<and> sha1_fed (m @ d) c'"
    if "sha1_fed m c" and "length d < 2 ^ 32 - 64" for m c d
    using sha1_update_fed [OF that, of "[]"] by (simp add: sha1_feed_def)
  show "sha1_final c = Some (Inr (sha1 m))" if "sha1_fed m c" and "length m < 2 ^ 61" for m c
    using that by (rule sha1_final_fed)
qed

lemma sha1_file_opened:
  assumes "fopen name fs = (Some content, fs')" and "length content < 2 ^ 61"
  shows "sha1_file fill name fs = (Some (Inr (Some (sha1 content))), fs')"
  using obind_map [OF sha1_stream.hash_of_file [OF assms(2)], where g = Some] assms(1)
  by (simp add: sha1_file_def)

lemma length_sha1 [simp]: "length (sha1 m) = 20"
proof -
  have "length (fips_out h) = 20" for h by (cases h) simp
  then show ?thesis by (simp add: sha1_def block_hash_def)
qed

text \<open>
  From 4 GB on, in one call, the counter of \<open>PHP_SHA1Update\<close> cannot reach the length and the call
  does not return. \<open>sha1_file\<close> passes 1024 bytes at most.
\<close>

lemma sha1_loop_goes_on:
  assumes "2 ^ 32 \<le> unat (L :: 64 word)" and "2 ^ 32 + 64 \<le> n"
  shows "ucast (i + 63 :: 32 word) < L \<and> unat (i :: 32 word) + 64 \<le> n"
proof -
  have less: "unat w < 2 ^ 32" for w :: "32 word" using unsigned_less [of w] by simp
  have wide: "unat (ucast w :: 64 word) = unat w" for w :: "32 word"
    using less [of w] by (simp add: unsigned_ucast_eq take_bit_nat_eq_self)
  show ?thesis
    unfolding word_less_nat_alt wide using assms less [of "i + 63"] less [of i] by (intro conjI) linarith+
qed

lemma sha1_loop_no_end:
  assumes "2 ^ 32 \<le> unat inputLen" and "2 ^ 32 + 64 \<le> length inp"
  shows "sha1_loop i inputLen inp st = None"
proof -
  have "\<not> (2 ^ 32 \<le> unat inputLen \<and> 2 ^ 32 + 64 \<le> length inp)" if "sha1_loop i inputLen inp st = Some y" for y
    using that
  proof (induction rule: sha1_loop.raw_induct [rotated, consumes 1, case_names step])
    case (step loop i L inp st y)
    show ?case
    proof
      assume "2 ^ 32 \<le> unat L \<and> 2 ^ 32 + 64 \<le> length inp"
      moreover obtain a b c d e where "SHA1Transform (take 64 (drop (unat i) inp)) st = (a, b, c, d, e)"
        by (metis prod_cases5)
      ultimately have "loop (i + 64) L inp (a, b, c, d, e) = Some y"
        using step(2) sha1_loop_goes_on [of L "length inp" i] by simp
      from step(1) [OF this] \<open>2 ^ 32 \<le> unat L \<and> 2 ^ 32 + 64 \<le> length inp\<close> show False by blast
    qed
  qed
  with assms show ?thesis by (cases "sha1_loop i inputLen inp st") auto
qed

subsection \<open>Properties\<close>

text \<open>
  C15: Whatever the stack holds, \<open>sha1_file\<close> gives the SHA-1 digest of the file's contents as the standard
  defines it, for every length it can count; the buffers are never overrun. The file stays open.
\<close>

theorem sha1_file_is_sha1:
  assumes "f_content fs name = Some content" and "f_open fs < f_limit fs"
    and "length content < 2 ^ 61"
  shows "sha1_file fill name fs = (Some (Inr (Some (sha1 content))), fs\<lparr>f_open := Suc (f_open fs)\<rparr>)"
  using assms by (intro sha1_file_opened) (simp_all add: fopen_def)

theorem sha1_file_is_sha1_witness:
  "sha1_file 7 ''a'' \<lparr>f_content = [''a'' \<mapsto> replicate 100 97], f_open = 0, f_limit = 1\<rparr> =
     (Some (Inr (Some (sha1 (replicate 100 97)))), \<lparr>f_content = [''a'' \<mapsto> replicate 100 97], f_open = 1, f_limit = 1\<rparr>)"
  using sha1_file_is_sha1 [of "\<lparr>f_content = [''a'' \<mapsto> replicate 100 97], f_open = 0, f_limit = 1\<rparr>"
      "''a''" "replicate 100 97" 7]
  by simp

end
