(* ===== verification/FileDigest.thy ===== *)
theory FileDigest
  imports Md5 Sha1 HistoryProps
begin

section \<open>The files of the history scraper and their digests\<close>

text \<open>
  \<open>resolveFile\<close> of \<open>Modules/Preload/HistoryScraper.cpp\<close> computes both digests of a downloaded file
  and moves it to a name made of them. \<open>new_file\<close> is that part of the function, with the buffers
  it uses, over the files of the process; \<open>History.resolve_file\<close> takes the digests from its
  environment, and \<open>with_files\<close> is the environment that computes them. The files \<open>md5_file\<close> and
  \<open>sha1_file\<close> open are not closed by either, so a process can store only so many.
\<close>

subsection \<open>The name of a stored file\<close>

definition fbind ::
  "(ub + 'a option) option \<times> files \<Rightarrow> ('a \<Rightarrow> files \<Rightarrow> (ub + 'b option) option \<times> files) \<Rightarrow>
     (ub + 'b option) option \<times> files" where
  "fbind m f =
     (case m of
        (None, fs) \<Rightarrow> (None, fs)
      | (Some (Inl e), fs) \<Rightarrow> (Some (Inl e), fs)
      | (Some (Inr None), fs) \<Rightarrow> (Some (Inr None), fs)
      | (Some (Inr (Some x)), fs) \<Rightarrow> f x fs)"

text \<open>What \<open>resolveFile\<close> computes: the two digests, and the name \<open>new_fn\<close>. \<open>None\<close> is the return of 0.\<close>

definition new_file ::
  "byte \<Rightarrow> string \<Rightarrow> files \<Rightarrow> (ub + (byte list \<times> byte list \<times> string) option) option \<times> files" where
  "new_file fill path fs =
     fbind (md5_file fill path fs) (\<lambda>md5_buf fs.
     fbind (sha1_file fill path fs) (\<lambda>sha1_buf fs.
       (Some (ebind (make_digest_ex (replicate 33 NUL) md5_buf 16) (\<lambda>md5_dg.
              ebind (make_digest_ex (replicate 41 NUL) sha1_buf 20) (\<lambda>sha1_dg.
                Inr (Some (md5_buf, sha1_buf,
                  snprintf_str 1024 (''storage/files/'' @ cstr md5_dg @ ''_'' @ cstr sha1_dg @ ''.'' @
                    get_filename_ext path)))))), fs)))"

text \<open>Files stored one after the other.\<close>

fun store_files ::
  "byte \<Rightarrow> string list \<Rightarrow> files \<Rightarrow> (ub + (byte list \<times> byte list \<times> string) option) option list \<times> files" where
  "store_files fill [] fs = ([], fs)"
| "store_files fill (path # paths) fs =
     (case new_file fill path fs of
        (r, fs) \<Rightarrow> (case store_files fill paths fs of (rs, fs) \<Rightarrow> (r # rs, fs)))"

text \<open>The name as a text, and what both functions do to the number of open files.\<close>

definition name_of :: "byte list \<Rightarrow> string \<Rightarrow> string" where
  "name_of content path = snprintf_str 1024
     (''storage/files/'' @ hex_text (md5 content) @ ''_'' @ hex_text (sha1 content) @ ''.'' @
      get_filename_ext path)"

lemma make_digest_ex_text:
  assumes "length s = Suc (2 * length digest)"
  shows "make_digest_ex s digest (length digest) = Inr (hex_text digest @ [NUL])"
  using assms digest_loop_eq [of 0 "length digest" digest s] by (simp add: make_digest_ex_def blit_def)

lemma new_file_cases:
  assumes "f_content fs path = Some content" and "length content < 2 ^ 61"
  shows "new_file fill path fs =
    (if f_open fs + 1 < f_limit fs then
       (Some (Inr (Some (md5 content, sha1 content, name_of content path))), fs\<lparr>f_open := f_open fs + 2\<rparr>)
     else (Some (Inr None), fs\<lparr>f_open := max (f_open fs) (f_limit fs)\<rparr>))"
proof -
  let ?fs = "fs\<lparr>f_open := Suc (f_open fs)\<rparr>"
  have m: "fopen path fs = (Some content, ?fs)" if "f_open fs < f_limit fs"
    using that assms(1) by (simp add: fopen_def)
  have s: "fopen path ?fs = (Some content, ?fs\<lparr>f_open := Suc (Suc (f_open fs))\<rparr>)" if "Suc (f_open fs) < f_limit fs"
    using that assms(1) by (simp add: fopen_def)
  have dg: "make_digest_ex (replicate 33 NUL) (md5 content) 16 = Inr (hex_text (md5 content) @ [NUL])"
    "make_digest_ex (replicate 41 NUL) (sha1 content) 20 = Inr (hex_text (sha1 content) @ [NUL])"
    using make_digest_ex_text [of "replicate 33 NUL" "md5 content"] make_digest_ex_text [of "replicate 41 NUL" "sha1 content"]
    by simp_all
  consider "f_open fs + 1 < f_limit fs" | "f_open fs + 1 = f_limit fs" | "f_limit fs \<le> f_open fs" by linarith
  then show ?thesis
  proof cases
    case 1
    then show ?thesis
      using md5_file_opened [OF m assms(2)] sha1_file_opened [OF s assms(2)]
      by (simp add: new_file_def fbind_def dg name_of_def hex_text_no_nul)
  next
    case 2
    then have "sha1_file fill path ?fs = (Some (Inr None), ?fs)"
      using assms(1) by (simp add: sha1_file_def fopen_def)
    with 2 show ?thesis using md5_file_opened [OF m assms(2)] by (simp add: new_file_def fbind_def)
  next
    case 3
    then have "md5_file fill path fs = (Some (Inr None), fs)"
      using assms(1) by (simp add: md5_file_def fopen_def)
    with 3 show ?thesis by (simp add: new_file_def fbind_def max_absorb1)
  qed
qed

lemma store_files_nth:
  assumes "\<forall>path \<in> set paths. \<exists>content. f_content fs path = Some content \<and> length content < 2 ^ 61"
    and "i < length paths" and "f_content fs (paths ! i) = Some content"
  shows "fst (store_files fill paths fs) ! i =
    (if f_open fs + 2 * i + 1 < f_limit fs
     then Some (Inr (Some (md5 content, sha1 content, name_of content (paths ! i))))
     else Some (Inr None))"
  using assms
proof (induction paths arbitrary: fs i)
  case (Cons path paths)
  from Cons.prems(1) obtain bs where bs: "f_content fs path = Some bs" "length bs < 2 ^ 61" by auto
  obtain r fs' where one: "new_file fill path fs = (r, fs')" by fastforce
  have fs': "f_content fs' = f_content fs" "f_limit fs' = f_limit fs"
    "f_open fs' = (if f_open fs + 1 < f_limit fs then f_open fs + 2 else max (f_open fs) (f_limit fs))"
    using new_file_cases [OF bs, of fill] one by (auto split: if_splits)
  show ?case
  proof (cases i)
    case 0
    with Cons.prems(3) bs new_file_cases [OF bs, of fill] one show ?thesis
      by (auto split: if_splits prod.split)
  next
    case (Suc j)
    with Cons.IH [of fs' j] Cons.prems one fs' show ?thesis by (auto split: prod.split)
  qed
qed simp

subsection \<open>The environment of the scraper\<close>

text \<open>
  The digests of files as \<open>resolve_file\<close> uses them: \<open>sha1_file\<close> is called with the files as
  \<open>md5_file\<close> leaves them.
\<close>

definition chars :: "byte list \<Rightarrow> string" where
  "chars bs = map (\<lambda>b. char_of (unat b)) bs"

definition digest_of :: "(ub + byte list option) option \<times> files \<Rightarrow> string option" where
  "digest_of r = (case fst r of Some (Inr d) \<Rightarrow> map_option chars d | _ \<Rightarrow> None)"

definition with_files :: "byte \<Rightarrow> files \<Rightarrow> 'd henv \<Rightarrow> 'd henv" where
  "with_files fill fs e = e\<lparr>e_md5 := (\<lambda>path. digest_of (md5_file fill path fs)),
     e_sha1 := (\<lambda>path. digest_of (sha1_file fill path (snd (md5_file fill path fs))))\<rparr>"

lemma hex_digest_chars: "hex_digest (chars bs) = hex_text bs"
proof -
  have "unat b < 256" for b :: byte using unsigned_less [of b] by simp
  then have "(of_char (char_of (unat b) :: char) :: nat) = unat b" for b :: byte by (simp add: of_char_of)
  then show ?thesis
    by (simp add: hex_digest_def hex_text_def chars_def comp_def hex_pair_def [abs_def] hex_digit_def hexits_def)
qed

lemma stored_name_chars: "stored_name (chars (md5 content)) (chars (sha1 content)) path = name_of content path"
  by (simp add: stored_name_def name_of_def hex_digest_chars)

lemma insert_file_renames_none: "insert_file e file loc m k s = (r, t) \<Longrightarrow> h_renamed t = h_renamed s"
  by (auto simp: insert_file_def hbind_def hseq_def date_now_def observe_def sql_def last_insert_id_def
      get_uint_def ret_def fail_with_def split: sum.splits prod.splits list.splits if_splits cell.splits)

lemma digests_of_file:
  assumes "f_content fs path = Some content" and "length content < 2 ^ 61" and "f_open fs + 1 < f_limit fs"
  shows "e_md5 (with_files fill fs e) path = Some (chars (md5 content))"
    "e_sha1 (with_files fill fs e) path = Some (chars (sha1 content))"
proof -
  let ?fs = "fs\<lparr>f_open := Suc (f_open fs)\<rparr>"
  have "md5_file fill path fs = (Some (Inr (Some (md5 content))), ?fs)"
    using assms by (intro md5_file_opened) (simp_all add: fopen_def)
  moreover have "sha1_file fill path ?fs = (Some (Inr (Some (sha1 content))), ?fs\<lparr>f_open := f_open fs + 2\<rparr>)"
    using assms by (intro sha1_file_opened) (simp_all add: fopen_def)
  ultimately show "e_md5 (with_files fill fs e) path = Some (chars (md5 content))"
    "e_sha1 (with_files fill fs e) path = Some (chars (sha1 content))"
    by (simp_all add: with_files_def digest_of_def)
qed

text \<open>Once no two files can be opened, no file has digests.\<close>

lemma unreadable_when_full:
  assumes "f_limit fs \<le> f_open fs + 1" and "\<And>path. case f_content fs path of None \<Rightarrow> True | Some bs \<Rightarrow> length bs < 2 ^ 61"
  shows "unreadable (with_files fill fs e) f"
proof -
  have "e_md5 (with_files fill fs e) path = None \<or> e_sha1 (with_files fill fs e) path = None" for path
  proof (cases "f_content fs path")
    case None
    then show ?thesis by (simp add: with_files_def digest_of_def md5_file_def fopen_def)
  next
    case (Some bs)
    show ?thesis
    proof (cases "f_open fs < f_limit fs")
      case True
      then have "fopen path fs = (Some bs, fs\<lparr>f_open := Suc (f_open fs)\<rparr>)" using Some by (simp add: fopen_def)
      then have "snd (md5_file fill path fs) = fs\<lparr>f_open := Suc (f_open fs)\<rparr>" by (simp add: md5_file_def)
      then show ?thesis using Some assms(1) by (simp add: with_files_def digest_of_def sha1_file_def fopen_def)
    next
      case False
      then show ?thesis using Some by (simp add: with_files_def digest_of_def md5_file_def fopen_def)
    qed
  qed
  then show ?thesis by (auto simp: unreadable_def split: option.split)
qed

subsection \<open>Properties\<close>

text \<open>
  C14: The name a downloaded file is to be renamed to holds its MD5 and its SHA-1 in hexadecimal, and
  both can be read back from the name.
\<close>

theorem files_named_by_content:
  assumes "e_file e (h_tick s) (f_id f) = Some loc" and "f_path loc \<noteq> []"
    and "f_content fs (f_path loc) = Some content" and "length content < 2 ^ 61"
    and "f_open fs + 1 < f_limit fs"
    and "resolve_file (with_files fill fs e) f s = (r, t)"
  shows "\<exists>name. h_renamed t = h_renamed s @ [(f_path loc, name)] \<and>
    new_file fill (f_path loc) fs =
      (Some (Inr (Some (md5 content, sha1 content, name))), fs\<lparr>f_open := f_open fs + 2\<rparr>) \<and>
    read_hex (take 32 (drop 14 name)) = md5 content \<and> read_hex (take 40 (drop 47 name)) = sha1 content"
proof -
  let ?e = "with_files fill fs e" and ?name = "name_of content (f_path loc)"
  have "e_file ?e = e_file e" by (simp add: with_files_def)
  then have "h_renamed t = h_renamed s @ [(f_path loc, ?name)]"
    using assms(1,2,6)
    by (auto simp: digests_of_file [OF assms(3-5)] resolve_file_def hbind_def observe_def hseq_def put_def catch_string_def fail_with_def
        stored_name_chars dest: insert_file_renames_none split: prod.splits sum.splits exn.splits)
  moreover have "new_file fill (f_path loc) fs =
      (Some (Inr (Some (md5 content, sha1 content, ?name))), fs\<lparr>f_open := f_open fs + 2\<rparr>)"
    using new_file_cases [OF assms(3,4)] assms(5) by simp
  moreover have "take 32 (drop 14 ?name) = hex_text (md5 content)" "take 40 (drop 47 ?name) = hex_text (sha1 content)"
    by (simp_all add: name_of_def snprintf_str_def take_drop)
  ultimately show ?thesis by (auto simp: read_hex_text)
qed

theorem files_named_by_content_witness:
  "\<exists>e fs name. new_file 0 ''a.b'' fs = (Some (Inr (Some (md5 [1], sha1 [1], name))), fs\<lparr>f_open := 2\<rparr>) \<and>
    h_renamed (snd (resolve_file (with_files 0 fs e) sticker hist_init)) = [(''a.b'', name)]"
proof -
  let ?fs = "\<lparr>f_content = [''a.b'' \<mapsto> [1]], f_open = 0, f_limit = 2\<rparr>"
  let ?e = "(my_env Extended)\<lparr>e_file := (\<lambda>_ _. Some (sticker\<lparr>f_path := ''a.b''\<rparr>))\<rparr>"
  obtain r t where 1: "resolve_file (with_files 0 ?fs ?e) sticker hist_init = (r, t)" by fastforce
  have "\<exists>name. h_renamed t = h_renamed hist_init @ [(''a.b'', name)] \<and>
      new_file 0 ''a.b'' ?fs = (Some (Inr (Some (md5 [1], sha1 [1], name))), ?fs\<lparr>f_open := 2\<rparr>)"
    using files_named_by_content [OF _ _ _ _ _ 1, of "sticker\<lparr>f_path := ''a.b''\<rparr>" "[1]"] by auto
  then obtain name where "h_renamed t = [(''a.b'', name)]"
    "new_file 0 ''a.b'' ?fs = (Some (Inr (Some (md5 [1], sha1 [1], name))), ?fs\<lparr>f_open := 2\<rparr>)"
    by (auto simp: hist_init_def)
  moreover from this(1) have "h_renamed (snd (resolve_file (with_files 0 ?fs ?e) sticker hist_init)) = [(''a.b'', name)]"
    unfolding 1 by simp
  ultimately show ?thesis by blast
qed

text \<open>
  C36: The files opened for the digests are never closed: of the files a process stores one after
  the other, exactly those before the limit of open files is reached get a name, and none after.
\<close>

theorem files_run_out:
  assumes "\<forall>path \<in> set paths. \<exists>content. f_content fs path = Some content \<and> length content < 2 ^ 61"
    and "i < length paths"
  shows "if f_open fs + 2 * i + 1 < f_limit fs
    then \<exists>entry. fst (store_files fill paths fs) ! i = Some (Inr (Some entry))
    else fst (store_files fill paths fs) ! i = Some (Inr None)"
proof -
  obtain content where "f_content fs (paths ! i) = Some content" using assms by fastforce
  from store_files_nth [OF assms this, of fill] show ?thesis by simp
qed

text \<open>The limit Linux gives a process is 1024: the 512th file is refused with one descriptor in use.\<close>

theorem files_run_out_witness:
  "fst (store_files 0 (replicate 600 ''a'') \<lparr>f_content = [''a'' \<mapsto> [1]], f_open = 3, f_limit = 1024\<rparr>) ! 511 = Some (Inr None)"
  using files_run_out [of "replicate 600 ''a''" "\<lparr>f_content = [''a'' \<mapsto> [1]], f_open = 3, f_limit = 1024\<rparr>" 511 0]
  by simp

end
