(* ===== verification/HistoryTypes.thy ===== *)
theory HistoryTypes
  imports FileDigest
begin

section \<open>The values bound to the statements of the history scraper\<close>

text \<open>
  Each statement of \<open>HistoryScraper.cpp\<close> has placeholders, and each call binds its values by
  position, so nothing but care keeps the two in step. \<open>columns\<close> gives for each placeholder the
  column of \<open>database.sql\<close> it stands for; a server that refuses values of the wrong number or the
  wrong kind is shown to answer the scraper as one that takes them all.
\<close>

subsection \<open>Columns\<close>

text \<open>
  The types of columns, as far as the kind of a bound value decides: an unsigned or signed number,
  a number that is only compared, which may be bound with either sign, a text, one of the texts 0
  and 1, a date, bytes of a fixed length. The length of texts is not part of it.
\<close>

datatype column =
    Unsigned | Signed | Compared | Text | Flag | Date | Binary nat | Null_or column

text \<open>The fields of a date and of a time, in the ranges MySQL takes for a time.\<close>

definition date_shape :: "string \<Rightarrow> bool" where
  "date_shape s \<longleftrightarrow>
     (\<exists>y m d h i sec. s = dec_int y @ ''-'' @ two_digits m @ ''-'' @ two_digits d @ '' '' @
        two_digits h @ '':'' @ two_digits i @ '':'' @ two_digits sec \<and>
        h \<in> {0..23} \<and> i \<in> {0..59} \<and> sec \<in> {0..59})"

fun fits :: "column \<Rightarrow> param \<Rightarrow> bool" where
  "fits Unsigned (PUint _) = True"
| "fits Signed (PSint _) = True"
| "fits Compared (PUint _) = True"
| "fits Compared (PSint _) = True"
| "fits Text (PString s) = (NUL \<notin> set s)"
| "fits Flag (PString s) = (s = ''0'' \<or> s = ''1'')"
| "fits Date (PString s) = date_shape s"
| "fits (Binary n) (PBytes b) = (length b = n)"
| "fits (Null_or _) PNull = True"
| "fits (Null_or c) p = fits c p"
| "fits _ _ = False"

text \<open>
  The columns in the order of the placeholders. The table of forwards is not in \<open>database.sql\<close>;
  its columns are taken as the other tables have them.
\<close>

fun columns :: "query \<Rightarrow> column list" where
  "columns QStart = []"
| "columns QRollback = []"
| "columns QCommit = []"
| "columns QTrackEvent = [Unsigned]"
| "columns QLastInsertId = []"
| "columns QInsertUser = [Unsigned, Null_or Text, Text, Null_or Text, Date]"
| "columns QSelectUser = [Compared]"
| "columns QInsertGroup = [Signed, Null_or Text, Text, Date]"
| "columns QSelectGroup = [Compared]"
| "columns QInsertForward = [Unsigned, Text, Date, Text, Unsigned, Text, Unsigned, Unsigned]"
| "columns QSetEdited = [Null_or Date, Compared, Compared]"
| "columns QSetDeleted = [Null_or Date, Compared, Compared]"
| "columns QSelectMessage = [Compared, Compared]"
| "columns QInsertMessage = [Unsigned, Unsigned, Unsigned, Null_or Unsigned, Text, Flag, Flag, Date]"
| "columns QInsertDataText = [Unsigned, Null_or Text, Null_or Text, Flag, Null_or Date, Date]"
| "columns QInsertDataFile =
     [Unsigned, Null_or Text, Null_or Text, Null_or Unsigned, Flag, Null_or Date, Date]"
| "columns QInsertFile = [Text, Null_or Text, Binary 16, Binary 20, Null_or Text, Unsigned, Date]"

definition placeholders :: "query \<Rightarrow> nat" where
  "placeholders q = length (filter (\<lambda>c. c = CHR ''?'') (sql_text q))"

definition well_typed :: "query \<Rightarrow> param list \<Rightarrow> bool" where
  "well_typed q ps \<longleftrightarrow> length ps = placeholders q \<and> list_all2 fits (columns q) ps"

lemma placeholders_columns: "placeholders q = length (columns q)"
  by (cases q) (simp_all add: placeholders_def)

text \<open>The environment with a server that refuses what is not well typed.\<close>

definition checked :: "'d henv \<Rightarrow> 'd henv" where
  "checked e = e\<lparr>e_exec := (\<lambda>q ps d. if well_typed q ps then e_exec e q ps d else (Inl ''mistyped'', d))\<rparr>"

lemma checked_simps [simp]:
  "e_time (checked e) = e_time e" "e_user (checked e) = e_user e" "e_chat (checked e) = e_chat e"
  "e_file (checked e) = e_file e" "e_events (checked e) = e_events e" "e_md5 (checked e) = e_md5 e"
  "e_sha1 (checked e) = e_sha1 e" "e_entities (checked e) = e_entities e"
  "e_cell_error (checked e) = e_cell_error e"
  by (simp_all add: checked_def)

lemma sql_checked: "well_typed q ps \<Longrightarrow> sql (checked e) q ps = sql e q ps"
  by (rule ext) (simp add: sql_def checked_def)

lemma sql_unit_checked: "well_typed q ps \<Longrightarrow> sql_unit (checked e) q ps = sql_unit e q ps"
  by (simp add: sql_unit_def sql_checked)

subsection \<open>The values\<close>

lemma fits_values [simp]:
  "fits Text (str_of s)" "fits (Null_or Text) (str_of s)" "fits Unsigned (uint_of i)"
  "fits Signed (sint_of i)" "fits (Null_or Unsigned) (uint_of i)" "fits Flag (flag_of b)"
  "fits (Null_or Text) (entities_param e ft)"
  by (simp_all add: str_of_def uint_of_def sint_of_def flag_of_def entities_param_def)

lemma date_shape_unix_tm [simp]: "date_shape (date_by_unix_tm i)"
proof -
  obtain y m d where c: "civil (i div 86400) = (y, m, d)" by (cases "civil (i div 86400)")
  let ?h = "i mod 86400 div 3600" and ?sec = "i mod 86400 mod 60"
  have "?h \<in> {0..23}" "hour12 ?h \<in> {0..59}" "?sec \<in> {0..59}" by (auto simp: hour12_def)
  then show ?thesis unfolding date_shape_def date_by_unix_tm_def c Let_def prod.case by blast
qed

lemmas typed_simps = well_typed_def placeholders_columns

lemmas branch_cong = list.case_cong option.case_cong if_cong message_content.case_cong
  message_sender.case_cong event_action.case_cong forward_origin.case_cong

subsection \<open>The operations\<close>

lemma observe_cong: "(\<And>n. f (h n) = g (h n)) \<Longrightarrow> hbind (observe h) f = hbind (observe h) g"
  by (rule ext) (simp add: hbind_def observe_def)

text \<open>The current date is a date.\<close>

lemma date_now_checked [simp]: "date_now (checked e) = date_now e"
  by (simp add: date_now_def)

lemma date_now_cong:
  "(\<And>now. date_shape now \<Longrightarrow> f now = g now) \<Longrightarrow> hbind (date_now e) f = hbind (date_now e) g"
  unfolding date_now_def by (rule observe_cong) simp

lemma get_checked [simp]: "get_uint (checked e) = get_uint e" "get_flag (checked e) = get_flag e"
  unfolding get_uint_def [abs_def] get_flag_def [abs_def] checked_simps by (rule refl, rule refl)

lemma last_insert_id_checked [simp]: "last_insert_id (checked e) = last_insert_id e"
  by (simp add: last_insert_id_def sql_checked typed_simps cong: branch_cong)

lemma resolve_user_checked [simp]: "resolve_user (checked e) u = resolve_user e u"
proof -
  have "insert_user (checked e) u = insert_user e u"
    unfolding insert_user_def date_now_checked by (simp add: sql_checked typed_simps cong: date_now_cong)
  moreover have "user_fetch (checked e) u = user_fetch e u"
    by (simp add: user_fetch_def sql_checked typed_simps sint_of_def cong: branch_cong)
  ultimately show ?thesis by (simp add: resolve_user_def cong: branch_cong)
qed

lemma resolve_group_checked [simp]: "resolve_group (checked e) c = resolve_group e c"
proof -
  have "insert_group (checked e) c = insert_group e c"
    unfolding insert_group_def date_now_checked by (simp add: sql_checked typed_simps cong: date_now_cong)
  moreover have "group_fetch (checked e) c = group_fetch e c"
    by (simp add: group_fetch_def sql_checked typed_simps sint_of_def cong: branch_cong)
  ultimately show ?thesis by (simp add: resolve_group_def cong: branch_cong)
qed

lemma save_forward_info_checked [simp]: "save_forward_info (checked e) k fwd = save_forward_info e k fwd"
  by (simp add: save_forward_info_def Let_def sql_unit_checked typed_simps split: forward_origin.split)

lemma set_has_edited_checked [simp]: "set_has_edited (checked e) k gid = set_has_edited e k gid"
  unfolding set_has_edited_def date_now_checked
  by (simp add: sql_unit_checked typed_simps cong: date_now_cong)

lemma set_is_deleted_checked [simp]: "set_is_deleted (checked e) k gid = set_is_deleted e k gid"
  unfolding set_is_deleted_def date_now_checked
  by (simp add: sql_unit_checked typed_simps cong: date_now_cong)

lemma get_db_msg_id_checked [simp]:
  "get_db_msg_id_if_exists (checked e) i c = get_db_msg_id_if_exists e i c"
  by (simp add: get_db_msg_id_if_exists_def sql_checked typed_simps cong: branch_cong)

text \<open>The digests of a file have the lengths of their columns.\<close>

definition digest_sizes :: "'d henv \<Rightarrow> bool" where
  "digest_sizes e \<longleftrightarrow>
     (\<forall>path m1 m2. e_md5 e path = Some m1 \<longrightarrow> e_sha1 e path = Some m2 \<longrightarrow>
        length m1 = 16 \<and> length m2 = 20)"

lemma digest_sizes_with_files:
  assumes "\<And>path bs. f_content fs path = Some bs \<Longrightarrow> length bs < 2 ^ 61"
  shows "digest_sizes (with_files fill fs e)"
proof -
  have "length d = 16" if "digest_of (md5_file fill path fs) = Some d" for path d
  proof (cases "fopen path fs")
    case (Pair c fs')
    with that obtain bs where "fopen path fs = (Some bs, fs')" "f_content fs path = Some bs"
      by (cases c) (auto simp: md5_file_def digest_of_def fopen_def split: option.splits if_splits)
    with that md5_file_opened [OF this(1) assms [OF this(2)]] show ?thesis by (auto simp: digest_of_def chars_def)
  qed
  moreover have "length d = 20" if "digest_of (sha1_file fill path g) = Some d" and g: "f_content g = f_content fs"
    for path d g
  proof (cases "fopen path g")
    case (Pair c fs')
    with that obtain bs where "fopen path g = (Some bs, fs')" "f_content fs path = Some bs"
      by (cases c) (auto simp: sha1_file_def digest_of_def fopen_def split: option.splits if_splits)
    with that sha1_file_opened [OF this(1) assms [OF this(2)]] show ?thesis by (auto simp: digest_of_def chars_def)
  qed
  moreover have "f_content (snd (md5_file fill path fs)) = f_content fs" for path
    by (simp add: md5_file_def fopen_def split: option.split)
  ultimately show ?thesis by (simp add: digest_sizes_def with_files_def)
qed

lemma insert_file_checked:
  assumes "length m1 = 16" and "length m2 = 20"
  shows "insert_file (checked e) f loc m1 m2 = insert_file e f loc m1 m2"
  unfolding insert_file_def date_now_checked
  using assms by (simp add: sql_checked typed_simps cong: date_now_cong)

lemma resolve_file_checked: "digest_sizes e \<Longrightarrow> resolve_file (checked e) f = resolve_file e f"
  unfolding resolve_file_def checked_simps
  by (rule observe_cong) (auto simp: insert_file_checked digest_sizes_def split: option.split)

lemma entities_param_checked [simp]: "entities_param (checked e) ft = entities_param e ft"
  by (simp add: entities_param_def)

lemma date_shape_msg [simp]: "date_shape (msg_date m ed)"
  by (simp add: msg_date_def)

lemma insert_msg_data_text_checked [simp]:
  "insert_msg_data_text (checked e) k m ft ed = insert_msg_data_text e k m ft ed"
  unfolding insert_msg_data_text_def date_now_checked
  by (simp add: sql_unit_checked typed_simps cong: date_now_cong)

lemma insert_msg_data_file_checked:
  assumes "digest_sizes e" and "fits (Null_or Text) ents"
  shows "insert_msg_data_file (checked e) k m body ents f ed = insert_msg_data_file e k m body ents f ed"
  unfolding insert_msg_data_file_def date_now_checked resolve_file_checked [OF assms(1)]
  using assms(2) by (simp add: sql_unit_checked typed_simps cong: date_now_cong)

lemma insert_msg_data_checked:
  "digest_sizes e \<Longrightarrow> insert_msg_data (checked e) k m ed = insert_msg_data e k m ed"
  by (simp add: insert_msg_data_def insert_msg_data_kinds insert_msg_data_file_checked cong: branch_cong)

lemma insert_message_checked [simp]:
  "NUL \<notin> set ty \<Longrightarrow> insert_message (checked e) m ty uid gid del = insert_message e m ty uid gid del"
  unfolding insert_message_def date_now_checked
  by (simp add: sql_checked typed_simps cong: date_now_cong branch_cong)

lemma msg_type_text: "msg_type c = Some ty \<Longrightarrow> NUL \<notin> set ty"
  by (auto simp: msg_type_def split: message_content.splits)

lemma resolve_message_checked:
  "digest_sizes e \<Longrightarrow> resolve_message (checked e) m uid gid ed del = resolve_message e m uid gid ed del"
  by (simp add: resolve_message_def insert_msg_data_checked msg_type_text cong: branch_cong)

lemma process_message_checked:
  "digest_sizes e \<Longrightarrow> process_message (checked e) m ed del = process_message e m ed del"
  by (simp add: process_message_def resolve_message_checked cong: branch_cong)

lemma process_event_checked: "digest_sizes e \<Longrightarrow> process_event (checked e) ev = process_event e ev"
proof -
  assume "digest_sizes e"
  moreover have "track_event_id (checked e) i = track_event_id e i" for i
    by (simp add: track_event_id_def sql_checked typed_simps)
  ultimately show ?thesis
    by (simp add: process_event_def process_action_def process_message_checked sql_checked sql_unit_checked
        typed_simps cong: branch_cong)
qed

lemma process_log_checked:
  assumes "digest_sizes e"
  shows "process_chat_event_log (checked e) evs = process_chat_event_log e evs"
proof -
  have "process_events (checked e) evs acc = process_events e evs acc" for acc
    by (induction evs arbitrary: acc) (simp_all add: process_event_checked [OF assms])
  then show ?thesis by (simp add: process_chat_event_log_def)
qed

text \<open>The loop over the pages of the log, which need not end: what it gives when it does is the same.\<close>

definition same_pages :: "'d henv \<Rightarrow> 'd henv \<Rightarrow> bool" where
  "same_pages e e' \<longleftrightarrow> e_events e' = e_events e \<and>
     process_chat_event_log e' = process_chat_event_log e"

lemma gather_same_Some:
  assumes "gather e chat m s = Some r" and "same_pages e e'"
  shows "gather e' chat m s = Some r"
  using assms
proof (induction rule: gather.raw_induct [rotated, consumes 1, case_names step])
  case (step gath e chat m s r)
  then have pages: "e_events e' = e_events e" "process_chat_event_log e' = process_chat_event_log e"
    by (simp_all add: same_pages_def)
  from step(2) show ?case
    by (subst gather.simps) (auto simp: pages step(1) [OF _ step(3)] observe_def
        split: if_splits option.splits sum.splits prod.splits)
qed

lemma gather_same: "same_pages e e' \<Longrightarrow> gather e' chat m s = gather e chat m s"
proof -
  assume same: "same_pages e e'"
  then have "same_pages e' e" by (simp add: same_pages_def)
  with same show ?thesis
    by (metis (no_types, lifting) gather_same_Some not_Some_eq)
qed

subsection \<open>Properties\<close>

text \<open>
  C12: Every statement the scraper executes, in every run, binds as many values as it has
  placeholders, and each is of the kind of its column, dates and digests included: a server that
  refuses all others makes no difference.
\<close>

theorem statements_well_typed:
  assumes "digest_sizes e"
  shows "worker_run env server (checked e) = worker_run env server e"
proof -
  have "same_pages e (checked e)" using process_log_checked [OF assms] by (auto simp: same_pages_def)
  then have gather: "gather_chat_event_log (checked e) = gather_chat_event_log e"
    by (intro ext) (simp add: gather_chat_event_log_def gather_same)
  show ?thesis unfolding worker_run_def gather ..
qed

theorem statements_well_typed_witness:
  "\<forall>server. worker_run (\<lambda>_. Some ''x'') server
       (checked (with_files 0 \<lparr>f_content = [''a'' \<mapsto> [1]], f_open = 3, f_limit = 1024\<rparr> (my_env Extended))) =
     worker_run (\<lambda>_. Some ''x'') server
       (with_files 0 \<lparr>f_content = [''a'' \<mapsto> [1]], f_open = 3, f_limit = 1024\<rparr> (my_env Extended))"
  by (intro allI statements_well_typed digest_sizes_with_files) (auto split: if_splits)

end
