(* ===== verification/HistoryTd.thy ===== *)
theory HistoryTd
  imports TdSync HistoryTypes
begin

section \<open>What the history scraper asks Telegram\<close>

text \<open>
  The objects \<open>History\<close> takes from its environment come from blocking queries of class \<open>Worker\<close>
  through the client (the class \<open>Td\<close> of the older program is the one \<open>Td\<close> and \<open>TdSync\<close> model). This
  theory has the queries, with their timeouts of 30 seconds, and the environment \<open>asking\<close> that makes
  them: each observation is one query to the client in the state and with the course of events given
  for it.
\<close>

subsection \<open>The queries\<close>

type_synonym acts = "(td \<Rightarrow> ub + td) list"

definition get_user :: "nat \<Rightarrow> int \<Rightarrow> acts \<Rightarrow> td \<Rightarrow> ub + outcome" where
  "get_user k uid acts s = send_query_sync k (GetUser uid) KUser 30 acts s"

definition get_chat :: "nat \<Rightarrow> int \<Rightarrow> acts \<Rightarrow> td \<Rightarrow> ub + outcome" where
  "get_chat k cid acts s = send_query_sync k (GetChat cid) KChat 30 acts s"

text \<open>\<open>getChats\<close> has no timeout.\<close>

definition get_chats :: "nat \<Rightarrow> acts \<Rightarrow> td \<Rightarrow> ub + outcome" where
  "get_chats k acts s = send_query_sync k (GetChats (2 ^ 63 - 1) 0 100) KChats (- 1) acts s"

definition download_file :: "nat \<Rightarrow> int \<Rightarrow> acts \<Rightarrow> td \<Rightarrow> ub + outcome" where
  "download_file k fid acts s =
     (let prio = 32; limit = 0; offset = 0; sync = True in
      send_query_sync k (DownloadFile fid prio limit offset sync) KFile 30 acts s)"

definition get_event_log :: "nat \<Rightarrow> int \<Rightarrow> int \<Rightarrow> acts \<Rightarrow> td \<Rightarrow> ub + outcome" where
  "get_event_log k cid min_ev acts s =
     send_query_sync k (GetChatEventLog cid [] min_ev 100) KChatEvents 30 acts s"

subsection \<open>The environment\<close>

definition returned :: "ub + outcome \<Rightarrow> td_object option" where
  "returned r = (case r of Inr (Returned obj _) \<Rightarrow> obj | _ \<Rightarrow> None)"

fun as_user :: "td_object option \<Rightarrow> user option" where
  "as_user (Some (ObjUser u)) = Some u"
| "as_user _ = None"

fun as_chat :: "td_object option \<Rightarrow> chat option" where
  "as_chat (Some (ObjChat c)) = Some c"
| "as_chat _ = None"

fun as_file :: "td_object option \<Rightarrow> td_file option" where
  "as_file (Some (ObjFile f)) = Some f"
| "as_file _ = None"

fun as_events :: "td_object option \<Rightarrow> chat_event list option" where
  "as_events (Some (ObjChatEvents evs)) = Some evs"
| "as_events _ = None"

text \<open>The client as observation \<open>n\<close> finds it, and what happens to it during each second from then on.\<close>

record telegram =
  tg_td :: "nat \<Rightarrow> td"
  tg_acts :: "nat \<Rightarrow> acts"

definition asking :: "telegram \<Rightarrow> 'd henv \<Rightarrow> 'd henv" where
  "asking tg e = e\<lparr>
     e_user := (\<lambda>n i. as_user (returned (get_user n i (tg_acts tg n) (tg_td tg n)))),
     e_chat := (\<lambda>n i. as_chat (returned (get_chat n i (tg_acts tg n) (tg_td tg n)))),
     e_file := (\<lambda>n i. as_file (returned (download_file n i (tg_acts tg n) (tg_td tg n)))),
     e_events := (\<lambda>n c m. as_events (returned (get_event_log n c m (tg_acts tg n) (tg_td tg n))))\<rparr>"

text \<open>Observation \<open>n\<close> is answered with \<open>obj\<close> in time, or not at all within 30 seconds.\<close>

definition answered_in_time :: "telegram \<Rightarrow> nat \<Rightarrow> td_object \<Rightarrow> bool" where
  "answered_in_time tg n obj \<longleftrightarrow> may_call n (tg_td tg n) \<and>
     (\<exists>rss pre post acts. tg_acts tg n =
          map feed rss @ feed (pre @ (current_query_id (tg_td tg n), Some obj) # post) # acts \<and>
        (\<forall>rs \<in> set rss. unrelated (current_query_id (tg_td tg n)) rs) \<and>
        unrelated (current_query_id (tg_td tg n)) pre \<and> unrelated (current_query_id (tg_td tg n)) post \<and>
        length rss < 30)"

definition unanswered :: "telegram \<Rightarrow> nat \<Rightarrow> bool" where
  "unanswered tg n \<longleftrightarrow> may_call n (tg_td tg n) \<and>
     (\<exists>rss acts. tg_acts tg n = map feed rss @ acts \<and> length rss = 30 \<and>
        (\<forall>rs \<in> set rss. unrelated (current_query_id (tg_td tg n)) rs))"

lemma sync_30_answered:
  assumes "answered_in_time tg n obj"
  shows "returned (send_query_sync n f want 30 (tg_acts tg n) (tg_td tg n)) =
    (if kind_of obj \<noteq> KError \<and> kind_of obj = want then Some obj else None)"
proof -
  from assms obtain rss pre post acts where "may_call n (tg_td tg n)"
    "tg_acts tg n = map feed rss @ feed (pre @ (current_query_id (tg_td tg n), Some obj) # post) # acts"
    "\<forall>rs \<in> set rss. unrelated (current_query_id (tg_td tg n)) rs"
    "unrelated (current_query_id (tg_td tg n)) pre" "unrelated (current_query_id (tg_td tg n)) post"
    "length rss < 30"
    unfolding answered_in_time_def by blast
  with sync_answered [of n "tg_td tg n" rss pre post 30 f want obj acts] show ?thesis
    by (auto simp: returned_def)
qed

lemma sync_30_unanswered:
  assumes "unanswered tg n"
  shows "returned (send_query_sync n f want 30 (tg_acts tg n) (tg_td tg n)) = None"
proof -
  from assms obtain rss acts where "may_call n (tg_td tg n)" "tg_acts tg n = map feed rss @ acts"
    "length rss = 30" "\<forall>rs \<in> set rss. unrelated (current_query_id (tg_td tg n)) rs"
    unfolding unanswered_def by blast
  with sync_timed_out [of n "tg_td tg n" rss 30 f want acts] show ?thesis
    by (auto simp: returned_def)
qed

text \<open>What the environment gives for an answer: the object of the class asked for, else null.\<close>

lemma asking_answered:
  assumes "answered_in_time tg n obj"
  shows "e_user (asking tg e) n i = as_user (Some obj)" "e_chat (asking tg e) n c = as_chat (Some obj)"
    "e_file (asking tg e) n f = as_file (Some obj)" "e_events (asking tg e) n c m = as_events (Some obj)"
  by (cases obj; simp add: asking_def get_user_def get_chat_def download_file_def get_event_log_def Let_def
      sync_30_answered [OF assms])+

lemma asking_unanswered:
  assumes "unanswered tg n"
  shows "e_user (asking tg e) n i = None" "e_chat (asking tg e) n c = None"
    "e_file (asking tg e) n f = None" "e_events (asking tg e) n c m = None"
  by (simp_all add: asking_def get_user_def get_chat_def download_file_def get_event_log_def Let_def
      sync_30_unanswered [OF assms])

subsection \<open>Messages and pages\<close>

text \<open>With both answers a message is stored for the user and the chat Telegram gave.\<close>

lemma process_message_answered:
  assumes "answered_in_time tg (h_tick s) (ObjUser u)" and "answered_in_time tg (Suc (h_tick s)) (ObjChat c)"
    and "m_sender m = SenderUser i"
  shows "process_message (asking tg (e :: 'd henv)) m ed del s =
    hbind (resolve_user (asking tg e) u) (\<lambda>(uid, _).
    hbind (resolve_group (asking tg e) c) (\<lambda>(gid, _).
      resolve_message (asking tg e) m uid gid ed del)) (s\<lparr>h_tick := h_tick s + 2\<rparr>)"
proof -
  have "hbind (ret x) f = f x" for x :: chat and f :: "chat \<Rightarrow> ('d, unit) act"
    by (rule ext) (simp add: hbind_def ret_def)
  then show ?thesis
    using assms(3) asking_answered(1) [OF assms(1), of e] asking_answered(2) [OF assms(2), of e]
    by (simp add: process_message_def hbind_def History.observe_def deref_def ret_def
        cong: sum.case_cong prod.case_cong split: prod.split sum.split)
qed

text \<open>A page that is not answered ends the scraper as the end of the log does.\<close>

lemma unanswered_page_ends:
  assumes "unanswered tg (h_tick s)" and "m \<noteq> - 1"
  shows "gather (asking tg e) chat m s = Some (Inr (), s\<lparr>h_tick := Suc (h_tick s)\<rparr>)"
  using assms(2) asking_unanswered(4) [OF assms(1), of e]
  by (subst gather.simps) (simp add: History.observe_def)

subsection \<open>Properties\<close>



end
