(* ===== verification/Print.thy ===== *)
theory Print
  imports Digest
begin

section \<open>Printing (print.c, print.h)\<close>

text \<open>
  The lines of the log are printed by \<open>__pr_notice\<close>, \<open>__pr_error\<close>, \<open>__pr_emerg\<close> and
  \<open>__pr_debug\<close>, which differ in one word and are one definition here, with the level as an
  argument. A line takes three writes to the standard output under \<open>print_lock\<close>; the time in front
  of it comes from a static buffer of the C library, under \<open>get_time_lock\<close>. \<open>__panic\<close> prints
  without waiting for the locks. \<open>Td\<close> (its prompts and its messages about synchronous calls) and the
  signal handler write to the same output without a lock. The threads are a step relation over the
  two locks and the writes. What the arguments are formatted to is a parameter, and so is the text
  \<open>asctime\<close> gives.
\<close>

subsection \<open>The time in front of a line\<close>

definition strnlen :: "char list \<Rightarrow> nat \<Rightarrow> nat" where
  "strnlen s n = length (cstr (take n s))"

text \<open>\<open>get_time\<close>: \<open>time_chr\<close> is the memory \<open>asctime\<close> points to; its last character is dropped.\<close>

definition get_time :: "char list \<Rightarrow> char list \<Rightarrow> ub + char list" where
  "get_time buf time_chr =
     (let len = word_of_nat (strnlen time_chr 32) - 1 :: 64 word in
      ebind (copy_bytes buf 0 time_chr (unat len)) (\<lambda>buf. poke buf (unat len) NUL))"

text \<open>
  Any terminated text that is not empty fits the 32 bytes of the caller, however long; an empty one
  makes the length wrap around.
\<close>

lemma get_time_ok:
  assumes "t \<noteq> []" and "NUL \<notin> set t" and "length buf = 32"
  shows "\<exists>b. get_time buf (t @ NUL # mem) = Inr b \<and> cstr b = take (min 32 (length t) - 1) t"
proof -
  obtain n where n: "min 32 (length t) = Suc n" "n < 32" "n \<le> length t" "n = min 32 (length t) - 1"
    using assms(1) by (cases "min 32 (length t)") (auto simp: min_def split: if_splits)
  have "strnlen (t @ NUL # mem) 32 = Suc n"
  proof (cases "length t < 32")
    case True
    then have "take 32 (t @ NUL # mem) = t @ NUL # take (31 - length t) mem"
      by (simp add: take_Cons' not_le)
    with True assms(2) n(1) show ?thesis by (simp add: strnlen_def cstr_append)
  next
    case False
    then have "take 32 (t @ NUL # mem) = take 32 t" by simp
    moreover have "cstr (take 32 t) = take 32 t" using assms(2) by (auto intro!: cstr_id dest: in_set_takeD)
    moreover have "length (take 32 t) = Suc n" using n(1) by (simp only: length_take min.commute)
    ultimately show ?thesis unfolding strnlen_def by (simp only:)
  qed
  then have len: "word_of_nat (strnlen (t @ NUL # mem) 32) - 1 = (word_of_nat n :: 64 word)" by simp
  have "unat (word_of_nat n :: 64 word) = n" using n(2) by (simp add: unat_of_nat)
  then have "get_time buf (t @ NUL # mem) =
      ebind (copy_bytes buf 0 (t @ NUL # mem) n) (\<lambda>buf. poke buf n NUL)"
    unfolding get_time_def len Let_def by simp
  also have "\<dots> = ebind (blit buf 0 (take n t)) (\<lambda>b. blit b n [NUL])"
    using n(3) by (simp add: copy_bytes_def poke_eq_blit)
  also have "\<dots> = blit buf 0 (take n t @ [NUL])" using n(3) by (intro blit_from_start) simp
  also have "\<dots> = Inr (take n t @ NUL # drop (Suc n) buf)" using n(2,3) assms(3) by (simp add: blit_def)
  finally have b: "get_time buf (t @ NUL # mem) = Inr (take n t @ NUL # drop (Suc n) buf)" .
  have "NUL \<notin> set (take n t)" using assms(2) by (auto dest: in_set_takeD)
  then have "cstr (take n t @ NUL # drop (Suc n) buf) = take n t" by (rule cstr_append)
  with b show ?thesis unfolding n(4) [symmetric] by blast
qed

lemma get_time_empty: "length buf = 32 \<Longrightarrow> get_time buf (NUL # mem) = Inl OutOfBounds"
  by (simp add: get_time_def Let_def strnlen_def cstr_def copy_bytes_def blit_def unsigned_minus_1_eq_mask mask_eq_exp_minus_1)

subsection \<open>Threads that print\<close>

datatype level = Notice | Error | Emerg | Debug

fun level_word :: "level \<Rightarrow> string" where
  "level_word Notice = []"
| "level_word Error = ''Error: ''"
| "level_word Emerg = ''Emergency: ''"
| "level_word Debug = ''Debug: ''"

text \<open>
  Where a thread is: outside, before each lock, inside \<open>get_time\<close> with and without the time in its
  buffer, and after each write. In \<open>__panic\<close> it has a list of writes to go.
\<close>

datatype place =
    Outside
  | WantPrint level string
  | WantTime level string
  | InTime level string
  | HasTime level string string
  | TimeUnlocked level string string
  | HeadWritten level string string
  | BodyWritten level string string
  | LineWritten
  | Panicking "string list"

type_synonym tid = nat

record printer =
  print_lock :: "tid option"
  get_time_lock :: "tid option"
  at :: "tid \<Rightarrow> place"
  notice_level :: "8 word"
  written :: "(tid option \<times> string) list"
  aborted :: bool

text \<open>
  A write of the functions of \<open>print.c\<close> is kept with its thread, a direct one without; \<open>logged\<close> are
  the former. The direct ones are the signal handler's, those of \<open>send_query_sync\<close>, and what \<open>Td\<close>
  gives to \<open>std::cout\<close>.
\<close>

fun logged :: "(tid option \<times> string) list \<Rightarrow> (tid \<times> string) list" where
  "logged [] = []"
| "logged ((Some t, w) # ws) = (t, w) # logged ws"
| "logged ((None, w) # ws) = logged ws"

lemma logged_append [simp]: "logged (v @ w) = logged v @ logged w"
  by (induction v rule: logged.induct) simp_all

definition by_print :: "tid \<times> string \<Rightarrow> tid option \<times> string" where
  "by_print = (\<lambda>(t, w). (Some t, w))"

lemma logged_by_print [simp]: "logged (map by_print ws) = ws"
  by (induction ws) (auto simp: by_print_def)

datatype direct =
    Interrupt int
  | SyncError string
  | SyncInvalid
  | SyncStall nat
  | SyncTimeout
  | Console string

fun direct_text :: "direct \<Rightarrow> string" where
  "direct_text (Interrupt sig) = NL # ''Got an interrupt signal '' @ dec_int sig @ [NL]"
| "direct_text (SyncError msg) = ''Error on doQuerySync: '' @ msg @ [NL]"
| "direct_text SyncInvalid = ''Invalid object returned on send_query_sync'' @ [NL]"
| "direct_text (SyncStall n) = ''Warning: Td::send_query_sync stall for '' @ dec_int (int n) @ ''us'' @ [NL]"
| "direct_text SyncTimeout = ''Timed out!'' @ [NL]"
| "direct_text (Console w) = w"

definition head_text :: "level \<Rightarrow> string \<Rightarrow> string" where
  "head_text lv time = ''['' @ time @ ''] '' @ level_word lv"

definition panic_writes :: "string \<Rightarrow> int \<Rightarrow> string \<Rightarrow> string list" where
  "panic_writes file lineno msg =
     [''======================================================='' @ [NL],
      ''Emergency: Panic - Not syncing: '', msg, [NL],
      ''Panic at '' @ file @ '':'' @ dec_int lineno @ [NL],
      ''======================================================='' @ [NL]]"

definition move :: "tid \<Rightarrow> place \<Rightarrow> printer \<Rightarrow> printer" where
  "move t p s = s\<lparr>at := (at s)(t := p)\<rparr>"

definition put_text :: "tid \<Rightarrow> string \<Rightarrow> printer \<Rightarrow> printer" where
  "put_text t w s = s\<lparr>written := written s @ [(Some t, w)]\<rparr>"

definition put_direct :: "direct \<Rightarrow> printer \<Rightarrow> printer" where
  "put_direct m s = s\<lparr>written := written s @ [(None, direct_text m)]\<rparr>"

definition set_notice_level :: "8 word \<Rightarrow> printer \<Rightarrow> printer" where
  "set_notice_level level s = s\<lparr>notice_level := level\<rparr>"

text \<open>The macro \<open>prl_notice\<close>: its level, cut to 8 bits, must exceed neither 5 nor the level set.\<close>

definition prl_notice :: "tid \<Rightarrow> int \<Rightarrow> string \<Rightarrow> printer \<Rightarrow> printer" where
  "prl_notice t level msg s =
     (let lc = word_of_int level :: 8 word in
      if lc > 5 then s
      else if lc > notice_level s then s
      else move t (WantPrint Notice msg) s)"

lemma prl_notice_prints:
  "word_of_int level \<le> min 5 (notice_level s) \<Longrightarrow> prl_notice t level msg s = move t (WantPrint Notice msg) s"
  "\<not> word_of_int level \<le> min 5 (notice_level s) \<Longrightarrow> prl_notice t level msg s = s"
  by (auto simp: prl_notice_def Let_def not_less)

definition trylock :: "tid \<Rightarrow> tid option \<Rightarrow> tid option" where
  "trylock t l = (case l of None \<Rightarrow> Some t | Some u \<Rightarrow> Some u)"

text \<open>
  One step of thread \<open>t\<close>. \<open>buf\<close> is its uninitialised buffer, \<open>time_chr\<close> what \<open>asctime\<close> points to.
  The signal handler interrupts the thread wherever it is (the flag it sets, so as to print only
  once, belongs to \<open>MainLoop\<close>). After \<open>abort\<close> there is no step.
\<close>

inductive print_step :: "tid \<Rightarrow> printer \<Rightarrow> printer \<Rightarrow> bool" for t where
  call: "\<not> aborted s \<Longrightarrow> at s t = Outside \<Longrightarrow> print_step t s (move t (WantPrint lv msg) s)"
| call_level: "\<not> aborted s \<Longrightarrow> at s t = Outside \<Longrightarrow> print_step t s (prl_notice t level msg s)"
| set_level: "\<not> aborted s \<Longrightarrow> at s t = Outside \<Longrightarrow> print_step t s (set_notice_level lc s)"
| lock: "\<not> aborted s \<Longrightarrow> at s t = WantPrint lv msg \<Longrightarrow> print_lock s = None \<Longrightarrow>
    print_step t s (move t (WantTime lv msg) (s\<lparr>print_lock := Some t\<rparr>))"
| lock_time: "\<not> aborted s \<Longrightarrow> at s t = WantTime lv msg \<Longrightarrow> get_time_lock s = None \<Longrightarrow>
    print_step t s (move t (InTime lv msg) (s\<lparr>get_time_lock := Some t\<rparr>))"
| time: "\<not> aborted s \<Longrightarrow> at s t = InTime lv msg \<Longrightarrow> length buf = 32 \<Longrightarrow> get_time buf time_chr = Inr b \<Longrightarrow>
    print_step t s (move t (HasTime lv msg (cstr b)) s)"
| unlock_time: "\<not> aborted s \<Longrightarrow> at s t = HasTime lv msg time \<Longrightarrow>
    print_step t s (move t (TimeUnlocked lv msg time) (s\<lparr>get_time_lock := None\<rparr>))"
| head: "\<not> aborted s \<Longrightarrow> at s t = TimeUnlocked lv msg time \<Longrightarrow>
    print_step t s (move t (HeadWritten lv msg time) (put_text t (head_text lv time) s))"
| body: "\<not> aborted s \<Longrightarrow> at s t = HeadWritten lv msg time \<Longrightarrow>
    print_step t s (move t (BodyWritten lv msg time) (put_text t msg s))"
| newline: "\<not> aborted s \<Longrightarrow> at s t = BodyWritten lv msg time \<Longrightarrow>
    print_step t s (move t LineWritten (put_text t [NL] s))"
| unlock: "\<not> aborted s \<Longrightarrow> at s t = LineWritten \<Longrightarrow>
    print_step t s (move t Outside (s\<lparr>print_lock := None\<rparr>))"
| direct: "\<not> aborted s \<Longrightarrow> at s t = Outside \<Longrightarrow> print_step t s (put_direct m s)"
| signalled: "\<not> aborted s \<Longrightarrow> print_step t s (put_direct (Interrupt sig) s)"
| panic: "\<not> aborted s \<Longrightarrow> at s t = Outside \<Longrightarrow>
    print_step t s (move t (Panicking (panic_writes file lineno msg))
      (s\<lparr>print_lock := trylock t (print_lock s), get_time_lock := trylock t (get_time_lock s)\<rparr>))"
| panic_write: "\<not> aborted s \<Longrightarrow> at s t = Panicking (w # ws) \<Longrightarrow>
    print_step t s (move t (Panicking ws) (put_text t w s))"
| panic_abort: "\<not> aborted s \<Longrightarrow> at s t = Panicking [] \<Longrightarrow> print_step t s (s\<lparr>aborted := True\<rparr>)"

definition print_start :: printer where
  "print_start = \<lparr>print_lock = None, get_time_lock = None, at = (\<lambda>_. Outside),
     notice_level = 5, written = [], aborted = False\<rparr>"

inductive printed :: "printer \<Rightarrow> bool" where
  start: "printed print_start"
| step: "printed s \<Longrightarrow> print_step t s s' \<Longrightarrow> printed s'"

definition panicked :: "printer \<Rightarrow> bool" where
  "panicked s \<longleftrightarrow> (\<exists>t ws. at s t = Panicking ws)"

text \<open>The writes of one line, and what of it a thread has written where it is.\<close>

definition line_writes :: "tid \<Rightarrow> level \<Rightarrow> string \<Rightarrow> string \<Rightarrow> (tid \<times> string) list" where
  "line_writes t lv time msg = [(t, head_text lv time), (t, msg), (t, [NL])]"

fun so_far :: "tid \<Rightarrow> place \<Rightarrow> (tid \<times> string) list" where
  "so_far t (HeadWritten lv msg time) = take 1 (line_writes t lv time msg)"
| "so_far t (BodyWritten lv msg time) = take 2 (line_writes t lv time msg)"
| "so_far t p = []"

fun holds_print :: "place \<Rightarrow> bool" where
  "holds_print Outside = False"
| "holds_print (WantPrint lv msg) = False"
| "holds_print (Panicking ws) = False"
| "holds_print p = True"

fun holds_time :: "place \<Rightarrow> bool" where
  "holds_time (InTime lv msg) = True"
| "holds_time (HasTime lv msg time) = True"
| "holds_time p = False"

text \<open>Complete lines.\<close>

definition lines :: "(tid \<times> level \<times> string \<times> string) list \<Rightarrow> (tid \<times> string) list" where
  "lines ls = concat (map (\<lambda>(t, lv, time, msg). line_writes t lv time msg) ls)"

definition print_inv :: "printer \<Rightarrow> bool" where
  "print_inv s \<longleftrightarrow>
     (\<forall>t. print_lock s = Some t \<longleftrightarrow> holds_print (at s t)) \<and>
     (\<forall>t. get_time_lock s = Some t \<longleftrightarrow> holds_time (at s t)) \<and>
     (\<exists>ls. logged (written s) = lines ls @ (case print_lock s of None \<Rightarrow> [] | Some t \<Rightarrow> so_far t (at s t)))"

lemma start_inv: "print_inv print_start"
  by (auto simp: print_inv_def print_start_def lines_def intro: exI [of _ "[]"])

lemma so_far_line:
  "so_far t (BodyWritten lv msg time) @ [(t, [NL])] = lines [(t, lv, time, msg)]"
  by (simp add: lines_def line_writes_def)

lemmas place_simps = move_def put_text_def put_direct_def line_writes_def set_notice_level_def prl_notice_def Let_def

lemma put_direct_simps:
  "at (put_direct m s) = at s" "print_lock (put_direct m s) = print_lock s"
  "get_time_lock (put_direct m s) = get_time_lock s" "logged (written (put_direct m s)) = logged (written s)"
  by (simp_all add: put_direct_def)

lemma direct_inv: "print_inv (put_direct m s) = print_inv s"
  by (simp only: print_inv_def put_direct_simps)

text \<open>Steps that do not panic keep the invariant.\<close>

lemma print_step_inv:
  assumes "print_step t s s'" and "print_inv s" and "\<not> panicked s'"
  shows "print_inv s'"
proof -
  obtain ls where P: "\<And>u. print_lock s = Some u \<longleftrightarrow> holds_print (at s u)"
    and T: "\<And>u. get_time_lock s = Some u \<longleftrightarrow> holds_time (at s u)"
    and W: "logged (written s) = lines ls @ (case print_lock s of None \<Rightarrow> [] | Some t \<Rightarrow> so_far t (at s t))"
    using assms(2) unfolding print_inv_def by blast
  note PT = P [of t] T [of t]
  have other: "\<And>u. holds_print (at s u) \<longleftrightarrow> Some u = print_lock s" "\<And>u. holds_time (at s u) \<longleftrightarrow> Some u = get_time_lock s"
    using P T by metis+
  have calm: "at s' t \<noteq> Panicking ws" for ws using assms(3) by (auto simp: panicked_def)
  from assms(1) show ?thesis
  proof cases
    case (panic name lineno msg)
    then show ?thesis using calm [of "panic_writes name lineno msg"] by (simp add: place_simps)
  next
    case (panic_write w ws)
    then show ?thesis using calm [of ws] by (simp add: place_simps)
  next
    case panic_abort
    then show ?thesis using calm [of "[]"] by simp
  next
    case signalled
    then show ?thesis using assms(2) by (simp only: direct_inv)
  next
    case (newline lv msg time)
    then have "print_lock s = Some t" using P [of t] by simp
    then have "logged (written s') = lines (ls @ [(t, lv, time, msg)])"
      using W newline so_far_line [of t lv msg time] by (simp add: place_simps lines_def)
    then show ?thesis using PT newline
      by (auto simp: print_inv_def place_simps other intro!: exI [of _ "ls @ [(t, lv, time, msg)]"])
  qed (use PT W in \<open>auto simp: print_inv_def place_simps other split: option.splits intro!: exI [of _ ls]\<close>)
qed

text \<open>A panic does not end: it is seen in every later state.\<close>

lemma panicked_step: "print_step t s s' \<Longrightarrow> panicked s \<Longrightarrow> panicked s'"
proof -
  assume step: "print_step t s s'" and "panicked s"
  then obtain u ws where u: "at s u = Panicking ws" by (auto simp: panicked_def)
  from step u have "\<exists>ws. at s' u = Panicking ws" by (cases rule: print_step.cases) (auto simp: place_simps)
  then show "panicked s'" by (auto simp: panicked_def)
qed

lemma printed_inv: "printed s \<Longrightarrow> \<not> panicked s \<Longrightarrow> print_inv s"
proof (induction rule: printed.induct)
  case start
  then show ?case by (simp add: start_inv)
next
  case (step s t s')
  then show ?case using panicked_step print_step_inv by blast
qed

lemma so_far_cases: "so_far t p = [] \<or> (\<exists>lv time msg n. n < 3 \<and> so_far t p = take n (line_writes t lv time msg))"
proof -
  have n: "(1 :: nat) < 3" "(2 :: nat) < 3" by simp_all
  have "so_far t (HeadWritten lv msg time) = take 1 (line_writes t lv time msg)"
    "so_far t (BodyWritten lv msg time) = take 2 (line_writes t lv time msg)" for lv msg time by simp_all
  with n show ?thesis by (cases p) (blast | simp)+
qed

text \<open>With both locks free a thread prints a line by itself.\<close>

lemma line_alone:
  assumes "printed s" and "\<not> aborted s" and "at s t = Outside" and "print_lock s = None"
    and "get_time_lock s = None" and "time \<noteq> []" and "NUL \<notin> set time" and "length time < 32"
  shows "printed (s\<lparr>written := written s @ map by_print (line_writes t lv time msg)\<rparr>)"
proof -
  let ?buf = "replicate 32 NUL"
  obtain b where b: "get_time ?buf ((time @ [NL]) @ NUL # []) = Inr b" "cstr b = time"
    using get_time_ok [of "time @ [NL]" ?buf "[]"] assms(6-8) by (auto simp: min_def)
  let ?s = "\<lambda>p l g w. s\<lparr>print_lock := l, get_time_lock := g, at := (at s)(t := p), written := written s @ map by_print w\<rparr>"
  have 1: "printed (?s (WantPrint lv msg) None None [])"
    using printed.step [OF assms(1) print_step.call [OF assms(2,3), of lv msg]] assms(4,5) by (cases s) (simp add: move_def)
  have 2: "printed (?s (WantTime lv msg) (Some t) None [])"
    using printed.step [OF 1 print_step.lock [of _ t lv msg]] assms(2) by (cases s) (simp add: move_def)
  have 3: "printed (?s (InTime lv msg) (Some t) (Some t) [])"
    using printed.step [OF 2 print_step.lock_time [of _ t lv msg]] assms(2) by (cases s) (simp add: move_def)
  have 4: "printed (?s (HasTime lv msg time) (Some t) (Some t) [])"
    using printed.step [OF 3 print_step.time [of _ t lv msg, OF _ _ _ b(1)]] assms(2) b(2) by (cases s) (simp add: move_def)
  have 5: "printed (?s (TimeUnlocked lv msg time) (Some t) None [])"
    using printed.step [OF 4 print_step.unlock_time [of _ t lv msg time]] assms(2) by (cases s) (simp add: move_def)
  have 6: "printed (?s (HeadWritten lv msg time) (Some t) None [(t, head_text lv time)])"
    using printed.step [OF 5 print_step.head [of _ t lv msg time]] assms(2) by (cases s) (simp add: move_def put_text_def by_print_def)
  have 7: "printed (?s (BodyWritten lv msg time) (Some t) None [(t, head_text lv time), (t, msg)])"
    using printed.step [OF 6 print_step.body [of _ t lv msg time]] assms(2) by (cases s) (simp add: move_def put_text_def by_print_def)
  have 8: "printed (?s LineWritten (Some t) None (line_writes t lv time msg))"
    using printed.step [OF 7 print_step.newline [of _ t lv msg time]] assms(2)
    by (cases s) (simp add: move_def put_text_def line_writes_def by_print_def)
  have 9: "printed (?s Outside None None (line_writes t lv time msg))"
    using printed.step [OF 8 print_step.unlock [of _ t]] assms(2) by (cases s) (simp add: move_def)
  have "(at s)(t := Outside) = at s" using assms(3) by auto
  with 9 assms(4,5) show ?thesis by (cases s) simp
qed

text \<open>A direct write between the first and the second write of a line.\<close>

lemma line_torn:
  "\<exists>s time. printed s \<and> \<not> panicked s \<and>
     written s = [(Some 1, head_text lv time), (None, direct_text m), (Some 1, msg), (Some 1, [NL])]"
proof -
  obtain b where b: "get_time (replicate 32 NUL) (''noon'' @ NUL # []) = Inr b"
    using get_time_ok [of "''noon''" "replicate 32 NUL" "[]"] by auto
  let ?s = "\<lambda>p l g w. print_start\<lparr>print_lock := l, get_time_lock := g, at := (at print_start)(1 := p), written := w\<rparr>"
  note defs = move_def put_text_def put_direct_def print_start_def
  have 1: "printed (?s (WantPrint lv msg) None None [])"
    using printed.step [OF printed.start print_step.call [of _ 1 lv msg]] by (simp add: defs)
  have 2: "printed (?s (WantTime lv msg) (Some 1) None [])"
    using printed.step [OF 1 print_step.lock [of _ 1 lv msg]] by (simp add: defs)
  have 3: "printed (?s (InTime lv msg) (Some 1) (Some 1) [])"
    using printed.step [OF 2 print_step.lock_time [of _ 1 lv msg]] by (simp add: defs)
  have 4: "printed (?s (HasTime lv msg (cstr b)) (Some 1) (Some 1) [])"
    using printed.step [OF 3 print_step.time [of _ 1 lv msg, OF _ _ _ b]] by (simp add: defs)
  have 5: "printed (?s (TimeUnlocked lv msg (cstr b)) (Some 1) None [])"
    using printed.step [OF 4 print_step.unlock_time [of _ 1 lv msg "cstr b"]] by (simp add: defs)
  have 6: "printed (?s (HeadWritten lv msg (cstr b)) (Some 1) None [(Some 1, head_text lv (cstr b))])"
    using printed.step [OF 5 print_step.head [of _ 1 lv msg "cstr b"]] by (simp add: defs)
  have 7: "printed (?s (HeadWritten lv msg (cstr b)) (Some 1) None
      [(Some 1, head_text lv (cstr b)), (None, direct_text m)])"
    using printed.step [OF 6 print_step.direct [of _ 2 m]] by (simp add: defs)
  have 8: "printed (?s (BodyWritten lv msg (cstr b)) (Some 1) None
      [(Some 1, head_text lv (cstr b)), (None, direct_text m), (Some 1, msg)])"
    using printed.step [OF 7 print_step.body [of _ 1 lv msg "cstr b"]] by (simp add: defs)
  have 9: "printed (?s LineWritten (Some 1) None
      [(Some 1, head_text lv (cstr b)), (None, direct_text m), (Some 1, msg), (Some 1, [NL])])"
    using printed.step [OF 8 print_step.newline [of _ 1 lv msg "cstr b"]] by (simp add: defs)
  then show ?thesis by (intro exI conjI, assumption) (simp_all add: panicked_def print_start_def)
qed

text \<open>No thread that is printing waits forever for a lock: one that is can always go on.\<close>

lemma printing_goes_on:
  assumes "printed s" and "\<not> aborted s" and "at s t \<noteq> Outside"
  shows "\<exists>u s'. at s u \<noteq> Outside \<and> print_step u s s'"
proof (cases "panicked s")
  case True
  then obtain u ws where u: "at s u = Panicking ws" by (auto simp: panicked_def)
  with assms(2) have "\<exists>s'. print_step u s s'" by (cases ws) (blast intro: print_step.intros)+
  with u show ?thesis by (intro exI [of _ u]) auto
next
  case False
  have inv: "print_inv s" using assms(1) False by (rule printed_inv)
  show ?thesis
  proof (cases "print_lock s")
    case None
    then have "\<not> holds_print (at s t)" using inv by (auto simp: print_inv_def)
    then obtain lv msg where "at s t = WantPrint lv msg"
      using assms(3) False by (cases "at s t") (auto simp: panicked_def)
    with None assms show ?thesis by (blast intro: print_step.lock)
  next
    case (Some u)
    then have u: "holds_print (at s u)" using inv unfolding print_inv_def by blast
    have free: "get_time_lock s = None" if "at s u = WantTime lv msg" for lv msg
    proof (rule ccontr)
      assume "get_time_lock s \<noteq> None"
      then obtain v where "get_time_lock s = Some v" by auto
      then have v: "holds_time (at s v)" using inv unfolding print_inv_def by blast
      then have "holds_print (at s v)" by (cases "at s v") simp_all
      with Some have "v = u" using inv unfolding print_inv_def by (metis option.inject)
      with v that show False by simp
    qed
    obtain b where "get_time (replicate 32 NUL) ((''x'' @ [NL]) @ NUL # []) = Inr b"
      using get_time_ok [of "''x'' @ [NL]" "replicate 32 NUL" "[]"] by auto
    then have time: "print_step u s (move u (HasTime lv msg (cstr b)) s)" if "at s u = InTime lv msg" for lv msg
      using assms(2) that by (intro print_step.time) simp_all
    have "\<exists>s'. print_step u s s'"
      using u assms(2) free time by (cases "at s u") (auto intro: print_step.intros)
    with u show ?thesis by (intro exI [of _ u]) auto
  qed
qed

subsection \<open>Properties\<close>



end
