(* ===== verification/XWire.thy ===== *)
theory XWire
  imports Digest
begin

section \<open>The integers of a result row (the MySQL connector under src/ext/mysql_cpp)\<close>

text \<open>
  What stands between the server and \<open>mysqlx_get_uint\<close>: integers travel as the variable-length
  integers of Protocol Buffers, signed ones after the ZigZag transform. This theory has the reader
  and the writer of \<open>google/protobuf/io/coded_stream\<close>; the rows they fill are in \<open>XRow\<close>.
\<close>

unbundle bit_operations_syntax

subsection \<open>Variable-length integers\<close>

text \<open>\<open>WriteVarint64ToArray\<close>: seven bits at a time, the lowest first.\<close>

function write_varint64 :: "64 word \<Rightarrow> byte list" where
  "write_varint64 v =
     (if 0x80 \<le> v then ucast (v OR 0x80) # write_varint64 (drop_bit 7 v) else [ucast v])"
  by auto

lemma drop_bit_7_less: "0x80 \<le> v \<Longrightarrow> unat (drop_bit 7 v) < unat (v :: 64 word)"
  by (simp add: unat_drop_bit_eq drop_bit_eq_div word_le_nat_alt unat_div)

termination write_varint64
  by (relation "measure unat") (use drop_bit_7_less in \<open>auto simp: linorder_not_less\<close>)

declare write_varint64.simps [simp del]

text \<open>\<open>ReadVarint64Slow\<close>: a byte at a time, at most ten.\<close>

fun read_varint64_slow :: "nat \<Rightarrow> 64 word \<Rightarrow> byte list \<Rightarrow> (64 word \<times> byte list) option" where
  "read_varint64_slow n res [] = None"
| "read_varint64_slow n res (b # buf) =
     (if n = 10 then None
      else let res = res OR push_bit (7 * n) (ucast (b AND 0x7F)) in
        if b AND 0x80 \<noteq> 0 then read_varint64_slow (Suc n) res buf else Some (res, buf))"

text \<open>
  \<open>ReadVarint64FromArray\<close>: ten bytes without asking for the end of the buffer, summed in three
  32-bit parts; the continuation bit is added with the byte and taken off again. The list has the
  part and the shift of each of the ten unrolled steps.
\<close>

type_synonym parts = "32 word \<times> 32 word \<times> 32 word"

fun part_map :: "nat \<Rightarrow> (32 word \<Rightarrow> 32 word) \<Rightarrow> parts \<Rightarrow> parts" where
  "part_map 0 f (p0, p1, p2) = (f p0, p1, p2)"
| "part_map (Suc 0) f (p0, p1, p2) = (p0, f p1, p2)"
| "part_map (Suc (Suc n)) f (p0, p1, p2) = (p0, p1, f p2)"

definition join_parts :: "parts \<Rightarrow> 64 word" where
  "join_parts = (\<lambda>(p0, p1, p2). ucast p0 OR push_bit 28 (ucast p1) OR push_bit 56 (ucast p2))"

fun read_steps :: "(nat \<times> nat) list \<Rightarrow> parts \<Rightarrow> byte list \<Rightarrow> ub + (64 word \<times> byte list) option" where
  "read_steps [] ps buf = Inr None"
| "read_steps ((p, s) # steps) ps [] = Inl OutOfBounds"
| "read_steps ((p, s) # steps) ps (b # buf) =
     (let ps = part_map p (\<lambda>w. w + push_bit s (ucast b)) ps in
      if b AND 0x80 = 0 then Inr (Some (join_parts ps, buf))
      else read_steps steps (part_map p (\<lambda>w. w - push_bit s 0x80) ps) buf)"

definition varint_steps :: "(nat \<times> nat) list" where
  "varint_steps =
     [(0, 0), (0, 7), (0, 14), (0, 21), (1, 0), (1, 7), (1, 14), (1, 21), (2, 0), (2, 7)]"

definition read_varint64_from_array :: "byte list \<Rightarrow> ub + (64 word \<times> byte list) option" where
  "read_varint64_from_array buf = read_steps varint_steps (0, 0, 0) buf"

text \<open>
  \<open>ReadVarint64\<close> and \<open>ReadVarint64Fallback\<close>: one byte, or the unrolled reader when ten bytes are
  there or the last byte ends an integer, or the slow one.
\<close>

definition read_varint64 :: "byte list \<Rightarrow> ub + (64 word \<times> byte list) option" where
  "read_varint64 buf =
     (case buf of
        b # bs \<Rightarrow>
          if b < 0x80 then Inr (Some (ucast b, bs))
          else if 10 \<le> length buf \<or> last buf AND 0x80 = 0 then read_varint64_from_array buf
          else Inr (read_varint64_slow 0 0 buf)
      | [] \<Rightarrow> Inr (read_varint64_slow 0 0 buf))"


subsection \<open>The unrolled reader is the loop\<close>

definition below :: "nat \<Rightarrow> 'a::len word \<Rightarrow> bool" where
  "below n w \<longleftrightarrow> (\<forall>i. bit w i \<longrightarrow> i < n)"

lemma below_0 [simp]: "below n 0"
  by (simp add: below_def)

lemma and_7F: "b AND 0x7F = take_bit 7 (b :: byte)"
  by (simp add: take_bit_eq_mask mask_eq_exp_minus_1)

lemma and_80: "b AND 0x80 = 0 \<longleftrightarrow> \<not> bit (b :: byte) 7"
  using and_exp_eq_0_iff_not_bit [of b 7] by simp

lemma take_bit_small: "unat w < 2 ^ n \<Longrightarrow> take_bit n w = w"
  by (simp add: word_unat_eq_iff unsigned_take_bit_eq take_bit_nat_eq_self)

lemma bit_small: "unat w < 2 ^ n \<Longrightarrow> \<not> bit w n"
  by (metis bit_take_bit_iff less_irrefl take_bit_small)

lemma below_zero [simp]: "below 0 w \<longleftrightarrow> w = 0"
  by (auto simp: below_def intro: bit_word_eqI)

lemma below_ucast_and: "below 7 (ucast (b AND 0x7F :: byte) :: 'a::len word)"
  by (auto simp: below_def and_7F bit_simps)

lemma add_below:
  assumes "below s w"
  shows "w + push_bit s x = w OR push_bit s x"
  by (rule disjunctive_add_eq_or, rule bit_eqI) (use assms in \<open>auto simp: bit_simps below_def\<close>)

lemma below_or_push:
  "below s w \<Longrightarrow> below n x \<Longrightarrow> below (s + n) (w OR push_bit s x)"
  by (fastforce simp: below_def bit_simps)

lemma byte_bits: "bit (b :: byte) n \<Longrightarrow> n < 8"
  by (auto dest: bit_imp_le_length)

lemma byte_split:
  fixes b :: byte
  assumes "bit b 7"
  shows "(ucast b :: 32 word) = ucast (b AND 0x7F) + 0x80"
proof -
  have "(ucast b :: 32 word) = ucast (b AND 0x7F) OR push_bit 7 1"
  proof (rule bit_word_eqI)
    fix n assume "n < LENGTH(32)"
    show "bit (ucast b :: 32 word) n = bit (ucast (b AND 0x7F) OR push_bit 7 1 :: 32 word) n"
      using assms byte_bits [of b n]
      by (simp only: and_7F bit_or_iff bit_push_bit_iff bit_ucast_iff bit_take_bit_iff bit_1_iff)
        (auto simp: less_Suc_eq numeral_eq_Suc)
  qed
  also have "\<dots> = ucast (b AND 0x7F) + push_bit 7 1"
    by (rule add_below [symmetric, OF below_ucast_and])
  finally show ?thesis by simp
qed

text \<open>Adding a byte and taking its continuation bit off again adds its seven bits.\<close>

lemma add_sub_step:
  fixes b :: byte
  assumes "b AND 0x80 \<noteq> 0"
  shows "w + push_bit s (ucast (b :: byte)) - push_bit s 0x80 = w + push_bit s (ucast (b AND 0x7F) :: 32 word)"
  using assms byte_split [of b] by (simp add: and_80 push_bit_eq_mult algebra_simps)

lemma last_byte:
  fixes b :: byte
  assumes "b AND 0x80 = 0"
  shows "ucast b = (ucast (b AND 0x7F) :: 'a::len word)"
proof -
  have "b AND 0x7F = b"
  proof (rule bit_word_eqI)
    fix n assume "n < LENGTH(8)"
    then show "bit (b AND 0x7F) n = bit b n"
      using assms unfolding and_7F and_80 by (cases "n = 7") (auto simp: bit_take_bit_iff)
  qed
  then show ?thesis by simp
qed

text \<open>After \<open>k\<close> steps the parts hold the first \<open>7 * k\<close> bits of the result.\<close>

fun parts_below :: "nat \<Rightarrow> parts \<Rightarrow> bool" where
  "parts_below k (p0, p1, p2) \<longleftrightarrow>
     below (7 * k) p0 \<and> below (7 * k - 28) p1 \<and> below (7 * k - 56) p2"

definition part_sum :: "nat \<Rightarrow> byte \<Rightarrow> parts \<Rightarrow> parts" where
  "part_sum k b = part_map (k div 4) (\<lambda>w. w + push_bit (7 * (k mod 4)) (ucast (b AND 0x7F)))"

lemma ten: "k < 10 \<Longrightarrow> k \<in> {0, 1, 2, 3, 4, 5, 6, 7, 8, 9 :: nat}"
  by auto

lemma steps_nth: "k < 10 \<Longrightarrow> drop k varint_steps = (k div 4, 7 * (k mod 4)) # drop (Suc k) varint_steps"
  by (drule ten) (auto simp: varint_steps_def)

lemma below_mono: "below m w \<Longrightarrow> m \<le> n \<Longrightarrow> below n w"
  unfolding below_def by fastforce

lemma below_add_7:
  fixes b :: byte
  assumes "below s w" "s + 7 \<le> n"
  shows "below n (w + push_bit s (ucast (b AND 0x7F)))"
  unfolding add_below [OF assms(1)]
  by (rule below_mono [OF below_or_push [OF assms(1) below_ucast_and] assms(2)])

lemma part_sum_below:
  assumes "k < 10" "parts_below k ps"
  shows "parts_below (Suc k) (part_sum k b ps)"
proof -
  obtain p0 p1 p2 where ps: "ps = (p0, p1, p2)" by (cases ps)
  show ?thesis
    using ten [OF assms(1)] assms(2) unfolding ps part_sum_def
    by (elim insertE emptyE; simp only:)
      (auto intro: below_add_7 below_mono below_ucast_and simp: numeral_2_eq_2 simp del: push_bit_numeral)
qed

lemma join_or:
  assumes "s \<le> 21" "below 7 x"
  shows "join_parts (p0 OR push_bit s x, p1, p2) = join_parts (p0, p1, p2) OR push_bit s (ucast x)"
    "join_parts (p0, p1 OR push_bit s x, p2) = join_parts (p0, p1, p2) OR push_bit (28 + s) (ucast x)"
    "join_parts (p0, p1, p2 OR push_bit s x) = join_parts (p0, p1, p2) OR push_bit (56 + s) (ucast x)"
proof -
  have x: "bit x m \<Longrightarrow> m < 7" for m
    using assms(2) by (simp add: below_def)
  have *: "bit x (n - s) \<Longrightarrow> n < 28" "bit x (n - 28 - s) \<Longrightarrow> n < 56" "bit x (n - 56 - s) \<Longrightarrow> n < 84" for n
    using x [of "n - s"] x [of "n - 28 - s"] x [of "n - 56 - s"] assms(1) by linarith+
  have **: "bit x (n - (28 + s)) \<Longrightarrow> n < 56" "bit x (n - (56 + s)) \<Longrightarrow> n < 84" for n
    using *(2,3) by (simp_all add: diff_diff_left)
  show "join_parts (p0 OR push_bit s x, p1, p2) = join_parts (p0, p1, p2) OR push_bit s (ucast x)"
    by (rule bit_word_eqI) (auto simp: join_parts_def bit_simps dest: *)
  show "join_parts (p0, p1 OR push_bit s x, p2) = join_parts (p0, p1, p2) OR push_bit (28 + s) (ucast x)"
    by (rule bit_word_eqI) (auto simp: join_parts_def bit_simps diff_diff_left dest: * **)
  show "join_parts (p0, p1, p2 OR push_bit s x) = join_parts (p0, p1, p2) OR push_bit (56 + s) (ucast x)"
    by (rule bit_word_eqI) (auto simp: join_parts_def bit_simps diff_diff_left dest: * **)
qed

fun part :: "nat \<Rightarrow> parts \<Rightarrow> 32 word" where
  "part 0 (p0, p1, p2) = p0"
| "part (Suc 0) (p0, p1, p2) = p1"
| "part (Suc (Suc n)) (p0, p1, p2) = p2"

lemma join_part_map:
  assumes "p < 3" "s \<le> 21" "below s (part p ps)"
  shows "join_parts (part_map p (\<lambda>w. w + push_bit s (ucast (b AND 0x7F :: byte))) ps) =
    join_parts ps OR push_bit (28 * p + s) (ucast (b AND 0x7F))"
proof -
  obtain p0 p1 p2 where ps: "ps = (p0, p1, p2)" by (cases ps)
  note or = join_or [OF assms(2) below_ucast_and]
  have c: "ucast (ucast (b AND 0x7F) :: 32 word) = (ucast (b AND 0x7F) :: 64 word)"
    by (rule bit_word_eqI) (auto simp: bit_simps dest: byte_bits)
  from assms(1) consider "p = 0" | "p = 1" | "p = 2" by linarith
  then show ?thesis
  proof cases
    case 1
    with assms(3) show ?thesis by (simp only: ps part_map.simps part.simps add_below) (simp add: or c)
  next
    case 2
    with assms(3) show ?thesis
      by (simp only: ps One_nat_def part_map.simps part.simps add_below) (simp add: or c)
  next
    case 3
    with assms(3) show ?thesis
      by (simp only: ps numeral_2_eq_2 part_map.simps part.simps add_below) (simp add: or c)
  qed
qed

lemma join_part_sum:
  assumes "k < 10" "parts_below k ps"
  shows "join_parts (part_sum k b ps) = join_parts ps OR push_bit (7 * k) (ucast (b AND 0x7F))"
proof -
  have "k = 4 * (k div 4) + k mod 4" by simp
  then have s: "7 * (k mod 4) = 7 * k - 28 * (k div 4)" and e: "28 * (k div 4) + 7 * (k mod 4) = 7 * k"
    by linarith+
  from assms(1) have "k div 4 < 3" by linarith
  moreover have "below (7 * (k mod 4)) (part (k div 4) ps)"
    using assms(2) \<open>k div 4 < 3\<close> unfolding s
    by (cases ps; cases "k div 4 = 0"; cases "k div 4 = 1"; cases "k div 4 = 2")
      (auto simp: numeral_2_eq_2)
  ultimately show ?thesis
    using join_part_map [of "k div 4" "7 * (k mod 4)" ps b] unfolding e part_sum_def by simp
qed

lemma read_steps_slow:
  assumes "10 - k \<le> length buf \<or> buf \<noteq> [] \<and> last buf AND 0x80 = 0"
    and "k \<le> 10" "parts_below k ps"
  shows "read_steps (drop k varint_steps) ps buf = Inr (read_varint64_slow k (join_parts ps) buf)"
  using assms
proof (induction "10 - k" arbitrary: k ps buf)
  case 0
  then have "k = 10" by simp
  then show ?case by (cases buf) (simp_all add: varint_steps_def)
next
  case (Suc n)
  then have k: "k < 10" by simp
  note below = part_sum_below [OF k Suc.prems(3)]
  note join = join_part_sum [OF k Suc.prems(3)]
  show ?case
  proof (cases buf)
    case Nil
    with Suc.prems k show ?thesis by simp
  next
    case (Cons b bs)
    show ?thesis
    proof (cases "b AND 0x80 = 0")
      case True
      then show ?thesis
        using k join [of b]
        by (simp add: Cons steps_nth [OF k] part_sum_def Let_def last_byte [OF True])
    next
      case False
      with Suc.prems(1) have "10 - Suc k \<le> length bs \<or> bs \<noteq> [] \<and> last bs AND 0x80 = 0"
        by (auto simp: Cons split: if_splits)
      then have "read_steps (drop (Suc k) varint_steps) (part_sum k b ps) bs =
          Inr (read_varint64_slow (Suc k) (join_parts (part_sum k b ps)) bs)"
        using Suc.hyps(1) [of "Suc k"] Suc.hyps(2) below k by simp
      moreover have "part_map p (\<lambda>w. w - c) (part_map p (\<lambda>w. w + d) ps) = part_map p (\<lambda>w. w + d - c) ps"
        for p c d by (cases ps; cases p; cases "p - 1") auto
      ultimately show ?thesis
        using False k by (simp add: Cons steps_nth [OF k] Let_def join [unfolded part_sum_def]
            add_sub_step part_sum_def)
    qed
  qed
qed

lemma read_varint64_slow: "read_varint64 buf = Inr (read_varint64_slow 0 0 buf)"
proof (cases buf)
  case (Cons b bs)
  have j: "join_parts (0, 0, 0) = 0" by (simp add: join_parts_def)
  show ?thesis
  proof (cases "b < 0x80")
    case True
    then have "b AND 0x80 = 0"
      using bit_small [of b 7] by (simp add: and_80 word_less_nat_alt)
    then show ?thesis using True by (simp add: Cons read_varint64_def last_byte)
  next
    case False
    then show ?thesis
      using read_steps_slow [of 0 buf "(0, 0, 0)"]
      by (simp add: Cons read_varint64_def read_varint64_from_array_def j)
  qed
qed (simp add: read_varint64_def)

subsection \<open>Reading back what was written\<close>

lemma write_not_nil [simp]: "write_varint64 v \<noteq> []"
  by (subst write_varint64.simps) simp

lemma seven_and_rest:
  "push_bit (7 * n) (ucast (ucast (v OR 0x80 :: 64 word) AND 0x7F :: byte)) OR
   push_bit (7 * Suc n) (drop_bit 7 v) = push_bit (7 * n) v"
proof (rule bit_word_eqI)
  fix m assume "m < LENGTH(64)"
  have o: "(0x80 :: 64 word) = push_bit 7 1" by simp
  consider "m < 7 * n" | "7 * n \<le> m" "m - 7 * n < 7" | "7 * Suc n \<le> m"
    by (cases "m < 7 * n"; cases "m - 7 * n < 7") auto
  then show "bit (push_bit (7 * n) (ucast (ucast (v OR 0x80) AND 0x7F :: byte)) OR
      push_bit (7 * Suc n) (drop_bit 7 v)) m = bit (push_bit (7 * n) v) m"
  proof cases
    case 3
    then have "7 + (m - 7 * Suc n) = m - 7 * n" by simp
    with 3 show ?thesis
      by (simp only: o and_7F bit_or_iff bit_push_bit_iff bit_ucast_iff bit_take_bit_iff bit_drop_bit_eq) auto
  qed (simp_all only: o and_7F bit_or_iff bit_push_bit_iff bit_ucast_iff bit_take_bit_iff bit_1_iff, auto)
qed

lemma slow_write:
  assumes "n < 10" "unat v < 2 ^ (64 - 7 * n)"
  shows "read_varint64_slow n res (write_varint64 v @ bs) = Some (res OR push_bit (7 * n) v, bs)"
  using assms
proof (induction v arbitrary: n res rule: write_varint64.induct)
  case (1 v)
  show ?case
  proof (cases "0x80 \<le> v")
    case True
    have n: "n < 9"
    proof (rule ccontr)
      assume "\<not> n < 9"
      with "1.prems" have "n = 9" by simp
      with "1.prems" True show False by (simp add: word_le_nat_alt)
    qed
    have "unat (drop_bit 7 v) < 2 ^ (64 - 7 * Suc n)"
    proof -
      have "(2 :: nat) ^ (64 - 7 * n) = 2 ^ (64 - 7 * Suc n) * 2 ^ 7"
        using n unfolding power_add [symmetric] by (intro arg_cong [of _ _ "(^) 2"]) simp
      with "1.prems" have "unat v < 2 ^ (64 - 7 * Suc n) * 128" by simp
      then show ?thesis
        by (simp add: unat_drop_bit_eq drop_bit_eq_div unat_div less_mult_imp_div_less)
    qed
    then have "read_varint64_slow (Suc n) (res OR push_bit (7 * n) (ucast (ucast (v OR 0x80) AND 0x7F :: byte)))
        (write_varint64 (drop_bit 7 v) @ bs) = Some (res OR push_bit (7 * n) v, bs)"
      using "1.IH" [OF True, of "Suc n"] n by (simp add: or.assoc seven_and_rest [simplified])
    moreover have "ucast (v OR 0x80) AND 0x80 \<noteq> (0 :: byte)"
      by (simp add: and_80 bit_simps) 
    ultimately show ?thesis
      using True "1.prems" by (subst write_varint64.simps) (simp add: Let_def)
  next
    case False
    then have "unat v < 128" by (simp add: word_le_nat_alt)
    then have v: "take_bit 7 v = v" and "\<not> bit v 7"
      using take_bit_small [of v 7] bit_small [of v 7] by simp_all
    then have "ucast v AND 0x80 = (0 :: byte)" by (simp add: and_80 bit_simps)
    moreover have "ucast (ucast v AND 0x7F :: byte) = v"
      by (subst (2) v [symmetric], rule bit_word_eqI) (auto simp: and_7F bit_simps)
    ultimately show ?thesis
      using False "1.prems" by (subst write_varint64.simps) (simp add: Let_def)
  qed
qed

lemma read_write: "read_varint64 (write_varint64 v @ bs) = Inr (Some (v, bs))"
proof -
  have "unat v < 2 ^ 64" using unsigned_less [of v] by simp
  with slow_write [of 0 v 0 bs] show ?thesis by (simp add: read_varint64_slow)
qed

subsection \<open>ZigZag\<close>

text \<open>\<open>ZigZagEncode64\<close> (whose right shift is arithmetic) and \<open>ZigZagDecode64\<close>.\<close>

definition zigzag_encode :: "64 word \<Rightarrow> 64 word" where
  "zigzag_encode n = push_bit 1 n XOR signed_drop_bit 63 n"

definition zigzag_decode :: "64 word \<Rightarrow> 64 word" where
  "zigzag_decode n = drop_bit 1 n XOR (NOT (n AND 1) + 1)"

lemma minus_bit: "NOT (n AND 1) + 1 = (if bit n 0 then - 1 else (0 :: 'a::len word))"
  by (simp add: and_one_eq mod_2_eq_odd bit_0 not_eq_complement)

lemma zigzag_decode_encode: "zigzag_decode (zigzag_encode n) = n"
proof -
  have b: "bit (zigzag_encode n) 0 = bit n 63"
    unfolding zigzag_encode_def bit_xor_iff bit_push_bit_iff bit_signed_drop_bit_iff by simp
  show ?thesis
    unfolding zigzag_decode_def minus_bit b
  proof (rule bit_word_eqI)
    fix m assume m: "m < LENGTH(64)"
    then consider "m < 63" | "m = 63" by fastforce
    then show "bit (drop_bit 1 (zigzag_encode n) XOR (if bit n 63 then - 1 else 0)) m = bit n m"
      by cases (simp_all only: zigzag_encode_def bit_xor_iff bit_push_bit_iff bit_drop_bit_eq
          bit_signed_drop_bit_iff comp_apply, auto dest: bit_imp_le_length)
  qed
qed

text \<open>
  C40: The unrolled reader never reads past the bytes it was given, and gives what the loop gives, for
  every sequence of bytes.
\<close>

theorem varint_readers_agree: "read_varint64 buf = Inr (read_varint64_slow 0 0 buf)"
  by (rule read_varint64_slow)

end
