(* ===== verification/XRow.thy ===== *)
theory XRow
  imports XWire History
begin

section \<open>Result rows and their getters (common/value.h, common/result, xapi/mysqlx.cc)\<close>

text \<open>
  A row keeps the bytes of its fields as the server sent them, and converts a field the first time
  its value is asked for: \<open>Row_impl\<close>, \<open>Value\<close>, \<open>convert\<close>, and on top of them the functions of the
  C interface the programs call, \<open>mysqlx_get_uint\<close> and \<open>mysqlx_get_bytes\<close>. Decoding the text of a
  string column and the bytes of a floating-point column is an argument (\<open>codecs\<close>): no program
  asks for such a value. A C++ exception is its message and the code \<open>set_diagnostic\<close> is given.

  The last part connects this to the history scraper, whose \<open>get_uint\<close> and \<open>get_flag\<close> speak of
  cells: on the bytes a cell travels as, the two functions of the library give what those say.
\<close>

subsection \<open>Error records (xapi/error_internal.h)\<close>

record diag =
  m_message :: string
  m_error_num :: nat

definition no_error :: diag where
  "no_error = \<lparr>m_message = [], m_error_num = 0\<rparr>"

type_synonym xexn = "string \<times> nat"

definition set_diagnostic :: "xexn \<Rightarrow> diag" where
  "set_diagnostic ex = \<lparr>m_message = fst ex, m_error_num = snd ex\<rparr>"

text \<open>\<open>message()\<close> is null for an empty text, \<open>get_error()\<close> is null without text and code.\<close>

definition error_message :: "diag \<Rightarrow> string option" where
  "error_message d = (if m_message d \<noteq> [] then Some (m_message d) else None)"

definition get_error :: "diag \<Rightarrow> diag option" where
  "get_error d = (if error_message d \<noteq> None \<or> m_error_num d \<noteq> 0 then Some d else None)"

text \<open>\<open>mysqlx_error_message\<close> and \<open>mysqlx_error_num\<close> of a live object.\<close>

definition mysqlx_error_message :: "diag \<Rightarrow> string option" where
  "mysqlx_error_message d = (case get_error d of None \<Rightarrow> None | Some e \<Rightarrow> error_message e)"

definition mysqlx_error_num :: "diag \<Rightarrow> nat" where
  "mysqlx_error_num d = (case get_error d of None \<Rightarrow> 0 | Some e \<Rightarrow> m_error_num e)"

subsection \<open>Values (mysqlx/common/value.h)\<close>

datatype xvalue =
    VNull
  | VUint "64 word"
  | VInt "64 word"
  | VFloat "64 word"
  | VDouble "64 word"
  | VBool bool
  | VString string
  | VUstring "16 word list"
  | VRaw "byte list"
  | VExpr string
  | VJson "byte list"

fun value_get_uint :: "xvalue \<Rightarrow> xexn + 64 word" where
  "value_get_uint (VBool b) = Inr (if b then 1 else 0)"
| "value_get_uint (VInt w) =
     (if sint w < 0 then Inl (''Converting negative integer to unsigned value'', 0) else Inr w)"
| "value_get_uint (VUint w) = Inr w"
| "value_get_uint v = Inl (''Can not convert to integer value'', 0)"

fun value_get_sint :: "xvalue \<Rightarrow> xexn + 64 word" where
  "value_get_sint (VInt w) = Inr w"
| "value_get_sint v =
     ebind (value_get_uint v) (\<lambda>w.
       if uint w \<le> 2 ^ 63 - 1 then Inr w
       else Inl (''Value cannot be converted to signed integer number'', 0))"

subsection \<open>Columns (cdk/mysqlx/result)\<close>

datatype proto_type =
  PtSint | PtUint | PtDouble | PtFloat | PtBytes | PtTime | PtDatetime | PtSet | PtEnum | PtBit | PtDecimal

datatype cdk_type =
  TInteger | TFloat | TString | TDatetime | TBytes | TDocument | TGeometry | TXml

record col_metadata =
  cm_type :: proto_type
  cm_content_type :: nat
  cm_cs :: nat

definition binary_cs_id :: nat where
  "binary_cs_id = 63"

text \<open>\<open>Cursor::type\<close>; the content types are 1 for geometry, 2 for JSON and 3 for XML.\<close>

definition cursor_type :: "col_metadata \<Rightarrow> cdk_type" where
  "cursor_type md =
     (case cm_type md of
        PtSint \<Rightarrow> TInteger | PtUint \<Rightarrow> TInteger
      | PtFloat \<Rightarrow> TFloat | PtDouble \<Rightarrow> TFloat | PtDecimal \<Rightarrow> TFloat
      | PtTime \<Rightarrow> TDatetime | PtDatetime \<Rightarrow> TDatetime
      | PtBytes \<Rightarrow>
          (if cm_content_type md = 2 then TDocument
           else if cm_content_type md = 1 then TGeometry
           else if cm_content_type md = 3 then TXml
           else if cm_cs md \<noteq> binary_cs_id then TString else TBytes)
      | PtSet \<Rightarrow> TString | PtEnum \<Rightarrow> TString
      | PtBit \<Rightarrow> TBytes)"

text \<open>The formats \<open>get_info\<close> describes, as far as \<open>convert\<close> asks for them.\<close>

definition is_unsigned :: "col_metadata \<Rightarrow> bool" where
  "is_unsigned md \<longleftrightarrow> cm_type md = PtUint"

definition is_set_kind :: "col_metadata \<Rightarrow> bool" where
  "is_set_kind md \<longleftrightarrow> cm_type md = PtSet"

definition is_float :: "col_metadata \<Rightarrow> bool" where
  "is_float md \<longleftrightarrow> cm_type md = PtFloat"

subsection \<open>From raw bytes to values (common/result.cc, cdk/core/codec.cc)\<close>

text \<open>
  What is not translated: the decoder of a character set, the decoder of floating-point formats,
  and the text and code a conversion error of the integer codec carries.
\<close>

record codecs =
  text_of :: "nat \<Rightarrow> byte list \<Rightarrow> xexn + 16 word list"
  real_of :: "col_metadata \<Rightarrow> byte list \<Rightarrow> xexn + 64 word"
  varint_error :: xexn

text \<open>\<open>Codec<TYPE_INTEGER>::internal_from_bytes\<close> into a 64-bit integer of the format's sign.\<close>

definition integer_from_bytes :: "codecs \<Rightarrow> bool \<Rightarrow> byte list \<Rightarrow> ub + (xexn + 64 word)" where
  "integer_from_bytes c uns buf =
     ebind (read_varint64 buf) (\<lambda>r.
       Inr (case r of
              None \<Rightarrow> Inl (varint_error c)
            | Some (v, _) \<Rightarrow> Inr (if uns then v else zigzag_decode v)))"

text \<open>\<open>Codec<TYPE_STRING>::from_bytes\<close> leaves out a last byte 0.\<close>

definition string_from_bytes :: "codecs \<Rightarrow> nat \<Rightarrow> byte list \<Rightarrow> xexn + 16 word list" where
  "string_from_bytes c cs raw =
     text_of c cs (if raw \<noteq> [] \<and> last raw = 0 then butlast raw else raw)"

definition is_space :: "byte \<Rightarrow> bool" where
  "is_space b \<longleftrightarrow> b = 32 \<or> 9 \<le> b \<and> b \<le> 13"

definition convert :: "codecs \<Rightarrow> col_metadata \<Rightarrow> byte list \<Rightarrow> ub + (xexn + xvalue)" where
  "convert c md data =
     (case cursor_type md of
        TInteger \<Rightarrow>
          ebind (integer_from_bytes c (is_unsigned md) data) (\<lambda>r.
            Inr (ebind r (\<lambda>v. Inr (if is_unsigned md then VUint v else VInt v))))
      | TFloat \<Rightarrow> Inr (ebind (real_of c md data) (\<lambda>v. Inr (if is_float md then VFloat v else VDouble v)))
      | TString \<Rightarrow>
          let raw = butlast data in
          if is_set_kind md then Inr (Inr (VRaw raw))
          else Inr (ebind (string_from_bytes c (cm_cs md) raw) (\<lambda>t. Inr (VUstring t)))
      | TDatetime \<Rightarrow> Inr (Inr (VRaw data))
      | TDocument \<Rightarrow>
          (case dropWhile is_space data of
             [] \<Rightarrow> if data = [] then Inr (Inr VNull) else Inl OutOfBounds
           | json \<Rightarrow> Inr (Inr (VJson (butlast json))))
      | _ \<Rightarrow> Inr (Inr (VRaw (butlast data))))"

subsection \<open>Rows (common/result.h)\<close>

record xrow =
  rw_data :: "nat \<Rightarrow> byte list option"
  rw_mdata :: "col_metadata list"
  rw_vals :: "nat \<Rightarrow> xvalue option"
  rw_error :: diag

definition new_row :: "(nat \<Rightarrow> byte list option) \<Rightarrow> col_metadata list \<Rightarrow> xrow" where
  "new_row data mdata =
     \<lparr>rw_data = data, rw_mdata = mdata, rw_vals = Map.empty, rw_error = no_error\<rparr>"

definition col_count :: "xrow \<Rightarrow> nat" where
  "col_count row = length (rw_mdata row)"

text \<open>\<open>get_bytes\<close>: no data at a position means null, an empty range.\<close>

definition row_get_bytes :: "xrow \<Rightarrow> nat \<Rightarrow> xexn + byte list" where
  "row_get_bytes row pos =
     (if col_count row \<le> pos then Inl (''row column'', 0)
      else Inr (case rw_data row pos of None \<Rightarrow> [] | Some d \<Rightarrow> d))"

text \<open>\<open>convert_at\<close> and \<open>get\<close>, which converts a field once and keeps the value.\<close>

definition convert_at :: "codecs \<Rightarrow> xrow \<Rightarrow> nat \<Rightarrow> ub + (xexn + xrow)" where
  "convert_at c row pos =
     (case rw_data row pos of
        None \<Rightarrow> Inr (Inr (row\<lparr>rw_vals := (rw_vals row)(pos \<mapsto> VNull)\<rparr>))
      | Some raw \<Rightarrow>
          if raw = [] then Inr (Inr (row\<lparr>rw_vals := (rw_vals row)(pos \<mapsto> VNull)\<rparr>))
          else ebind (convert c (rw_mdata row ! pos) raw) (\<lambda>r.
            Inr (ebind r (\<lambda>v. Inr (row\<lparr>rw_vals := (rw_vals row)(pos \<mapsto> v)\<rparr>)))))"

definition row_get :: "codecs \<Rightarrow> xrow \<Rightarrow> nat \<Rightarrow> ub + (xexn + xvalue \<times> xrow)" where
  "row_get c row pos =
     (if col_count row \<le> pos then Inr (Inl (''row column'', 0))
      else case rw_vals row pos of
        Some v \<Rightarrow> Inr (Inr (v, row))
      | None \<Rightarrow>
          ebind (convert_at c row pos) (\<lambda>r.
            Inr (ebind r (\<lambda>row. case rw_vals row pos of
                Some v \<Rightarrow> Inr (v, row)
              | None \<Rightarrow> Inl (''map::at'', 0)))))"

subsection \<open>The C interface to a row (xapi/mysqlx.cc)\<close>

definition RESULT_OK :: nat where "RESULT_OK = 0"
definition RESULT_MORE_DATA :: nat where "RESULT_MORE_DATA = 8"
definition RESULT_NULL :: nat where "RESULT_NULL = 16"
definition RESULT_ERROR :: nat where "RESULT_ERROR = 128"

definition index_out_of_range :: xexn where
  "index_out_of_range = (''Index is out of range'', 1)"

definition row_fail :: "xexn \<Rightarrow> xrow \<Rightarrow> xrow" where
  "row_fail ex row = row\<lparr>rw_error := set_diagnostic ex\<rparr>"

text \<open>
  \<open>mysqlx_get_uint\<close> and \<open>mysqlx_get_sint\<close> into a variable: the value they store, if they do. The
  exceptions end in \<open>SAFE_EXCEPTION_END\<close>, which notes them in the row.
\<close>

definition get_number ::
  "(xvalue \<Rightarrow> xexn + 64 word) \<Rightarrow> codecs \<Rightarrow> xrow \<Rightarrow> nat \<Rightarrow> ub + (nat \<times> 64 word option \<times> xrow)" where
  "get_number read c row col =
     (if col_count row \<le> col then Inr (RESULT_ERROR, None, row_fail index_out_of_range row)
      else ebind (row_get c row col) (\<lambda>r. Inr
        (case r of
           Inl ex \<Rightarrow> (RESULT_ERROR, None, row_fail ex row)
         | Inr (v, row) \<Rightarrow>
             if v = VNull then (RESULT_NULL, None, row)
             else (case read v of
                     Inl ex \<Rightarrow> (RESULT_ERROR, None, row_fail ex row)
                   | Inr n \<Rightarrow> (RESULT_OK, Some n, row)))))"

definition mysqlx_get_uint :: "codecs \<Rightarrow> xrow \<Rightarrow> nat \<Rightarrow> ub + (nat \<times> 64 word option \<times> xrow)" where
  "mysqlx_get_uint = get_number value_get_uint"

definition mysqlx_get_sint :: "codecs \<Rightarrow> xrow \<Rightarrow> nat \<Rightarrow> ub + (nat \<times> 64 word option \<times> xrow)" where
  "mysqlx_get_sint = get_number value_get_sint"

text \<open>
  \<open>mysqlx_get_bytes\<close> into a buffer of \<open>*buf_len\<close> bytes (\<open>None\<close>: a null pointer for it): the result
  code, the buffer, the new \<open>*buf_len\<close> and the row. A buffer smaller than announced is overrun.
\<close>

definition mysqlx_get_bytes ::
  "xrow \<Rightarrow> nat \<Rightarrow> nat \<Rightarrow> byte list option \<Rightarrow> nat \<Rightarrow> ub + (nat \<times> byte list option \<times> nat \<times> xrow)" where
  "mysqlx_get_bytes row col offset buf buf_len =
     (if buf_len = 0 then
        Inr (RESULT_ERROR, buf, buf_len, row_fail (''The output buffer cannot have zero length'', 0) row)
      else case buf of
        None \<Rightarrow> Inr (RESULT_ERROR, None, buf_len, row_fail (''The output buffer cannot be NULL'', 0) row)
      | Some mem \<Rightarrow>
          if col_count row \<le> col then Inr (RESULT_ERROR, buf, buf_len, row_fail index_out_of_range row)
          else (case row_get_bytes row col of
              Inl ex \<Rightarrow> Inr (RESULT_ERROR, buf, buf_len, row_fail ex row)
            | Inr b \<Rightarrow>
                if b = [] then Inr (RESULT_NULL, buf, buf_len, row)
                else if length b \<le> offset then Inr (RESULT_OK, buf, 0, row)
                else
                  let (rc, n) = (if length b - offset < buf_len then (RESULT_OK, length b - offset)
                                 else (RESULT_MORE_DATA, buf_len)) in
                  ebind (blit mem 0 (take n (drop offset b))) (\<lambda>mem. Inr (rc, Some mem, n, row))))"

subsection \<open>Numbers come back as they were sent\<close>

definition int_md :: "bool \<Rightarrow> col_metadata \<Rightarrow> bool" where
  "int_md uns md \<longleftrightarrow> cm_type md = (if uns then PtUint else PtSint)"

lemma convert_integer:
  "int_md True md \<Longrightarrow> convert c md (write_varint64 n) = Inr (Inr (VUint n))"
  "int_md False md \<Longrightarrow> convert c md (write_varint64 (zigzag_encode n)) = Inr (Inr (VInt n))"
  using read_write [of n "[]"] read_write [of "zigzag_encode n" "[]"]
  by (simp_all add: convert_def int_md_def cursor_type_def is_unsigned_def integer_from_bytes_def
      zigzag_decode_encode)

lemma get_number_fresh:
  assumes "i < length mds" "data i = Some raw" "raw \<noteq> []" "convert c (mds ! i) raw = Inr (Inr v)" "v \<noteq> VNull"
  shows "get_number read c (new_row data mds) i =
    Inr (case read v of
           Inl ex \<Rightarrow> (RESULT_ERROR, None, row_fail ex ((new_row data mds)\<lparr>rw_vals := [i \<mapsto> v]\<rparr>))
         | Inr n \<Rightarrow> (RESULT_OK, Some n, (new_row data mds)\<lparr>rw_vals := [i \<mapsto> v]\<rparr>))"
  using assms
  by (simp add: get_number_def row_get_def convert_at_def new_row_def col_count_def split: sum.split)

text \<open>
  C38: The value of an integer column reaches the caller exactly as the server wrote it.
\<close>

theorem integers_round_trip:
  assumes "i < length mds" "int_md uns (mds ! i)"
    and "data i = Some (write_varint64 (if uns then n else zigzag_encode n))"
  shows "\<exists>row. (if uns then mysqlx_get_uint else mysqlx_get_sint) c (new_row data mds) i =
      Inr (RESULT_OK, Some n, row) \<and> rw_error row = no_error"
proof -
  have "convert c (mds ! i) (write_varint64 (if uns then n else zigzag_encode n)) =
      Inr (Inr (if uns then VUint n else VInt n))"
    using assms(2) convert_integer by (cases uns) auto
  note fresh = get_number_fresh [where data = data, OF assms(1,3) write_not_nil this]
  show ?thesis
    unfolding mysqlx_get_uint_def mysqlx_get_sint_def
    using fresh by (cases uns) (auto simp: new_row_def)
qed

definition two_columns :: "col_metadata list" where
  "two_columns =
     [\<lparr>cm_type = PtUint, cm_content_type = 0, cm_cs = 0\<rparr>, \<lparr>cm_type = PtSint, cm_content_type = 0, cm_cs = 0\<rparr>]"

theorem integers_round_trip_witness:
  "\<forall>c. \<exists>row. mysqlx_get_sint c (new_row (\<lambda>_. Some (write_varint64 (zigzag_encode (- 300)))) two_columns) 1 =
     Inr (RESULT_OK, Some (- 300), row) \<and> rw_error row = no_error"
  using integers_round_trip [of 1 two_columns False "\<lambda>_. Some (write_varint64 (zigzag_encode (- 300)))" "- 300"]
  by (simp add: two_columns_def int_md_def)

subsection \<open>The scraper's cells\<close>

text \<open>
  How a cell of the scraper's model travels: an unsigned integer as its variable-length form, the
  bytes of a text with a final 0 that tells an empty text from null, and null as an empty field,
  for which no data is kept.
\<close>

definition bytes_of :: "string \<Rightarrow> byte list" where
  "bytes_of = map of_char"

fun wire_field :: "cell \<Rightarrow> byte list" where
  "wire_field (CUint n) = write_varint64 n"
| "wire_field (CBytes b) = bytes_of b @ [0]"
| "wire_field CNull = []"

definition wire_data :: "cell list \<Rightarrow> nat \<Rightarrow> byte list option" where
  "wire_data row i =
     (if i < length row \<and> wire_field (row ! i) \<noteq> [] then Some (wire_field (row ! i)) else None)"

fun carries :: "col_metadata \<Rightarrow> cell \<Rightarrow> bool" where
  "carries md (CUint n) \<longleftrightarrow> int_md True md"
| "carries md (CBytes b) \<longleftrightarrow> cursor_type md = TString \<or> cursor_type md = TBytes"
| "carries md CNull \<longleftrightarrow> True"

definition wire_row :: "col_metadata list \<Rightarrow> cell list \<Rightarrow> xrow" where
  "wire_row mds row = new_row (wire_data row) mds"

text \<open>\<open>IS_OK(ret, st)\<close>: anything but \<open>RESULT_OK\<close> throws the message of the statement.\<close>

definition is_ok :: "diag \<Rightarrow> nat \<Rightarrow> exn + unit" where
  "is_ok st rc =
     (if rc \<noteq> RESULT_OK then
        Inl (Thrown (sql_error (case mysqlx_error_message st of None \<Rightarrow> ''(null)'' | Some m \<Rightarrow> m)))
      else Inr ())"

text \<open>\<open>IS_OK(mysqlx_get_uint(row, i, &ret), st->getStmt())\<close> with \<open>ret\<close> 0 before.\<close>

definition fetch_uint :: "codecs \<Rightarrow> diag \<Rightarrow> xrow \<Rightarrow> nat \<Rightarrow> exn + 64 word" where
  "fetch_uint c st row i =
     ebind (lift_ub (mysqlx_get_uint c row i)) (\<lambda>(rc, out, _).
       ebind (is_ok st rc) (\<lambda>_. Inr (case out of None \<Rightarrow> 0 | Some n \<Rightarrow> n)))"

text \<open>\<open>char buffer[5]; size_t len = 5; IS_OK(mysqlx_get_bytes(row, i, 0, buffer, &len), \<dots>); *buffer == '1'\<close>.\<close>

definition fetch_flag :: "diag \<Rightarrow> byte list \<Rightarrow> xrow \<Rightarrow> nat \<Rightarrow> exn + bool" where
  "fetch_flag st buffer row i =
     ebind (lift_ub (mysqlx_get_bytes row i 0 (Some buffer) 5)) (\<lambda>(rc, buf, _, _).
       ebind (is_ok st rc) (\<lambda>_. Inr (case buf of Some (b # _) \<Rightarrow> b = of_char (CHR ''1'') | _ \<Rightarrow> False)))"

lemma unat_of_char: "unat (of_char c :: byte) = of_char c"
  using of_char_mod_256 [of c, where ?'a = nat] unat_of_nat [of "of_char c", where ?'a = 8]
  by (simp add: of_nat_of_char)

lemma of_char_eq: "of_char c = (of_char d :: byte) \<longleftrightarrow> c = d"
  using unat_of_char of_char_eq_iff [where ?'a = nat] by metis

lemma of_char_one: "of_char c = (49 :: byte) \<longleftrightarrow> c = CHR ''1''"
  using of_char_eq [of c "CHR ''1''"] by simp

lemma wire_data_nth:
  "i < length row \<Longrightarrow> wire_data row i = (if row ! i = CNull then None else Some (wire_field (row ! i)))"
  by (cases "row ! i") (auto simp: wire_data_def)

lemma is_ok_simps:
  "is_ok st RESULT_OK = Inr ()"
  "is_ok st RESULT_NULL = Inl (Thrown (sql_error (case mysqlx_error_message st of None \<Rightarrow> ''(null)'' | Some m \<Rightarrow> m)))"
  "is_ok st RESULT_ERROR = Inl (Thrown (sql_error (case mysqlx_error_message st of None \<Rightarrow> ''(null)'' | Some m \<Rightarrow> m)))"
  "is_ok st RESULT_MORE_DATA = Inl (Thrown (sql_error (case mysqlx_error_message st of None \<Rightarrow> ''(null)'' | Some m \<Rightarrow> m)))"
  by (simp_all add: is_ok_def RESULT_OK_def RESULT_NULL_def RESULT_ERROR_def RESULT_MORE_DATA_def)

text \<open>A column of text or bytes never converts to a number.\<close>

lemma text_is_no_number:
  assumes "cursor_type md = TString \<or> cursor_type md = TBytes"
  obtains ex where "convert c md data = Inr (Inl ex)"
  | v ex where "convert c md data = Inr (Inr v)" "v \<noteq> VNull" "value_get_uint v = Inl ex"
proof (cases "convert c md data")
  case (Inl u)
  with assms show thesis by (auto simp: convert_def Let_def split: if_splits)
next
  case (Inr r)
  show thesis
  proof (cases r)
    case (Inl ex)
    with Inr that(1) show thesis by blast
  next
    case v: (Inr v)
    with Inr assms have "v \<noteq> VNull" "\<exists>ex. value_get_uint v = Inl ex"
      by (auto simp: convert_def Let_def res_simps split: if_splits)
    with Inr v that(2) show thesis by blast
  qed
qed

lemma fetch_uint_is_get_uint:
  assumes "list_all2 carries mds row" "mysqlx_error_message st = None" "e_cell_error e = ''(null)''"
  shows "get_uint e row i s = (fetch_uint c st (wire_row mds row) i, s)"
proof (cases "i < length row")
  case False
  with assms show ?thesis
    by (simp add: get_uint_def fetch_uint_def wire_row_def mysqlx_get_uint_def get_number_def
        new_row_def col_count_def is_ok_simps fail_with_def list_all2_lengthD)
next
  case i: True
  then have len: "i < length mds" and car: "carries (mds ! i) (row ! i)"
    using assms(1) by (auto simp: list_all2_conv_all_nth)
  show ?thesis
  proof (cases "row ! i")
    case (CUint n)
    then have "wire_data row i = Some (write_varint64 n)" and "int_md True (mds ! i)"
      using i car by (simp_all add: wire_data_nth)
    from get_number_fresh [where data = "wire_data row", OF len this(1) write_not_nil convert_integer(1) [OF this(2)]]
    show ?thesis
      using CUint i by (simp add: get_uint_def fetch_uint_def wire_row_def mysqlx_get_uint_def is_ok_simps ret_def)
  next
    case (CBytes b)
    then have d: "wire_data row i = Some (bytes_of b @ [0])"
      and t: "cursor_type (mds ! i) = TString \<or> cursor_type (mds ! i) = TBytes"
      using i car by (simp_all add: wire_data_nth)
    show ?thesis
      by (rule text_is_no_number [OF t, of c "bytes_of b @ [0]"];
          use CBytes i len d assms(2,3) in \<open>simp add: get_uint_def fetch_uint_def wire_row_def
            mysqlx_get_uint_def get_number_def row_get_def convert_at_def new_row_def col_count_def
            is_ok_simps fail_with_def\<close>)
  next
    case CNull
    then show ?thesis
      using i len assms(2,3)
      by (auto simp: get_uint_def fetch_uint_def wire_row_def mysqlx_get_uint_def get_number_def wire_data_nth
          row_get_def convert_at_def new_row_def col_count_def is_ok_simps fail_with_def)
  qed
qed

lemma fetch_flag_is_get_flag:
  assumes "list_all2 carries mds row" "mysqlx_error_message st = None" "e_cell_error e = ''(null)''"
    and "length buffer = 5" "i < length row \<Longrightarrow> \<forall>n. row ! i \<noteq> CUint n"
  shows "get_flag e row i s = (fetch_flag st buffer (wire_row mds row) i, s)"
proof (cases "i < length row")
  case False
  with assms show ?thesis
    by (simp add: get_flag_def fetch_flag_def wire_row_def mysqlx_get_bytes_def
        new_row_def col_count_def is_ok_simps fail_with_def list_all2_lengthD)
next
  case i: True
  then have len: "i < length mds"
    using assms(1) by (auto simp: list_all2_conv_all_nth)
  show ?thesis
  proof (cases "row ! i")
    case (CUint n)
    with assms(5) i show ?thesis by simp
  next
    case (CBytes b)
    then have d: "wire_data row i = Some (bytes_of b @ [0])"
      using i by (simp add: wire_data_nth)
    show ?thesis
    proof (cases "length b < 4")
      case True
      then show ?thesis
        using CBytes i len d assms(4)
        by (cases b) (auto simp: get_flag_def fetch_flag_def wire_row_def mysqlx_get_bytes_def row_get_bytes_def
            new_row_def col_count_def is_ok_simps ret_def bytes_of_def blit_def of_char_one)
    next
      case False
      then show ?thesis
        using CBytes i len d assms(2-4)
        by (auto simp: get_flag_def fetch_flag_def wire_row_def mysqlx_get_bytes_def row_get_bytes_def
            new_row_def col_count_def is_ok_simps fail_with_def bytes_of_def blit_def)
    qed
  next
    case CNull
    then show ?thesis
      using i len assms(2-4)
      by (auto simp: get_flag_def fetch_flag_def wire_row_def mysqlx_get_bytes_def row_get_bytes_def wire_data_nth
          new_row_def col_count_def is_ok_simps fail_with_def)
  qed
qed

text \<open>
  C13: Through the library the scraper reads the cells its model reads: the integer columns and the
  flags, null, texts that are no numbers and columns that are not there included. The message of
  the exception is the statement's, which has none: the library leaves the reason in the row.
\<close>

theorem library_reads_cells:
  assumes "list_all2 carries mds row" "mysqlx_error_message st = None" "e_cell_error e = ''(null)''"
    and "length buffer = 5"
  shows "get_uint e row i s = (fetch_uint c st (wire_row mds row) i, s) \<and>
    (i < length row \<and> (\<exists>n. row ! i = CUint n) \<or>
     get_flag e row i s = (fetch_flag st buffer (wire_row mds row) i, s))"
  using fetch_uint_is_get_uint [OF assms(1-3)] fetch_flag_is_get_flag [OF assms]
  by blast

theorem library_reads_cells_witness:
  "\<forall>(e :: nat henv) c s.
     get_uint (e\<lparr>e_cell_error := ''(null)''\<rparr>) [CUint 7, CNull] 1 s =
       (fetch_uint c no_error (wire_row two_columns [CUint 7, CNull]) 1, s) \<and>
     (1 < length [CUint 7, CNull] \<and> (\<exists>n. [CUint 7, CNull] ! 1 = CUint n) \<or>
      get_flag (e\<lparr>e_cell_error := ''(null)''\<rparr>) [CUint 7, CNull] 1 s =
       (fetch_flag no_error [0, 0, 0, 0, 0] (wire_row two_columns [CUint 7, CNull]) 1, s))"
  by (intro allI library_reads_cells)
    (simp_all add: two_columns_def int_md_def mysqlx_error_message_def get_error_def error_message_def no_error_def)

end
