(* ===== verification/XReply.thy ===== *)
theory XReply
  imports XRow
begin

section \<open>Reading a server's reply (cdk/protocol/mysqlx/rset.cc, cdk/mysqlx/result.cc, common/result.cc)\<close>

text \<open>
  Three layers of the connector take a reply apart. \<open>Rcv_result\<close> checks the sequence of messages, in
  stages: meta-data, rows, final packet. \<open>Stmt_op\<close> and its \<open>Cursor\<close> run these stages on demand.
  \<open>Result_impl\<close> reads rows ahead into a cache, 16 at a time, and can be told to take everything that
  is left off the connection when another statement wants to use it.

  The bytes are already cut into messages here; notices, which may come at any moment and carry
  warnings, are left out. A call that waits for a message which never comes does not return.
\<close>

datatype msg =
    MOk
  | MColumn col_metadata
  | MRow "byte list list"
  | MFetchDone
  | MFetchMore
  | MExecOk
  | MError xexn

subsection \<open>The sequence of messages (Rcv_result)\<close>

datatype rstate = RStart | RMdata | RRows | RClose | RDone

datatype verdict = Expected | Stop | Unexpected

text \<open>
  \<open>next_msg\<close> and \<open>do_next_msg\<close>: what to do with a message, by the state and the number of columns
  seen, the state after it, and whether the stage ends with it. \<open>Stop\<close> leaves the message to the
  next stage. An error ends the operation (\<open>process_msg\<close>).
\<close>

fun mdata_next_msg :: "nat \<Rightarrow> msg \<Rightarrow> verdict \<times> rstate \<times> bool" where
  "mdata_next_msg ccount (MColumn c) = (Expected, RMdata, False)"
| "mdata_next_msg ccount (MRow r) =
     (if ccount = 0 then (Unexpected, RMdata, False) else (Stop, RRows, True))"
| "mdata_next_msg ccount MFetchDone =
     (if ccount = 0 then (Expected, RClose, True) else (Stop, RRows, True))"
| "mdata_next_msg ccount MFetchMore =
     (if ccount = 0 then (Expected, RMdata, True) else (Stop, RRows, True))"
| "mdata_next_msg ccount MExecOk =
     (if ccount > 0 then (Unexpected, RMdata, False) else (Stop, RClose, True))"
| "mdata_next_msg ccount (MError e) = (Expected, RDone, True)"
| "mdata_next_msg ccount MOk = (Unexpected, RMdata, False)"

fun next_msg :: "rstate \<Rightarrow> nat \<Rightarrow> msg \<Rightarrow> verdict \<times> rstate \<times> bool" where
  "next_msg RDone ccount m = (Unexpected, RDone, False)"
| "next_msg st ccount (MError e) = (Expected, RDone, True)"
| "next_msg RStart ccount m = (if m = MOk then (Expected, RDone, True) else mdata_next_msg ccount m)"
| "next_msg RMdata ccount m = mdata_next_msg ccount m"
| "next_msg RRows ccount (MRow r) = (Expected, RRows, False)"
| "next_msg RRows ccount MFetchDone = (Expected, RClose, True)"
| "next_msg RRows ccount MFetchMore = (Expected, RMdata, True)"
| "next_msg RRows ccount m = (Unexpected, RRows, False)"
| "next_msg RClose ccount m = (if m = MExecOk then Expected else Unexpected, RDone, True)"

lemma next_msg_stop:
  "next_msg st ccount m = (Stop, st', b) \<Longrightarrow>
   (st = RStart \<or> st = RMdata) \<and> (st' = RRows \<or> st' = RClose)"
  by (cases "(st, ccount, m)" rule: next_msg.cases; cases m) (auto split: if_splits)

text \<open>
  A whole reply, every stage resumed when the one before it has ended: resuming for meta-data
  counts the columns from 0 again.
\<close>

function reads :: "rstate \<Rightarrow> nat \<Rightarrow> msg list \<Rightarrow> bool" where
  "reads st ccount [] \<longleftrightarrow> st = RDone"
| "reads st ccount (m # ms) \<longleftrightarrow>
     (case next_msg st ccount m of
        (Unexpected, _, _) \<Rightarrow> False
      | (Stop, st', _) \<Rightarrow> reads st' ccount (m # ms)
      | (Expected, st', finished) \<Rightarrow>
          reads st' (if finished then 0 else case m of MColumn _ \<Rightarrow> Suc ccount | _ \<Rightarrow> ccount) ms)"
  by pat_completeness auto
termination
  by (relation "measures [\<lambda>(st, _, ms). length ms, \<lambda>(st, _, ms). if st = RStart \<or> st = RMdata then 1 else 0]")
    (auto dest: next_msg_stop [OF sym])

text \<open>
  The grammar the comment over \<open>do_next_msg\<close> gives:
  \<open><reply> ::= (<rset> <more>)? StmtExecuteOk\<close>,
  \<open><more> ::= FetchDone | FetchDoneMoreResultsets <rset>? <more>\<close>, \<open><rset> ::= MetaData+ Row*\<close>.
\<close>

inductive is_rset :: "msg list \<Rightarrow> bool" where
  "cols \<noteq> [] \<Longrightarrow> is_rset (map MColumn cols @ map MRow rows)"

inductive is_more :: "msg list \<Rightarrow> bool" where
  "is_more [MFetchDone]"
| "is_more ms \<Longrightarrow> is_more (MFetchMore # ms)"
| "is_rset rs \<Longrightarrow> is_more ms \<Longrightarrow> is_more (MFetchMore # rs @ ms)"

inductive is_reply :: "msg list \<Rightarrow> bool" where
  "is_reply [MExecOk]"
| "is_rset rs \<Longrightarrow> is_more ms \<Longrightarrow> is_reply (rs @ ms @ [MExecOk])"

text \<open>The language of the machine: the result set and what follows it may be missing everywhere.\<close>

inductive is_rest and is_tail where
  "is_rest [MExecOk]"
| "is_tail t \<Longrightarrow> is_rest t"
| "is_rset rs \<Longrightarrow> is_tail t \<Longrightarrow> is_rest (rs @ t)"
| "is_tail [MFetchDone, MExecOk]"
| "is_rest r \<Longrightarrow> is_tail (MFetchMore # r)"

inductive_cases is_tail_cases: "is_tail ms"

lemma more_is_tail: "is_more ms \<Longrightarrow> is_tail (ms @ [MExecOk])"
  by (induction rule: is_more.induct) (auto intro: is_rest_is_tail.intros)

lemma reply_is_rest: "is_reply ms \<Longrightarrow> is_rest ms"
  by (induction rule: is_reply.induct) (auto intro: is_rest_is_tail.intros more_is_tail)

lemma reads_rows: "reads RRows n (map MRow rows @ t) = reads RRows n t"
  by (induction rows arbitrary: n) auto

lemma reads_columns: "reads RMdata n (map MColumn cols @ t) = reads RMdata (n + length cols) t"
  by (induction cols arbitrary: n) auto

lemma reads_after_columns:
  "n > 0 \<Longrightarrow> is_tail t \<Longrightarrow> reads RMdata n (map MRow rows @ t) = reads RRows n (map MRow rows @ t)"
  by (cases rows) (auto elim: is_tail_cases)

lemma rest_reads: "(is_rest ms \<longrightarrow> reads RMdata 0 ms) \<and> (is_tail ms' \<longrightarrow> (\<forall>n. reads RRows n ms') \<and> reads RMdata 0 ms')"
proof -
  have "(is_rest ms \<longrightarrow> reads RMdata 0 ms) \<and> (is_tail ms' \<longrightarrow> is_tail ms' \<and> (\<forall>n. reads RRows n ms') \<and> reads RMdata 0 ms')"
  proof (induction rule: is_rest_is_tail.induct)
    case (3 rs t)
    then obtain cols rows where rs: "rs = map MColumn cols @ map MRow rows" "cols \<noteq> []"
      by (auto elim: is_rset.cases)
    with 3 show ?case
      by (simp add: reads_columns reads_after_columns reads_rows)
  qed (auto intro: is_rest_is_tail.intros)
  then show ?thesis by blast
qed

text \<open>What a state can still read, errors apart.\<close>

fun expects :: "rstate \<Rightarrow> nat \<Rightarrow> msg list \<Rightarrow> bool" where
  "expects RDone n ms \<longleftrightarrow> ms = []"
| "expects RClose n ms \<longleftrightarrow> ms = [MExecOk]"
| "expects RRows n ms \<longleftrightarrow> (\<exists>rows t. ms = map MRow rows @ t \<and> is_tail t)"
| "expects RMdata 0 ms \<longleftrightarrow> is_rest ms"
| "expects RMdata (Suc n) ms \<longleftrightarrow>
     (\<exists>cols rows t. ms = map MColumn cols @ map MRow rows @ t \<and> is_tail t)"
| "expects RStart 0 ms \<longleftrightarrow> ms = [MOk] \<or> is_rest ms"
| "expects RStart (Suc n) ms \<longleftrightarrow> True"

lemma rest_columns:
  "is_tail t \<Longrightarrow> is_rest (MColumn c # map MColumn cols @ map MRow rows @ t)"
  using is_rest_is_tail.intros(3) [OF is_rset.intros [of "c # cols" rows]] by simp

lemma expects_columns:
  assumes "expects RMdata (Suc n) ms"
  shows "expects RMdata n (MColumn c # ms)" "expects RStart 0 (MColumn c # ms)"
proof -
  from assms obtain cols rows t where ms: "ms = map MColumn cols @ map MRow rows @ t" "is_tail t" by auto
  then have "MColumn c # ms = map MColumn (c # cols) @ map MRow rows @ t" by simp
  with ms show "expects RMdata n (MColumn c # ms)" "expects RStart 0 (MColumn c # ms)"
    by (cases n; auto intro: rest_columns simp del: map_append list.map; metis list.simps(9))+
qed

lemma expects_rows:
  assumes "expects RRows n ms"
  shows "expects RMdata (Suc k) ms" "expects RRows k (MRow r # ms)"
proof -
  from assms obtain rows t where ms: "ms = map MRow rows @ t" "is_tail t" by auto
  then have "ms = map MColumn [] @ map MRow rows @ t" "MRow r # ms = map MRow (r # rows) @ t" by simp_all
  with ms(2) show "expects RMdata (Suc k) ms" "expects RRows k (MRow r # ms)"
    unfolding expects.simps by blast+
qed

lemma expects_tail:
  "expects RClose n ms \<Longrightarrow> expects RRows k (MFetchDone # ms)"
  "expects RMdata 0 ms \<Longrightarrow> expects RRows k (MFetchMore # ms)"
  using is_rest_is_tail.intros(4,5) by (simp_all, metis append_Nil list.map(1))+

lemma reads_expects:
  "reads st n ms \<Longrightarrow> \<forall>e. MError e \<notin> set ms \<Longrightarrow> expects st n ms"
proof (induction st n ms rule: reads.induct)
  case (1 st n)
  then show ?case by simp
next
  case (2 st n m ms)
  obtain v st' fin where nx: "next_msg st n m = (v, st', fin)" by (cases "next_msg st n m")
  show ?case
  proof (cases v)
    case Unexpected
    with 2 nx show ?thesis by simp
  next
    case Stop
    with 2 nx have "expects st' n (m # ms)" by auto
    with Stop nx show ?thesis
      by (cases "(st, n, m)" rule: next_msg.cases; cases m; cases n)
        (auto split: if_splits intro: is_rest_is_tail.intros simp del: expects.simps(3,5)
          intro: expects_rows(1))
  next
    case Expected
    with 2 nx have "expects st' (if fin then 0 else case m of MColumn _ \<Rightarrow> Suc n | _ \<Rightarrow> n) ms" by auto
    with Expected nx 2(4) show ?thesis
      using expects_columns(1) [of 0 ms]
      by (cases "(st, n, m)" rule: next_msg.cases; cases m; cases n)
        (auto split: if_splits simp del: expects.simps(3,5)
          intro: is_rest_is_tail.intros expects_columns expects_rows(2) expects_tail)
  qed
qed

lemma rest_head: "(is_rest ms \<longrightarrow> ms \<noteq> [] \<and> hd ms \<noteq> MOk) \<and> (is_tail t \<longrightarrow> t \<noteq> [] \<and> hd t \<noteq> MOk)"
  by (induction rule: is_rest_is_tail.induct) (auto elim!: is_rset.cases simp: hd_append neq_Nil_conv)

lemma more_last: "is_more ms \<Longrightarrow> ms \<noteq> [] \<and> last ms = MFetchDone \<and> (\<forall>e. MError e \<notin> set ms)"
  by (induction rule: is_more.induct) (auto elim!: is_rset.cases)

lemma reply_last: "is_reply ms \<Longrightarrow> ms = [MExecOk] \<or> last (butlast ms) = MFetchDone"
  by (auto elim!: is_reply.cases dest!: more_last simp: butlast_append last_append)

lemma reads_start: "\<forall>e. MError e \<notin> set ms \<Longrightarrow> reads RStart 0 ms \<longleftrightarrow> ms = [MOk] \<or> is_rest ms"
proof
  assume "\<forall>e. MError e \<notin> set ms" "reads RStart 0 ms"
  then show "ms = [MOk] \<or> is_rest ms" using reads_expects by force
next
  assume "ms = [MOk] \<or> is_rest ms"
  then show "reads RStart 0 ms"
  proof
    assume r: "is_rest ms"
    with rest_head [of ms] obtain m ms' where ms: "ms = m # ms'" and "m \<noteq> MOk"
      by (cases ms) auto
    with r rest_reads [of ms] show ?thesis by (cases m) (auto simp: ms)
  qed simp
qed

subsection \<open>Properties of the sequence\<close>

text \<open>
  C39: The state machine that checks a server's reply accepts every reply of the grammar written
  over it. It accepts more: without errors, exactly the bare acknowledgement and the replies in
  which result sets, and what follows \<open>FetchDoneMoreResultsets\<close>, may be missing.
\<close>

theorem reply_grammar:
  "(is_reply ms \<longrightarrow> reads RStart 0 ms) \<and>
   ((\<forall>e. MError e \<notin> set ms) \<longrightarrow> (reads RStart 0 ms \<longleftrightarrow> ms = [MOk] \<or> is_rest ms)) \<and>
   reads RStart 0 [MColumn c, MFetchMore, MExecOk] \<and> \<not> is_reply [MColumn c, MFetchMore, MExecOk]"
proof (intro conjI impI)
  show "reads RStart 0 ms" if "is_reply ms"
  proof -
    have "\<forall>e. MError e \<notin> set ms"
      using that by (induction rule: is_reply.induct) (auto elim!: is_rset.cases dest: more_last)
    with reads_start reply_is_rest [OF that] show ?thesis by blast
  qed
  show "reads RStart 0 ms \<longleftrightarrow> ms = [MOk] \<or> is_rest ms" if "\<forall>e. MError e \<notin> set ms"
    by (rule reads_start [OF that])
  show "\<not> is_reply [MColumn c, MFetchMore, MExecOk]"
    using reply_last [of "[MColumn c, MFetchMore, MExecOk]"] by auto
qed simp

theorem reply_grammar_witness:
  "is_reply [MExecOk] \<and> reads RStart 0 [MExecOk] \<and> is_rest [MExecOk]"
  using reply_grammar [of "[MExecOk]" undefined] by (simp add: is_reply.intros)

end
