(* ===== verification/XResult.thy ===== *)
theory XResult
  imports XReply
begin

section \<open>Results and their row cache (cdk/mysqlx/result.cc, common/result)\<close>

text \<open>
  \<open>Stmt_op\<close> and its \<open>Cursor\<close> run the stages of \<open>XReply\<close> on demand; \<open>Result_impl\<close> reads rows ahead into
  a queue of caches, one for each result set: 16 at a time for its own caller, or everything that
  is left when another statement wants to use the connection (\<open>store_all_results\<close>).

  One record holds the three objects, which are created and destroyed together. An operation gives
  a value or a fault and the new state; \<open>None\<close> is a call that waits for a message that never comes.
\<close>

subsection \<open>State\<close>

datatype xfault =
  ServerError xexn | UnexpectedMessage | IncorrectResume | ClosedCursor | NoResults

type_synonym row_data = "nat \<Rightarrow> byte list option"

datatype sstate = SMdata | SRows | SDiscard | SNext | SFinish | SDone | SError

record cursor =
  cu_open :: bool
  cu_more_rows :: bool

record res =
  so_state :: sstate
  so_rcv :: rstate
  so_msgs :: "msg list"
  so_cols :: "col_metadata list"
  so_errors :: "xexn list"
  m_cursor :: "cursor option"
  m_result_mdata :: "col_metadata list list"
  m_result_cache :: "row_data list list"
  m_pending_rows :: bool
  m_inited :: bool
  is_current :: bool

type_synonym 'a rop = "res \<Rightarrow> ((xfault + 'a) \<times> res) option"

definition rret :: "'a \<Rightarrow> 'a rop" where
  "rret x s = Some (Inr x, s)"

definition rthrow :: "xfault \<Rightarrow> 'a rop" where
  "rthrow e s = Some (Inl e, s)"

definition rbind :: "'a rop \<Rightarrow> ('a \<Rightarrow> 'b rop) \<Rightarrow> 'b rop" where
  "rbind m f s =
     (case m s of None \<Rightarrow> None | Some (Inl e, t) \<Rightarrow> Some (Inl e, t) | Some (Inr x, t) \<Rightarrow> f x t)"

definition rput :: "(res \<Rightarrow> res) \<Rightarrow> unit rop" where
  "rput f s = Some (Inr (), f s)"

definition rget :: "(res \<Rightarrow> 'a) \<Rightarrow> 'a rop" where
  "rget f s = Some (Inr (f s), s)"

text \<open>\<open>m_reply->get_error().rethrow()\<close> of the first error.\<close>

definition rethrow_error :: "'a rop" where
  "rethrow_error s = (case so_errors s of [] \<Rightarrow> Some (Inl NoResults, s) | e # _ \<Rightarrow> Some (Inl (ServerError e), s))"

subsection \<open>Stages\<close>

datatype 'a stage = Ended 'a rstate "msg list" | Errored 'a xexn "msg list" | BadMsg 'a | Waiting

fun mdata_stage :: "rstate \<Rightarrow> col_metadata list \<Rightarrow> msg list \<Rightarrow> col_metadata list stage" where
  "mdata_stage st cols [] = Waiting"
| "mdata_stage st cols (m # ms) =
     (case next_msg st (length cols) m of
        (Unexpected, _, _) \<Rightarrow> BadMsg cols
      | (Stop, st', _) \<Rightarrow> Ended cols st' (m # ms)
      | (Expected, st', _) \<Rightarrow>
          (case m of
             MColumn c \<Rightarrow> mdata_stage st' (cols @ [c]) ms
           | MError e \<Rightarrow> Errored cols e ms
           | _ \<Rightarrow> Ended cols st' ms))"

text \<open>\<open>process_msg_with(Row)\<close>: a field without bytes is null; \<open>field_data\<close> takes a field in one piece.\<close>

definition fields :: "byte list list \<Rightarrow> row_data" where
  "fields r = (\<lambda>i. if i < length r \<and> r ! i \<noteq> [] then Some (r ! i) else None)"

text \<open>
  Rows up to a limit: \<open>Cursor::message_end\<close> stops the stage after the last row asked for,
  \<open>Cursor::done\<close> learns the end of the data and whether another result set follows.
\<close>

fun rows_stage ::
  "nat option \<Rightarrow> row_data list \<Rightarrow> msg list \<Rightarrow> (row_data list \<times> bool \<times> bool) stage" where
  "rows_stage limit rows [] = Waiting"
| "rows_stage limit rows (m # ms) =
     (case next_msg RRows 0 m of
        (Expected, st', _) \<Rightarrow>
          (case m of
             MRow r \<Rightarrow>
               if limit = Some 1 then Ended (rows @ [fields r], False, False) RRows ms
               else rows_stage (map_option (\<lambda>n. n - 1) limit) (rows @ [fields r]) ms
           | MError e \<Rightarrow> Errored (rows, False, False) e ms
           | _ \<Rightarrow> Ended (rows, True, m = MFetchMore) st' ms)
      | _ \<Rightarrow> BadMsg (rows, False, False))"

subsection \<open>Stmt_op\<close>

definition stmt_error :: "xexn \<Rightarrow> msg list \<Rightarrow> res \<Rightarrow> res" where
  "stmt_error e ms s = s\<lparr>so_state := SError, so_errors := so_errors s @ [e], so_rcv := RDone, so_msgs := ms\<rparr>"

definition stmt_fault :: "xfault \<Rightarrow> 'a rop" where
  "stmt_fault f s = Some (Inl f, s\<lparr>so_state := SError\<rparr>)"

text \<open>State \<open>FINISH\<close>: the closing packet.\<close>

definition stmt_finish :: "unit rop" where
  "stmt_finish s =
     (if so_rcv s \<noteq> RClose then stmt_fault IncorrectResume s
      else case so_msgs s of
        [] \<Rightarrow> None
      | m # ms \<Rightarrow>
          (case next_msg RClose 0 m of
             (Expected, st', _) \<Rightarrow>
               (case m of
                  MError e \<Rightarrow> Some (Inr (), stmt_error e ms s)
                | _ \<Rightarrow> Some (Inr (), s\<lparr>so_state := SDone, so_rcv := st', so_msgs := ms\<rparr>))
           | _ \<Rightarrow> stmt_fault UnexpectedMessage s))"

text \<open>State \<open>MDATA\<close>: with columns there are rows to come, without the reply is finished.\<close>

definition stmt_mdata :: "unit rop" where
  "stmt_mdata s =
     (if so_rcv s \<noteq> RStart \<and> so_rcv s \<noteq> RMdata then stmt_fault IncorrectResume s
      else case mdata_stage (so_rcv s) [] (so_msgs s) of
        Ended cols st ms \<Rightarrow>
          (let s = s\<lparr>so_cols := cols, so_rcv := st, so_msgs := ms\<rparr> in
           if cols \<noteq> [] then Some (Inr (), s\<lparr>so_state := SRows\<rparr>)
           else stmt_finish (s\<lparr>so_state := SFinish\<rparr>))
      | Errored cols e ms \<Rightarrow> Some (Inr (), stmt_error e ms (s\<lparr>so_cols := cols\<rparr>))
      | BadMsg cols \<Rightarrow> stmt_fault UnexpectedMessage (s\<lparr>so_cols := cols\<rparr>)
      | Waiting \<Rightarrow> None)"

text \<open>State \<open>DISCARD\<close>: \<open>row_begin\<close> skips every row.\<close>

definition stmt_discard :: "unit rop" where
  "stmt_discard s =
     (if so_rcv s \<noteq> RRows then stmt_fault IncorrectResume s
      else case rows_stage None [] (so_msgs s) of
        Ended (_, _, another) st ms \<Rightarrow>
          (let s = s\<lparr>so_rcv := st, so_msgs := ms\<rparr> in
           if another then Some (Inr (), s\<lparr>so_state := SNext\<rparr>) else stmt_finish (s\<lparr>so_state := SFinish\<rparr>))
      | Errored _ e ms \<Rightarrow> Some (Inr (), stmt_error e ms s)
      | BadMsg _ \<Rightarrow> stmt_fault UnexpectedMessage s
      | Waiting \<Rightarrow> None)"

definition stmt_wait :: "unit rop" where
  "stmt_wait s =
     (case so_state s of
        SMdata \<Rightarrow> stmt_mdata s
      | SDiscard \<Rightarrow> stmt_discard s
      | SFinish \<Rightarrow> stmt_finish s
      | _ \<Rightarrow> Some (Inr (), s))"

definition check_results :: "bool rop" where
  "check_results = rbind stmt_wait (\<lambda>_. rget (\<lambda>s. so_state s = SRows \<or> so_state s = SNext))"

definition next_rset :: "bool rop" where
  "next_rset = rbind check_results (\<lambda>_ s.
     if so_state s \<noteq> SNext then Some (Inr False, s)
     else rbind stmt_wait (\<lambda>_. rget (\<lambda>s. so_state s = SRows)) (s\<lparr>so_state := SMdata\<rparr>))"

definition has_results :: "bool rop" where
  "has_results = rbind next_rset (\<lambda>b. if b then rret True else check_results)"

definition end_of_reply :: "bool rop" where
  "end_of_reply = rbind check_results (\<lambda>b. rret (\<not> b))"

definition discard_result :: "unit rop" where
  "discard_result s =
     (if so_state s = SError then Some (Inr (), s)
      else rbind stmt_wait (\<lambda>_. rput (\<lambda>s. if so_state s = SRows then s\<lparr>so_state := SDiscard\<rparr> else s)) s)"

subsection \<open>Cursor\<close>

definition cursor_new :: "unit rop" where
  "cursor_new =
     rbind stmt_wait (\<lambda>_ s.
       if so_errors s \<noteq> [] then rethrow_error s
       else rbind has_results (\<lambda>b.
         if b then rput (\<lambda>s. s\<lparr>m_cursor := Some \<lparr>cu_open = True, cu_more_rows = True\<rparr>\<rparr>)
         else rthrow NoResults) s)"

definition append_rows :: "row_data list \<Rightarrow> res \<Rightarrow> res" where
  "append_rows rows s =
     s\<lparr>m_result_cache := butlast (m_result_cache s) @ [last (m_result_cache s) @ rows]\<rparr>"

definition set_more :: "bool \<Rightarrow> res \<Rightarrow> res" where
  "set_more b s = s\<lparr>m_cursor := map_option (\<lambda>c. c\<lparr>cu_more_rows := b\<rparr>) (m_cursor s)\<rparr>"

text \<open>\<open>get_rows\<close> and the wait for it; the rows go to the last cache, \<open>end_of_data\<close> clears \<open>m_pending_rows\<close>.\<close>

definition cursor_get_rows :: "nat option \<Rightarrow> cursor \<Rightarrow> unit rop" where
  "cursor_get_rows limit cu s =
     (if \<not> cu_open cu then rthrow ClosedCursor s
      else if \<not> cu_more_rows cu then Some (Inr (), s\<lparr>m_pending_rows := False\<rparr>)
      else if so_rcv s \<noteq> RRows then rthrow IncorrectResume s
      else case rows_stage limit [] (so_msgs s) of
        Ended (rows, eod, another) st ms \<Rightarrow>
          (let s = set_more (\<not> eod) (append_rows rows (s\<lparr>so_rcv := st, so_msgs := ms\<rparr>)) in
           Some (Inr (), if eod then s\<lparr>m_pending_rows := False, so_state := (if another then SNext else SFinish)\<rparr>
                         else s))
      | Errored (rows, _, _) e ms \<Rightarrow> Some (Inr (), set_more False (stmt_error e ms (append_rows rows s)))
      | BadMsg (rows, _, _) \<Rightarrow> rthrow UnexpectedMessage (append_rows rows s)
      | Waiting \<Rightarrow> None)"

definition cursor_close :: "unit rop" where
  "cursor_close s =
     (case m_cursor s of
        None \<Rightarrow> Some (Inr (), s)
      | Some cu \<Rightarrow>
          if cu_open cu
          then rbind discard_result (\<lambda>_. rput (\<lambda>s. s\<lparr>m_cursor := Some (cu\<lparr>cu_open := False\<rparr>)\<rparr>)) s
          else Some (Inr (), s))"

subsection \<open>Result_impl\<close>

definition deregister_result :: "unit rop" where
  "deregister_result = rput (\<lambda>s. s\<lparr>is_current := False\<rparr>)"

definition pop_row_cache :: "unit rop" where
  "pop_row_cache = rput (\<lambda>s. s\<lparr>m_result_mdata := tl (m_result_mdata s), m_result_cache := tl (m_result_cache s)\<rparr>)"

definition push_row_cache :: "unit rop" where
  "push_row_cache = rput (\<lambda>s. s\<lparr>m_result_mdata := m_result_mdata s @ [so_cols s],
     m_result_cache := m_result_cache s @ [[]]\<rparr>)"

definition read_next_result :: "bool rop" where
  "read_next_result s =
     rbind (\<lambda>s. if m_pending_rows s then cursor_close s else Some (Inr (), s)) (\<lambda>_.
     rbind (rput (\<lambda>s. s\<lparr>m_cursor := None, m_pending_rows := False, m_inited := True\<rparr>)) (\<lambda>_.
     rbind has_results (\<lambda>b.
       if \<not> b then (\<lambda>s. if so_errors s \<noteq> [] then rethrow_error s
                        else rbind deregister_result (\<lambda>_. rret False) s)
       else rbind cursor_new (\<lambda>_. rbind stmt_wait (\<lambda>_.
            rbind (rput (\<lambda>s. s\<lparr>m_pending_rows := True\<rparr>)) (\<lambda>_.
            rbind push_row_cache (\<lambda>_. rret True))))))) s"

definition next_result :: "bool rop" where
  "next_result = rbind pop_row_cache (\<lambda>_ s.
     if m_result_cache s \<noteq> [] then Some (Inr True, s) else read_next_result s)"

text \<open>\<open>load_cache\<close>; a limit of 0 (\<open>None\<close>) reads all remaining rows.\<close>

definition load_cache :: "nat option \<Rightarrow> bool rop" where
  "load_cache prefetch =
     rbind (\<lambda>s. if m_inited s then Some (Inr False, s) else next_result s) (\<lambda>_ s.
       if m_result_cache s = [] then Some (Inr False, s)
       else if last (m_result_cache s) \<noteq> [] \<and> prefetch \<noteq> None then Some (Inr True, s)
       else if \<not> m_pending_rows s then Some (Inr False, s)
       else case m_cursor s of
         None \<Rightarrow> rthrow ClosedCursor s
       | Some cu \<Rightarrow>
           rbind (cursor_get_rows prefetch cu) (\<lambda>_.
           rbind (\<lambda>s. if \<not> m_pending_rows s \<or> so_errors s \<noteq> [] then
               rbind cursor_close (\<lambda>_.
               rbind (rput (\<lambda>s. s\<lparr>m_pending_rows := False\<rparr>)) (\<lambda>_.
               rbind end_of_reply (\<lambda>b. if b then deregister_result else rret ()))) s
             else Some (Inr (), s)) (\<lambda>_.
           rget (\<lambda>s. last (m_result_cache s) \<noteq> []))) s)"

text \<open>\<open>get_row\<close>: the next row of the front cache, or \<open>None\<close> after the last one.\<close>

definition get_row :: "row_data option rop" where
  "get_row = rbind (load_cache (Some 16)) (\<lambda>_ s.
     case m_result_cache s of
       (row # rows) # caches \<Rightarrow> Some (Inr (Some row), s\<lparr>m_result_cache := rows # caches\<rparr>)
     | _ \<Rightarrow> if so_errors s \<noteq> [] then rethrow_error s else Some (Inr None, s))"

text \<open>\<open>store_all_results\<close>: \<open>do { store(); } while (read_next_result());\<close>.\<close>

partial_function (option) store_all_results :: "res \<Rightarrow> ((xfault + unit) \<times> res) option" where
  "store_all_results s =
     (case load_cache None s of
        None \<Rightarrow> None
      | Some (Inl e, t) \<Rightarrow> Some (Inl e, t)
      | Some (Inr _, t) \<Rightarrow>
          (case read_next_result t of
             None \<Rightarrow> None
           | Some (Inl e, u) \<Rightarrow> Some (Inl e, u)
           | Some (Inr another, u) \<Rightarrow> if another then store_all_results u else Some (Inr (), u)))"

declare store_all_results.simps [code]

text \<open>\<open>count\<close>: the rows of the front cache once everything is loaded.\<close>

definition count_rows :: "nat rop" where
  "count_rows = rbind (load_cache None) (\<lambda>_ s.
     if so_errors s \<noteq> [] then rethrow_error s
     else Some (Inr (case m_result_cache s of [] \<Rightarrow> 0 | c # _ \<Rightarrow> length c), s))"

text \<open>
  The constructors: \<open>Result_impl\<close> registers the result with its session, \<open>mysqlx_result_struct\<close> goes
  to the first result set. The reply has been waited for (\<open>Op_base::wait\<close>).
\<close>

definition new_reply :: "msg list \<Rightarrow> res" where
  "new_reply ms =
     \<lparr>so_state = SMdata, so_rcv = RStart, so_msgs = ms, so_cols = [], so_errors = [], m_cursor = None,
      m_result_mdata = [], m_result_cache = [], m_pending_rows = False, m_inited = False,
      is_current = False\<rparr>"

definition result_new :: "unit rop" where
  "result_new = rbind (rput (\<lambda>s. s\<lparr>is_current := True\<rparr>)) (\<lambda>_. rbind next_result (\<lambda>_. rret ()))"

end
