(* ===== verification/XStream.thy ===== *)
theory XStream
  imports XResult
begin

section \<open>What a client sees of a reply\<close>

text \<open>
  A reply is a sequence of result sets, each with its columns and rows. To a client it is a list of
  the result sets that are left: it takes rows off the first one (\<open>read_row\<close>), moves to the next one
  (\<open>next_result\<close>), and meanwhile other statements run on the same connection, which makes the session
  store everything that is still on the wire (\<open>store_all_results\<close>). The theorem is that the three
  layers implement this list, whatever the order of the calls.
\<close>

subsection \<open>The reply on the wire\<close>

type_synonym wire_set = "col_metadata list \<times> byte list list list"

type_synonym row_set = "col_metadata list \<times> row_data list"

abbreviation row_set :: "wire_set \<Rightarrow> row_set" where
  "row_set \<equiv> map_prod id (map fields)"

fun wire_sets :: "wire_set list \<Rightarrow> msg list" where
  "wire_sets [] = [MExecOk]"
| "wire_sets [(cols, rows)] = map MColumn cols @ map MRow rows @ [MFetchDone, MExecOk]"
| "wire_sets ((cols, rows) # sets) = map MColumn cols @ map MRow rows @ MFetchMore # wire_sets sets"

text \<open>What follows the rows of a result set when the sets \<open>sets\<close> follow it.\<close>

definition after_rows :: "wire_set list \<Rightarrow> msg list" where
  "after_rows sets = (if sets = [] then [MFetchDone, MExecOk] else MFetchMore # wire_sets sets)"

lemma wire_sets_Cons: "wire_sets ((cols, rows) # sets) = map MColumn cols @ map MRow rows @ after_rows sets"
  by (cases sets) (auto simp: after_rows_def)

definition all_have_columns :: "wire_set list \<Rightarrow> bool" where
  "all_have_columns sets = list_all (\<lambda>(cols, _). cols \<noteq> []) sets"

subsection \<open>The client's calls\<close>

datatype rcall = FetchRow | NextResult | OtherStatement

datatype ranswer = Row "col_metadata list" row_data | NoRow | Another bool | OtherRuns bool

text \<open>
  The reply of another statement is read once this one's is processed: as long as \<open>check_results\<close> finds
  a result set, waiting for it fails with \<open>Reply blocked by a previous one\<close> (\<open>Stmt_op::do_wait\<close>).
  \<open>mysqlx_result_struct::read_row\<close>: the row with the meta-data of its result set.\<close>

definition read_row :: "ranswer rop" where
  "read_row = rbind get_row (\<lambda>r. case r of
     None \<Rightarrow> rret NoRow
   | Some row \<Rightarrow> rget (\<lambda>s. Row (hd (m_result_mdata s)) row))"

definition do_call :: "rcall \<Rightarrow> ranswer rop" where
  "do_call k =
     (case k of
        FetchRow \<Rightarrow> read_row
      | NextResult \<Rightarrow> rbind next_result (\<lambda>b. rret (Another b))
      | OtherStatement \<Rightarrow> rbind store_all_results (\<lambda>_.
          rbind check_results (\<lambda>pending. rret (OtherRuns (\<not> pending)))))"

fun do_calls :: "rcall list \<Rightarrow> ranswer list rop" where
  "do_calls [] = rret []"
| "do_calls (k # ks) = rbind (do_call k) (\<lambda>a. rbind (do_calls ks) (\<lambda>as. rret (a # as)))"

text \<open>The same calls on the list of result sets.\<close>

fun list_call :: "rcall \<Rightarrow> row_set list \<Rightarrow> ranswer \<times> row_set list" where
  "list_call FetchRow ((cols, row # rows) # sets) = (Row cols row, (cols, rows) # sets)"
| "list_call FetchRow sets = (NoRow, sets)"
| "list_call NextResult sets = (Another (tl sets \<noteq> []), tl sets)"
| "list_call OtherStatement sets = (OtherRuns True, sets)"

fun list_calls :: "rcall list \<Rightarrow> row_set list \<Rightarrow> ranswer list" where
  "list_calls [] sets = []"
| "list_calls (k # ks) sets = (case list_call k sets of (a, sets') \<Rightarrow> a # list_calls ks sets')"

subsection \<open>Where the reader can be\<close>

text \<open>
  Reading the rows of a set (\<open>c\<close> cached, \<open>u\<close> on the wire), between two sets, or done with the reply
  with every remaining set in the cache; \<open>A\<close> are the sets cached before.
\<close>

definition quiet :: "res \<Rightarrow> bool" where
  "quiet s \<longleftrightarrow> so_errors s = [] \<and> m_inited s"

definition cached :: "row_set list \<Rightarrow> res \<Rightarrow> bool" where
  "cached A s \<longleftrightarrow> m_result_mdata s = map fst A \<and> m_result_cache s = map snd A"

definition reading ::
  "row_set list \<Rightarrow> row_set \<Rightarrow> byte list list list \<Rightarrow> wire_set list \<Rightarrow> res \<Rightarrow> bool" where
  "reading A rs u sets s \<longleftrightarrow> quiet s \<and> cached (A @ [rs]) s \<and> m_pending_rows s \<and>
     m_cursor s = Some \<lparr>cu_open = True, cu_more_rows = True\<rparr> \<and>
     so_state s = SRows \<and> so_rcv s = RRows \<and> so_msgs s = map MRow u @ after_rows sets \<and> is_current s"

definition between :: "row_set list \<Rightarrow> row_set \<Rightarrow> wire_set list \<Rightarrow> res \<Rightarrow> bool" where
  "between A rs sets s \<longleftrightarrow> quiet s \<and> cached (A @ [rs]) s \<and> \<not> m_pending_rows s \<and>
     so_state s = SNext \<and> so_rcv s = RMdata \<and> sets \<noteq> [] \<and> so_msgs s = wire_sets sets \<and> is_current s"

definition finished :: "row_set list \<Rightarrow> res \<Rightarrow> bool" where
  "finished A s \<longleftrightarrow> quiet s \<and> cached A s \<and> \<not> m_pending_rows s \<and> so_state s = SDone \<and> \<not> is_current s"

definition offers :: "row_set list \<Rightarrow> res \<Rightarrow> bool" where
  "offers A s \<longleftrightarrow> finished A s \<or>
     (\<exists>rs sets. all_have_columns sets \<and> between [] rs sets s \<and> A = rs # map row_set sets) \<or>
     (\<exists>cols c u sets. all_have_columns sets \<and> reading [] (cols, c) u sets s \<and>
        A = (cols, c @ map fields u) # map row_set sets)"

subsection \<open>The stages on such a reply\<close>

lemma mdata_stage_row:
  "acc \<noteq> [] \<Longrightarrow> mdata_stage RMdata acc (map MRow rows @ after_rows sets) = Ended acc RRows (map MRow rows @ after_rows sets)"
  by (cases rows) (auto simp: after_rows_def)

lemma mdata_stage_columns:
  "acc @ cols \<noteq> [] \<Longrightarrow>
   mdata_stage RMdata acc (map MColumn cols @ map MRow rows @ after_rows sets) =
     Ended (acc @ cols) RRows (map MRow rows @ after_rows sets)"
  by (induction cols arbitrary: acc) (auto simp: mdata_stage_row)

lemma mdata_stage_start:
  "cols \<noteq> [] \<Longrightarrow> st = RStart \<or> st = RMdata \<Longrightarrow>
   mdata_stage st [] (map MColumn cols @ map MRow rows @ after_rows sets) =
     Ended cols RRows (map MRow rows @ after_rows sets)"
  using mdata_stage_columns [of "[hd cols]" "tl cols"]
  by (cases cols) auto

lemma rows_stage_all:
  "rows_stage None acc (map MRow u @ after_rows sets) =
     Ended (acc @ map fields u, True, sets \<noteq> []) (if sets = [] then RClose else RMdata) (if sets = [] then [MExecOk] else wire_sets sets)"
  by (induction u arbitrary: acc) (auto simp: after_rows_def)

lemma rows_stage_end:
  "length u < n \<Longrightarrow>
   rows_stage (Some n) acc (map MRow u @ after_rows sets) =
     Ended (acc @ map fields u, True, sets \<noteq> []) (if sets = [] then RClose else RMdata) (if sets = [] then [MExecOk] else wire_sets sets)"
  by (induction u arbitrary: acc n) (auto simp: after_rows_def)

lemma rows_stage_limit:
  "0 < n \<Longrightarrow> n \<le> length u \<Longrightarrow>
   rows_stage (Some n) acc (map MRow u @ after_rows sets) =
     Ended (acc @ map fields (take n u), False, False) RRows (map MRow (drop n u) @ after_rows sets)"
proof (induction u arbitrary: acc n)
  case (Cons r u)
  show ?case
  proof (cases "n = 1")
    case False
    with Cons.prems obtain k where "n = Suc k" "0 < k" "k \<le> length u" by (cases n) auto
    with Cons.IH [of k "acc @ [fields r]"] show ?thesis by simp
  qed simp
qed simp

lemmas op_defs = rret_def rthrow_def rbind_def rput_def rget_def


lemma wait_finish:
  "so_state s = SFinish \<Longrightarrow> so_rcv s = RClose \<Longrightarrow> so_msgs s = [MExecOk] \<Longrightarrow>
   stmt_wait s = Some (Inr (), s\<lparr>so_state := SDone, so_rcv := RDone, so_msgs := []\<rparr>)"
  by (simp add: stmt_wait_def stmt_finish_def)

lemma wait_mdata:
  "so_state s = SMdata \<Longrightarrow> so_rcv s = RStart \<or> so_rcv s = RMdata \<Longrightarrow>
   so_msgs s = wire_sets ((cols, rows) # sets) \<Longrightarrow> cols \<noteq> [] \<Longrightarrow>
   stmt_wait s = Some (Inr (), s\<lparr>so_cols := cols, so_rcv := RRows, so_msgs := map MRow rows @ after_rows sets,
     so_state := SRows\<rparr>)"
  by (auto simp: stmt_wait_def stmt_mdata_def wire_sets_Cons mdata_stage_start simp del: wire_sets.simps)

lemma wait_empty:
  "so_state s = SMdata \<Longrightarrow> so_rcv s = RStart \<or> so_rcv s = RMdata \<Longrightarrow> so_msgs s = wire_sets [] \<Longrightarrow>
   stmt_wait s = Some (Inr (), s\<lparr>so_cols := [], so_rcv := RDone, so_msgs := [], so_state := SDone\<rparr>)"
  by (auto simp: stmt_wait_def stmt_mdata_def stmt_finish_def Let_def)

lemma wait_discard:
  "so_state s = SDiscard \<Longrightarrow> so_rcv s = RRows \<Longrightarrow> so_msgs s = map MRow u @ after_rows sets \<Longrightarrow>
   stmt_wait s = Some (Inr (),
     if sets = [] then s\<lparr>so_rcv := RDone, so_msgs := [], so_state := SDone\<rparr>
     else s\<lparr>so_rcv := RMdata, so_msgs := wire_sets sets, so_state := SNext\<rparr>)"
  by (simp add: stmt_wait_def stmt_discard_def rows_stage_all stmt_finish_def Let_def)

lemma wait_idle: "so_state s \<in> {SRows, SNext, SDone, SError} \<Longrightarrow> stmt_wait s = Some (Inr (), s)"
  by (auto simp: stmt_wait_def)

lemma has_results_done: "so_state s = SDone \<Longrightarrow> has_results s = Some (Inr False, s)"
  by (simp add: has_results_def next_rset_def check_results_def wait_idle op_defs)

lemma has_results_rows: "so_state s = SRows \<Longrightarrow> has_results s = Some (Inr True, s)"
  by (simp add: has_results_def next_rset_def check_results_def wait_idle op_defs)

lemma has_results_next:
  "so_state s = SNext \<Longrightarrow> so_rcv s = RMdata \<Longrightarrow> so_msgs s = wire_sets ((cols, rows) # sets) \<Longrightarrow> cols \<noteq> [] \<Longrightarrow>
   has_results s = Some (Inr True, s\<lparr>so_cols := cols, so_rcv := RRows, so_msgs := map MRow rows @ after_rows sets,
     so_state := SRows\<rparr>)"
  by (simp add: has_results_def next_rset_def check_results_def wait_idle wait_mdata op_defs del: wire_sets.simps)

lemma has_results_wait:
  "stmt_wait s = Some (Inr (), t) \<Longrightarrow> so_state t \<in> {SRows, SNext, SDone, SError} \<Longrightarrow> has_results s = has_results t"
  by (simp add: has_results_def next_rset_def check_results_def wait_idle op_defs)

lemma cursor_new_rows:
  "so_state s = SRows \<Longrightarrow> so_errors s = [] \<Longrightarrow>
   cursor_new s = Some (Inr (), s\<lparr>m_cursor := Some \<lparr>cu_open = True, cu_more_rows = True\<rparr>\<rparr>)"
  by (simp add: cursor_new_def wait_idle has_results_rows rbind_def rput_def)

text \<open>\<open>has_results\<close> stops at the next set of the reply, or at its end.\<close>

lemma open_rows:
  assumes "has_results (s\<lparr>m_cursor := None, m_pending_rows := False, m_inited := True\<rparr>) = Some (Inr True, t)"
    and "so_state t = SRows" "so_rcv t = RRows" "so_cols t = cols" "so_msgs t = map MRow rows @ after_rows sets"
      "so_errors t = []" "cached A t" "m_inited t" "is_current t" "\<not> m_pending_rows s"
  shows "\<exists>r. read_next_result s = Some (Inr True, r) \<and> reading A (cols, []) rows sets r"
  using assms
  by (simp add: read_next_result_def rbind_def rput_def rret_def cursor_new_rows wait_idle push_row_cache_def
      reading_def quiet_def cached_def)

lemma next_between:
  assumes s: "between A rs ((cols, rows) # sets) s" and "cols \<noteq> []"
  shows "\<exists>r. read_next_result s = Some (Inr True, r) \<and> reading (A @ [rs]) (cols, []) rows sets r"
proof (rule open_rows [OF has_results_next])
qed (use assms in \<open>auto simp: between_def quiet_def cached_def\<close>)

lemma next_finished: "finished A s \<Longrightarrow> \<exists>r. read_next_result s = Some (Inr False, r) \<and> finished A r"
  by (simp add: read_next_result_def op_defs finished_def quiet_def cached_def has_results_done deregister_result_def)

text \<open>Reading everything that is left of a set.\<close>

lemma load_rest:
  assumes s: "reading A (cols, c) u sets s" and pre: "prefetch = None \<or> c = [] \<and> prefetch = Some n \<and> length u < n"
  shows "\<exists>b t. load_cache prefetch s = Some (Inr b, t) \<and>
    (if sets = [] then finished (A @ [(cols, c @ map fields u)]) t
     else between A (cols, c @ map fields u) sets t)"
proof -
  let ?cu = "\<lparr>cu_open = True, cu_more_rows = True\<rparr>"
  have stage: "rows_stage prefetch [] (map MRow u @ after_rows sets) =
      Ended (map fields u, True, sets \<noteq> []) (if sets = [] then RClose else RMdata) (if sets = [] then [MExecOk] else wire_sets sets)"
    using pre rows_stage_all [of "[]" u sets] rows_stage_end [of u _ "[]" sets] by auto
  have facts: "m_inited s" "m_result_cache s = map snd A @ [c]" "m_pending_rows s" "m_cursor s = Some ?cu"
    "so_rcv s = RRows" "so_msgs s = map MRow u @ after_rows sets" "so_errors s = []" "m_result_mdata s = map fst A @ [cols]"
    "is_current s"
    using s by (auto simp: reading_def quiet_def cached_def)
  have read: "cursor_get_rows prefetch ?cu s = Some (Inr (),
      s\<lparr>so_rcv := (if sets = [] then RClose else RMdata), so_msgs := (if sets = [] then [MExecOk] else wire_sets sets),
        m_result_cache := map snd A @ [c @ map fields u], m_cursor := Some (?cu\<lparr>cu_more_rows := False\<rparr>),
        m_pending_rows := False, so_state := (if sets = [] then SFinish else SNext)\<rparr>)"
    using facts by (simp add: cursor_get_rows_def stage append_rows_def set_more_def Let_def)
  show ?thesis
  proof (cases "sets = []")
    case True
    with facts pre show ?thesis
      by (auto simp: load_cache_def read op_defs cursor_close_def discard_result_def wait_finish wait_idle
          end_of_reply_def check_results_def deregister_result_def finished_def quiet_def cached_def)
  next
    case False
    with facts pre show ?thesis
      by (auto simp: load_cache_def read op_defs cursor_close_def discard_result_def wait_idle
          end_of_reply_def check_results_def between_def quiet_def cached_def)
  qed
qed

lemma load_some:
  assumes s: "reading A (cols, []) u sets s" and n: "0 < n" "n \<le> length u"
  shows "\<exists>b t. load_cache (Some n) s = Some (Inr b, t) \<and> reading A (cols, map fields (take n u)) (drop n u) sets t"
  using s n
  by (auto simp: load_cache_def cursor_get_rows_def rows_stage_limit append_rows_def set_more_def Let_def op_defs
      reading_def quiet_def cached_def)

lemma load_cached:
  "reading A (cols, r # c) u sets s \<Longrightarrow> load_cache (Some n) s = Some (Inr True, s)"
  by (simp add: load_cache_def op_defs reading_def quiet_def cached_def)

lemma load_idle:
  "quiet s \<Longrightarrow> \<not> m_pending_rows s \<Longrightarrow> \<exists>b. load_cache n s = Some (Inr b, s)"
  by (auto simp: load_cache_def op_defs quiet_def)

text \<open>Leaving a set in the middle: the cursor discards the rows that are left.\<close>

lemma next_reading:
  assumes s: "reading [] rs u sets s" and cols: "all_have_columns sets"
  shows "\<exists>r. next_result s = Some (Inr (sets \<noteq> []), r) \<and>
    (case sets of [] \<Rightarrow> finished [] r | (cols, rows) # sets' \<Rightarrow> reading [] (cols, []) rows sets' r)"
proof -
  let ?cu = "\<lparr>cu_open = True, cu_more_rows = True\<rparr>"
  let ?t = "s\<lparr>m_result_mdata := [], m_result_cache := [], so_state := SDiscard, m_cursor := Some (?cu\<lparr>cu_open := False\<rparr>)\<rparr>"
  let ?e = "?t\<lparr>m_cursor := None, m_pending_rows := False, m_inited := True\<rparr>"
  have facts: "so_state s = SRows" "so_rcv s = RRows" "so_msgs s = map MRow u @ after_rows sets"
    "m_cursor s = Some ?cu" "m_pending_rows s" "so_errors s = []" "is_current s" "m_inited s"
    "m_result_mdata s = [fst rs]" "m_result_cache s = [snd rs]"
    using s by (auto simp: reading_def quiet_def cached_def)
  have pop: "next_result s = read_next_result (s\<lparr>m_result_mdata := [], m_result_cache := []\<rparr>)"
    using facts by (simp add: next_result_def pop_row_cache_def op_defs)
  have close: "read_next_result (s\<lparr>m_result_mdata := [], m_result_cache := []\<rparr>) =
      read_next_result (?t\<lparr>m_pending_rows := False\<rparr>)"
    using facts by (simp add: read_next_result_def cursor_close_def discard_result_def wait_idle op_defs)
  have wait: "stmt_wait ?e = Some (Inr (),
      if sets = [] then ?e\<lparr>so_rcv := RDone, so_msgs := [], so_state := SDone\<rparr>
      else ?e\<lparr>so_rcv := RMdata, so_msgs := wire_sets sets, so_state := SNext\<rparr>)"
    by (rule wait_discard) (simp_all add: facts)
  show ?thesis
  proof (cases sets)
    case Nil
    with wait have "has_results ?e = Some (Inr False, ?e\<lparr>so_rcv := RDone, so_msgs := [], so_state := SDone\<rparr>)"
      by (subst has_results_wait) (auto intro: has_results_done)
    with Nil facts show ?thesis
      by (simp add: pop close read_next_result_def [of "m_pending_rows_update _ _"] op_defs deregister_result_def
          finished_def quiet_def cached_def)
  next
    case (Cons x sets')
    then obtain cols rows where x: "sets = (cols, rows) # sets'" by (cases x) auto
    with assms(2) have ne: "cols \<noteq> []" by (simp add: all_have_columns_def)
    let ?n = "?e\<lparr>so_rcv := RMdata, so_msgs := wire_sets sets, so_state := SNext\<rparr>"
    have "has_results ?e = has_results ?n"
      using wait x by (subst has_results_wait) auto
    also have "\<dots> = Some (Inr True, ?n\<lparr>so_cols := cols, so_rcv := RRows, so_msgs := map MRow rows @ after_rows sets',
        so_state := SRows\<rparr>)"
      by (rule has_results_next) (simp_all add: x ne del: wire_sets.simps)
    finally have opened: "has_results ?e = Some (Inr True, ?n\<lparr>so_cols := cols, so_rcv := RRows,
        so_msgs := map MRow rows @ after_rows sets', so_state := SRows\<rparr>)" .
    have "\<exists>r. read_next_result (?t\<lparr>m_pending_rows := False\<rparr>) = Some (Inr True, r) \<and> reading [] (cols, []) rows sets' r"
    proof (rule open_rows)
      show "has_results (?t\<lparr>m_pending_rows := False, m_cursor := None, m_pending_rows := False, m_inited := True\<rparr>) =
          Some (Inr True, ?n\<lparr>so_cols := cols, so_rcv := RRows, so_msgs := map MRow rows @ after_rows sets',
            so_state := SRows\<rparr>)"
        using opened by simp
    qed (simp_all add: facts cached_def)
    then show ?thesis by (simp add: x pop close)
  qed
qed

lemma next_between_result:
  assumes s: "between [] rs sets s" and cols: "all_have_columns sets"
  shows "\<exists>r. next_result s = Some (Inr (sets \<noteq> []), r) \<and>
    (case sets of [] \<Rightarrow> finished [] r | (cols, rows) # sets' \<Rightarrow> reading [] (cols, []) rows sets' r)"
proof -
  from s obtain cs rows sets' where x: "sets = (cs, rows) # sets'" by (cases sets) (auto simp: between_def)
  with cols have ne: "cs \<noteq> []" by (simp add: all_have_columns_def)
  let ?p = "s\<lparr>m_result_mdata := [], m_result_cache := []\<rparr>"
  have pop: "next_result s = read_next_result ?p"
    using s by (simp add: next_result_def pop_row_cache_def op_defs between_def cached_def)
  have "\<exists>r. read_next_result ?p = Some (Inr True, r) \<and> reading [] (cs, []) rows sets' r"
  proof (rule open_rows [OF has_results_next])
  qed (use s x ne in \<open>auto simp: between_def quiet_def cached_def\<close>)
  then show ?thesis by (simp add: x pop)
qed

lemma next_finished_result:
  assumes "finished A s"
  shows "\<exists>r. next_result s = Some (Inr (tl A \<noteq> []), r) \<and> finished (tl A) r"
proof -
  let ?p = "s\<lparr>m_result_mdata := map fst (tl A), m_result_cache := map snd (tl A)\<rparr>"
  have pop: "next_result s = (if tl A \<noteq> [] then Some (Inr True, ?p) else read_next_result ?p)"
    using assms by (simp add: next_result_def pop_row_cache_def op_defs finished_def cached_def flip: map_tl)
  have p: "finished (tl A) ?p" using assms by (simp add: finished_def quiet_def cached_def)
  show ?thesis using p next_finished [OF p] by (auto simp: pop)
qed

text \<open>Another statement takes everything off the connection; every set stays readable.\<close>

lemma store_finished:
  assumes "finished A s"
  shows "\<exists>t. store_all_results s = Some (Inr (), t) \<and> finished A t"
proof -
  obtain b where "load_cache None s = Some (Inr b, s)"
    using load_idle [of s None] assms by (auto simp: finished_def)
  then show ?thesis
    using next_finished [OF assms] by (auto simp: store_all_results.simps [of s])
qed

lemma store_loop:
  assumes "load_cache None s = Some (Inr b, t)" and "read_next_result t = Some (Inr True, r)"
  shows "store_all_results s = store_all_results r"
  using assms by (simp add: store_all_results.simps [of s])

lemma store_reading:
  "reading A (cols, c) u sets s \<Longrightarrow> all_have_columns sets \<Longrightarrow>
   \<exists>t. store_all_results s = Some (Inr (), t) \<and> finished (A @ (cols, c @ map fields u) # map row_set sets) t"
proof (induction sets arbitrary: A cols c u s)
  case Nil
  from load_rest [OF Nil(1), of None] obtain b t
    where t: "load_cache None s = Some (Inr b, t)" "finished (A @ [(cols, c @ map fields u)]) t" by auto
  with next_finished [OF t(2)] show ?case by (auto simp: store_all_results.simps [of s])
next
  case (Cons x sets)
  obtain cs rows where x: "x = (cs, rows)" by (cases x)
  with Cons.prems have ne: "cs \<noteq> []" "all_have_columns sets" by (auto simp: all_have_columns_def)
  from load_rest [OF Cons.prems(1), of None] obtain b t
    where t: "load_cache None s = Some (Inr b, t)" "between A (cols, c @ map fields u) ((cs, rows) # sets) t"
    by (auto simp: x)
  from next_between [OF t(2) ne(1)] obtain r
    where r: "read_next_result t = Some (Inr True, r)" "reading (A @ [(cols, c @ map fields u)]) (cs, []) rows sets r"
    by blast
  from Cons.IH [OF r(2) ne(2)] show ?case
    by (simp add: store_loop [OF t(1) r(1)] x)
qed

lemma store_between:
  assumes s: "between [] rs sets s" and cols: "all_have_columns sets"
  shows "\<exists>t. store_all_results s = Some (Inr (), t) \<and> finished (rs # map row_set sets) t"
proof -
  from s obtain cs rows sets' where x: "sets = (cs, rows) # sets'" by (cases sets) (auto simp: between_def)
  with cols have ne: "cs \<noteq> []" "all_have_columns sets'" by (auto simp: all_have_columns_def)
  obtain b where b: "load_cache None s = Some (Inr b, s)"
    using load_idle [of s None] s by (auto simp: between_def)
  from next_between [OF s [unfolded x] ne(1)] obtain r
    where r: "read_next_result s = Some (Inr True, r)" "reading ([] @ [rs]) (cs, []) rows sets' r" by blast
  from store_reading [OF r(2) ne(2)] show ?thesis by (simp add: store_loop [OF b r(1)] x)
qed

subsection \<open>The calls on each kind of state\<close>

lemma read_reading:
  assumes s: "reading [] (cols, c) u sets s" and cols: "all_have_columns sets"
  shows "\<exists>t. read_row s = Some (Inr (fst (list_call FetchRow ((cols, c @ map fields u) # map row_set sets))), t) \<and>
    offers (snd (list_call FetchRow ((cols, c @ map fields u) # map row_set sets))) t"
proof (cases c)
  case (Cons r c')
  have "read_row s = Some (Inr (Row cols r), s\<lparr>m_result_cache := [c']\<rparr>)"
    using s Cons by (simp add: read_row_def get_row_def rbind_def load_cached rret_def rget_def)
      (simp add: reading_def cached_def quiet_def rget_def)
  moreover have "reading [] (cols, c') u sets (s\<lparr>m_result_cache := [c']\<rparr>)"
    using s by (simp add: reading_def quiet_def cached_def)
  ultimately show ?thesis using cols Cons by (auto simp: offers_def)
next
  case Nil
  show ?thesis
  proof (cases "length u < 16")
    case True
    have "\<exists>b t. load_cache (Some 16) s = Some (Inr b, t) \<and>
        (if sets = [] then finished [(cols, map fields u)] t else between [] (cols, map fields u) sets t)"
      using load_rest [OF s, of "Some 16" 16] True by (simp only: Nil simp_thms append_Nil)
    then obtain b t
      where t: "load_cache (Some 16) s = Some (Inr b, t)"
        "if sets = [] then finished [(cols, map fields u)] t else between [] (cols, map fields u) sets t" by blast
    have t': "m_result_cache t = [map fields u]" "m_result_mdata t = [cols]" "so_errors t = []"
      using t(2) by (auto simp: finished_def between_def cached_def quiet_def split: if_splits)
    show ?thesis
    proof (cases u)
      case Nil
      have "read_row s = Some (Inr NoRow, t)"
        using t' Nil by (simp add: read_row_def get_row_def rbind_def t(1) rret_def)
      moreover have "offers ((cols, []) # map row_set sets) t"
        using t(2) cols Nil by (auto simp: offers_def split: if_splits)
      ultimately show ?thesis using Nil \<open>c = []\<close> by simp
    next
      case (Cons r u')
      let ?t = "t\<lparr>m_result_cache := [map fields u']\<rparr>"
      have "read_row s = Some (Inr (Row cols (fields r)), ?t)"
        using t' Cons by (simp add: read_row_def get_row_def rbind_def t(1) rret_def rget_def)
      moreover have "if sets = [] then finished [(cols, map fields u')] ?t else between [] (cols, map fields u') sets ?t"
        using t(2) by (auto simp: finished_def between_def cached_def quiet_def split: if_splits)
      then have "offers ((cols, map fields u') # map row_set sets) ?t"
        using cols by (auto simp: offers_def split: if_splits)
      ultimately show ?thesis using Cons \<open>c = []\<close> by simp
    qed
  next
    case False
    with load_some [of "[]" cols u sets s 16] s Nil obtain b t
      where t: "load_cache (Some 16) s = Some (Inr b, t)" "reading [] (cols, map fields (take 16 u)) (drop 16 u) sets t"
      by auto
    from False obtain r u' where u: "u = r # u'" by (cases u) auto
    let ?t = "t\<lparr>m_result_cache := [map fields (take 15 u')]\<rparr>"
    have "read_row s = Some (Inr (Row cols (fields r)), ?t)"
      using t(2) u by (simp add: read_row_def get_row_def rbind_def t(1) rret_def rget_def reading_def cached_def)
    moreover have "reading [] (cols, map fields (take 15 u')) (drop 15 u') sets ?t"
      using t(2) u by (simp add: reading_def cached_def quiet_def)
    then have "offers ((cols, map fields u') # map row_set sets) ?t"
      using cols unfolding offers_def
      by (intro disjI2 exI [of _ cols] exI [of _ "map fields (take 15 u')"] exI [of _ "drop 15 u'"] exI [of _ sets])
        (simp flip: map_append)
    ultimately show ?thesis using u Nil by simp
  qed
qed

lemma read_idle:
  assumes q: "quiet s" "\<not> m_pending_rows s" and c: "cached A s"
  shows "\<exists>t. read_row s = Some (Inr (fst (list_call FetchRow A)), t) \<and>
    t = s\<lparr>m_result_cache := map snd (snd (list_call FetchRow A))\<rparr> \<and> map fst (snd (list_call FetchRow A)) = map fst A"
proof -
  obtain b where "load_cache (Some 16) s = Some (Inr b, s)"
    using load_idle [of s "Some 16"] q by auto
  moreover have "s = s\<lparr>m_result_cache := map snd A\<rparr>" using c by (cases s) (simp add: cached_def)
  ultimately show ?thesis
    using q c by (cases "(FetchRow, A)" rule: list_call.cases)
      (simp_all add: read_row_def get_row_def rbind_def rret_def rget_def cached_def quiet_def)
qed

lemma next_offers:
  assumes "case sets of [] \<Rightarrow> finished [] r | (cols, rows) # sets' \<Rightarrow> reading [] (cols, []) rows sets' r"
    and "all_have_columns sets"
  shows "offers (map row_set sets) r"
  using assms
  by (cases sets) (auto simp: offers_def all_have_columns_def, metis append_Nil)

text \<open>Every call answers as the list does.\<close>

lemma call_simulates:
  assumes "offers A s"
  shows "\<exists>t. do_call k s = Some (Inr (fst (list_call k A)), t) \<and> offers (snd (list_call k A)) t"
proof -
  consider (fin) "finished A s"
    | (bet) rs sets where "all_have_columns sets" "between [] rs sets s" "A = rs # map row_set sets"
    | (rd) cols c u sets where "all_have_columns sets" "reading [] (cols, c) u sets s"
        "A = (cols, c @ map fields u) # map row_set sets"
    using assms by (auto simp: offers_def)
  then show ?thesis
  proof cases
    case fin
    show ?thesis
    proof (cases k)
      case FetchRow
      with read_idle [of s A] fin show ?thesis
        by (fastforce simp: do_call_def finished_def offers_def quiet_def cached_def)
    next
      case NextResult
      with next_finished_result [OF fin] show ?thesis by (auto simp: do_call_def op_defs offers_def)
    next
      case OtherStatement
      with store_finished [OF fin] show ?thesis
        by (auto simp: do_call_def op_defs offers_def check_results_def wait_idle finished_def)
    qed
  next
    case bet
    show ?thesis
    proof (cases k)
      case FetchRow
      obtain cols c where rs: "rs = (cols, c)" by (cases rs)
      have q: "quiet s" "\<not> m_pending_rows s" "cached [rs] s" using bet by (auto simp: between_def)
      from read_idle [OF q] bet rs show ?thesis
        by (cases c) (fastforce simp: do_call_def FetchRow offers_def between_def quiet_def cached_def)+
    next
      case NextResult
      with next_between_result [OF bet(2,1)] bet(1,3) next_offers show ?thesis
        by (fastforce simp: do_call_def rbind_def rret_def)
    next
      case OtherStatement
      with store_between [OF bet(2,1)] bet(3) show ?thesis
        by (auto simp: do_call_def op_defs offers_def check_results_def wait_idle finished_def)
    qed
  next
    case rd
    show ?thesis
    proof (cases k)
      case FetchRow
      with read_reading [OF rd(2,1)] rd(3) show ?thesis by (simp add: do_call_def)
    next
      case NextResult
      with next_reading [OF rd(2,1)] rd(1,3) next_offers show ?thesis
        by (fastforce simp: do_call_def rbind_def rret_def)
    next
      case OtherStatement
      with store_reading [OF rd(2,1)] rd(3) show ?thesis
        by (auto simp: do_call_def op_defs offers_def check_results_def wait_idle finished_def)
    qed
  qed
qed

lemma calls_simulate:
  "offers A s \<Longrightarrow> \<exists>t. do_calls ks s = Some (Inr (list_calls ks A), t)"
proof (induction ks arbitrary: A s)
  case (Cons k ks)
  obtain a A' where k: "list_call k A = (a, A')" by (cases "list_call k A")
  with call_simulates [OF Cons.prems, of k] obtain t where t: "do_call k s = Some (Inr a, t)" "offers A' t" by auto
  from Cons.IH [OF t(2)] show ?case by (auto simp: rbind_def rret_def t(1) k)
qed (simp add: rret_def)

subsection \<open>From the reply to the answers\<close>

text \<open>
  The reply is waited for (\<open>Op_base::wait\<close>), the result is made of it, and the client's calls follow.
\<close>

definition client_sees :: "rcall list \<Rightarrow> msg list \<Rightarrow> (xfault + ranswer list) option" where
  "client_sees ks ms =
     map_option fst (rbind stmt_wait (\<lambda>_. rbind result_new (\<lambda>_. do_calls ks)) (new_reply ms))"

lemma no_errors: "so_errors (new_reply ms) = []"
  by (simp add: new_reply_def)

lemma new_offers:
  assumes "all_have_columns sets"
  shows "\<exists>s t. stmt_wait (new_reply (wire_sets sets)) = Some (Inr (), s) \<and> result_new s = Some (Inr (), t) \<and>
    so_errors s = [] \<and> offers (map row_set sets) t"
proof (cases sets)
  case Nil
  then show ?thesis
    by (simp add: wait_empty new_reply_def result_new_def next_result_def read_next_result_def pop_row_cache_def op_defs
        has_results_done deregister_result_def offers_def finished_def quiet_def cached_def)
next
  case (Cons x sets')
  obtain cols rows where x: "x = (cols, rows)" by (cases x)
  with Cons assms have ne: "cols \<noteq> []" "all_have_columns sets'" by (auto simp: all_have_columns_def)
  let ?n = "new_reply (wire_sets sets)"
  let ?s = "?n\<lparr>so_cols := cols, so_rcv := RRows, so_msgs := map MRow rows @ after_rows sets', so_state := SRows\<rparr>"
  let ?c = "?s\<lparr>is_current := True\<rparr>"
  have "stmt_wait ?n = Some (Inr (), ?s)"
    by (rule wait_mdata) (simp_all add: new_reply_def Cons x ne del: wire_sets.simps)
  moreover have "\<exists>r. read_next_result ?c = Some (Inr True, r) \<and> reading [] (cols, []) rows sets' r"
    by (rule open_rows [OF has_results_rows]) (simp_all add: new_reply_def cached_def)
  then obtain r where "read_next_result ?c = Some (Inr True, r)" "reading [] (cols, []) rows sets' r" by blast
  moreover have "next_result ?c = read_next_result ?c"
    by (simp add: next_result_def pop_row_cache_def op_defs new_reply_def)
  ultimately show ?thesis
    using ne by (auto simp: result_new_def op_defs offers_def Cons x no_errors)
qed

text \<open>
  C6: Whatever the client does with the reply to its statement - fetching rows, moving to the next
  result set, running other statements on the connection in between - it sees exactly the list of
  result sets the server sent: every row of every set once, in order, each with the columns of its own
  set, no row lost or stuck behind another statement's, and the other statements always get their
  reply. All calls return.
\<close>
theorem client_sees_result_sets:
  assumes "all_have_columns sets"
  shows "client_sees ks (wire_sets sets) = Some (Inr (list_calls ks (map row_set sets)))"
proof -
  from new_offers [OF assms] obtain s t where
    "stmt_wait (new_reply (wire_sets sets)) = Some (Inr (), s)" "result_new s = Some (Inr (), t)"
    "offers (map row_set sets) t" by blast
  with calls_simulate [of "map row_set sets" t ks] show ?thesis
    by (auto simp: client_sees_def rbind_def)
qed

theorem client_sees_result_sets_witness:
  "client_sees [FetchRow, OtherStatement, FetchRow, FetchRow, NextResult, FetchRow, NextResult]
     (wire_sets [([\<lparr>cm_type = PtUint, cm_content_type = 0, cm_cs = 0\<rparr>], [[[1]], [[2]]]),
                 ([\<lparr>cm_type = PtSint, cm_content_type = 0, cm_cs = 0\<rparr>], [[[3]]])]) =
   Some (Inr [Row [\<lparr>cm_type = PtUint, cm_content_type = 0, cm_cs = 0\<rparr>] (fields [[1]]), OtherRuns True,
     Row [\<lparr>cm_type = PtUint, cm_content_type = 0, cm_cs = 0\<rparr>] (fields [[2]]), NoRow, Another True,
     Row [\<lparr>cm_type = PtSint, cm_content_type = 0, cm_cs = 0\<rparr>] (fields [[3]]), Another False])"
  by (subst client_sees_result_sets) (simp_all add: all_have_columns_def)

end
