(* ===== verification/Spec2Isabelle.thy ===== *)
theory Spec2Isabelle
  imports Helpers Td TdSync DB Statement MainLoop TdHandler TeaCurl Accounts Modules Pool
    HistoryProps HistoryEnd Crud TeaBot Md5 Sha1 FileDigest HistoryTypes HistoryTd
    Print XStream
begin

text \<open>
  A verification library for tgvisd, a Telegram client that scrapes chats into a MySQL database,
  and for the two programs it grew out of, which the repository keeps.

  \<^bold>\<open>The program and its parts.\<close> Paths are relative to the repository.
  \<^item> \<open>src/tgvisd\<close> is the current program. \<open>entry.cpp\<close> reads the environment and makes a \<open>Main\<close>,
    which drives the event loop of the TDLib client \<open>Td\<close> and starts a scraper thread; the scraper
    opens a \<open>DB\<close> connection and runs the chat scraper, which makes blocking calls through the
    same client. \<open>DBStatement\<close> is what a query would go through.
  \<^item> \<open>old.old/src.old2/tgvisd\<close> is its predecessor. \<open>main.cpp\<close> reads a list of accounts; \<open>Main\<close>
    owns a pool of \<open>Worker\<close> threads that updates are handed to, and shares one \<open>Module\<close> object
    with the other \<open>Main\<close> objects; \<open>Modules/Preload/HistoryScraper\<close> reads the event log of a
    group and stores deleted and edited messages, and moves each file to a name made of its digests,
    which \<open>ext/md5_php.c\<close> and \<open>ext/sha1_php.c\<close> compute.
  \<^item> \<open>old.old/src.old\<close> is TeaBot, the oldest. It has its own account loader, its own TDLib client
    \<open>TdHandler\<close>, and answers each text message in a detached thread with one of its modules,
    some of which run shell commands.

  \<^bold>\<open>Theories.\<close> Each is named with the sources it models; state is a record with the
  members of the class, each method a function on it.
  \<^item> \<open>Prelude\<close>: outcomes (\<open>ub\<close> for programming errors, \<open>exn\<close> where exceptions are thrown too),
    sequencing, byte buffers with checked accesses. \<open>CLib\<close>: the C library functions in use.
    \<open>TdApi\<close>: the TDLib objects, with the fields the sources read.
  \<^item> \<open>Registry\<close>: locale \<open>query_registry\<close>, the contract between the two TDLib clients and those who
    send queries (fresh identifiers, a handler found under its own). Interpreted on both clients.
  \<^item> \<open>Td\<close>: \<open>Td/Td.cpp\<close>, \<open>Td/Td.hpp\<close>, \<open>Td/Callback.hpp\<close>. The invariant of the event loop, and its
    refinement of a view that knows only the updates received. \<open>TdSync\<close>: the template
    \<open>send_query_sync\<close>, its answer, its timeout and the frame its callback captures.
  \<^item> \<open>DB\<close>: \<open>DB.cpp\<close>, \<open>DBCommon.hpp\<close> and the older \<open>DB.cpp\<close>; locale \<open>session_owner\<close> states when an
    object gives back the sessions it opens, interpreted on the current class; the older one does
    not meet it. \<open>Statement\<close>: \<open>DBFunc/DBStatement.hpp\<close> and \<open>DBt/PreparedStatement\<close>.
    \<open>Crud\<close>: \<open>Main/History/CRUD.cpp\<close>, over the same ledger of handles.
  \<^item> \<open>MainLoop\<close>: \<open>entry.cpp\<close>, \<open>Main.cpp\<close>, \<open>Scraper.cpp\<close>, \<open>Scrapers/ChatScraper.cpp\<close> as a step
    relation of three threads and the signal handler, composed of \<open>Td\<close>, \<open>TdSync\<close> and \<open>DB\<close>.
  \<^item> \<open>Modules\<close>: \<open>Main/Module\<close>, \<open>Modules/Enumerate/Shell.cpp\<close>, the reference counts of \<open>Main\<close>.
    \<open>Pool\<close>: \<open>Main/Main.cpp\<close> and \<open>Main/Worker.cpp\<close> as a step relation of the main thread and the
    workers; locale \<open>idle_stack\<close> is the contract of the two stacks of idle workers.
  \<^item> \<open>HistoryDb\<close>, \<open>History\<close>, \<open>HistoryFacts\<close>, \<open>HistoryProps\<close>, \<open>HistoryEnd\<close>: the history scraper. \<open>HistoryDb\<close>
    gives the statements of the source, what each does when it succeeds (\<open>sql_ok\<close>), the locales
    \<open>history_db\<close> and \<open>reliable_db\<close> for a server that keeps to it, and an executable server with
    the shipped schema or the one the statements need, on which they are interpreted. \<open>History\<close>
    has every operation of class \<open>Worker\<close> of \<open>HistoryScraper.cpp\<close>. \<open>HistoryFacts\<close> proves once,
    in the locales from \<open>step_rel\<close> to \<open>full_rel\<close>, that an operation keeps a relation its statements
    keep; the sublocales \<open>mark\<close>, \<open>known\<close>, \<open>message\<close>, \<open>cache\<close> and \<open>files\<close> of \<open>scraper\<close> are the
    relations needed. \<open>HistoryEnd\<close> follows an exception from the statement to \<open>Worker::run\<close>.
  \<^item> \<open>Digest\<close>, \<open>Md5\<close>, \<open>Sha1\<close>: the digests. \<open>Digest\<close> has hashing in blocks, the 64-byte buffer of a
    context, and the locale \<open>stream_hash\<close>, the contract of a context that is fed piece by piece,
    interpreted on both. \<open>md5\<close> and \<open>sha1\<close> are RFC 1321 and FIPS 180, the rest follows the C files.
    \<open>FileDigest\<close>: the part of \<open>resolveFile\<close> that uses them, over the files a process has open.
    \<open>HistoryTypes\<close>: the statements of the scraper against the columns of \<open>database.sql\<close>.
    \<open>HistoryTd\<close>: its blocking queries through \<open>TdSync\<close>, and what it does when they are not answered.
  \<^item> \<open>Print\<close>: \<open>print.c\<close> and \<open>print.h\<close>, as a step relation of the threads that print, together with
    the writes of \<open>Td\<close> and of the signal handler that go around it.
  \<^item> \<open>XWire\<close>, \<open>XRow\<close>, \<open>XReply\<close>, \<open>XResult\<close>, \<open>XStream\<close>: how the MySQL connector of \<open>src/ext/mysql_cpp\<close>
    hands rows to the program. \<open>XWire\<close>: the integers of the wire format (\<open>varint\<close>s, zigzag, tags).
    \<open>XRow\<close>: a row as the connector caches it, and the C calls of the scrapers that read its cells;
    the cells \<open>History\<close> reads are read through them. \<open>XReply\<close>: the messages of a reply as the protocol
    layer accepts them. \<open>XResult\<close>: statement, cursor and cache of a result. \<open>XStream\<close>: what a client
    that reads a result to its end sees, against the list of result sets that the server sent.
  \<^item> \<open>Helpers\<close>: \<open>TeaBot/helpers.cpp\<close> and \<open>helpers.hpp\<close>, against a reader of shell words. \<open>TeaCurl\<close>:
    \<open>TeaBot/TeaCurl.cpp\<close>. \<open>TdHandler\<close>: \<open>TdTeaBot/TdHandler.cpp\<close>. \<open>TeaModules\<close>: \<open>Response.cpp\<close>,
    \<open>Responses\<close>, \<open>Modules\<close> of TeaBot, one message at a time. \<open>TeaBot\<close>: \<open>TeaBot.cpp\<close>, the main
    thread and the detached response threads as a step relation over the client they share, with
    an invariant that ties each thread to the answer of its own query. \<open>Accounts\<close>: the three loaders.

  \<^bold>\<open>What the lemmas show.\<close>
  \<^item> Memory: no operation leaves its arrays where the theorem says so, and where one does
    (\<open>escapeshellarg\<close> on quotes only) the theorem says exactly when.
  \<^item> Event loops: between two calls nothing is locked, and what can be seen of a client is the fold of
    the updates it received; the current client traps exactly if it is asked for its parameters
    without credentials or if a blocking call that has given up is answered, and both clients after
    \<open>authorizationStateClosed\<close>, when they lose their manager.
  \<^item> Blocking calls: the answer is returned in time, or the timeout is, or the caller waits.
  \<^item> Threads: the order of a shutdown, the shutdowns that never end, the states of the pool, the
    responses of TeaBot.
  \<^item> Resources: which sessions, results and error objects are given back.
  \<^item> History: events are stored all or nothing and once; what is remembered about users is what the
    table says; which versions of an edited message are kept; the log is read page by page to its end, unless
    an event throws or a request stays unanswered; a file that cannot be had ends the thread; the
    values bound to every statement are of the number and kind it needs.
  \<^item> Digests: the code computes the digests of the standards, for contents of less than \<open>2 ^ 61\<close> bytes;
    what a process can still store when the files it opened for them have used up its limit.
  \<^item> Rows from the server: what the server encodes is what the program reads, cell by cell, row by
    row and result set by result set, and a reply out of order is refused.
  \<^item> Printing: the lines of \<open>print.c\<close> do not mix, and no thread is stuck behind the two locks; the
    direct writes can come to stand inside a line.
  \<^item> Accounts: what was written to the account files is what is loaded, and which accounts.

  \<^bold>\<open>Parameters.\<close> What is not in the repository is an argument: what TDLib's
  \<open>receive\<close> returns and answers to queries, what the MySQL server answers, the shell behind
  \<open>popen\<close>, the chunks libcurl delivers, the file system, the environment, the clock, the
  contents of memory before it is written, whether a thread or a block of memory can be had.
  Contracts are stated for the MySQL server (\<open>history_db\<close>, \<open>reliable_db\<close>) and for the
  answers of Telegram the scraper pages through (\<open>older_pages\<close>, \<open>serves_log\<close>); all are met by concrete functions.

  \<^bold>\<open>Bounds and loops.\<close> Integers have the width of the source where it can be exceeded
  (query identifiers, user keys, timeouts, the port, reference counts). \<open>sync_loop\<close> takes
  the list of what the other threads do in each wait, one entry a second, and ends as \<open>Waiting\<close> when
  the list does; the theorems say for which lists it returns. The loaders and the readers of lines
  are total, with a measure. \<open>gather\<close>, the paging loop of the history scraper, is a partial function
  in the option type: not returning is \<open>None\<close>, and \<open>gather_terminates\<close> shows when it returns. So is
  \<open>sha1_loop\<close>, which ends for the lengths \<open>sha1_file\<close> passes and not from 4 GB on.
  \<open>store_all_results\<close>, the client that reads every result set, is one too; \<open>client_sees_result_sets\<close>
  gives the result it returns.
  Loops over lists of updates, chunks and events recurse on the list.

  \<^bold>\<open>Not modelled.\<close>
  \<^item> Thread names and what the arguments of a line are formatted to; \<open>Print\<close> has the writes to the
    standard output, and the other theories leave out what they would print, since nothing depends
    on it.
  \<^item> Vendored code: of the MySQL connector (\<open>src/ext\<close>) all but the way of a row from the wire to the
    program (connections, TLS, authentication, statements on the way to the server, notices,
    character sets, the document store, JDBC and the generated protobuf code are left out); the JSON
    library of TeaBot; and inih, which no program calls.
  \<^item> What happens when two threads of TeaBot are inside \<open>send_query\<close> at once: it changes the table of
    handlers without a lock, and in the model one \<open>send_query\<close> is one step.
  \<^item> Code that is commented out; the block of \<open>updateNewMessage\<close> under \<open>#if 0\<close> that feeds the worker
    pool is modelled, since the pool has no other client.
\<close>

end
